(* ===== verification/Prelude.thy ===== *)
theory Prelude
  imports Main "HOL-Library.Word"
begin

text \<open>
  Vocabulary shared by every component: the fact collections of the development, results as
  sums (\<open>Inl\<close> an error, \<open>Inr\<close> a value), Python's text operations on \<^typ>\<open>string\<close> (a list of
  characters; a character is a code point below 256) and the list lemmas several components use.
\<close>

named_theorems sum_split \<open>case splits on results\<close>
named_theorems framing \<open>which characters a rendered text can hold\<close>

lemmas [sum_split] = sum.splits option.splits if_splits prod.splits

section \<open>Results\<close>

text \<open>A Python call that raises is \<open>Inl\<close> of what it raises; \<open>bindE\<close> stops at the first error.\<close>

fun bindE :: "'e + 'a \<Rightarrow> ('a \<Rightarrow> 'e + 'b) \<Rightarrow> 'e + 'b" where
  "bindE (Inl e) f = Inl e"
| "bindE (Inr x) f = f x"

lemma bindE_Inr_iff: "bindE m f = Inr y \<longleftrightarrow> (\<exists>x. m = Inr x \<and> f x = Inr y)"
  by (cases m) auto

lemma bindE_Inl_iff: "bindE m f = Inl e \<longleftrightarrow> m = Inl e \<or> (\<exists>x. m = Inr x \<and> f x = Inl e)"
  by (cases m) auto

fun mapE :: "('a \<Rightarrow> 'e + 'b) \<Rightarrow> 'a list \<Rightarrow> 'e + 'b list" where
  "mapE f [] = Inr []"
| "mapE f (x # xs) = bindE (f x) (\<lambda>y. bindE (mapE f xs) (\<lambda>ys. Inr (y # ys)))"

lemma mapE_Inr_map: "(\<And>x. x \<in> set xs \<Longrightarrow> f x = Inr (g x)) \<Longrightarrow> mapE f xs = Inr (map g xs)"
  by (induction xs) auto

lemma mapE_length: "mapE f xs = Inr ys \<Longrightarrow> length ys = length xs"
  by (induction xs arbitrary: ys) (auto simp: bindE_Inr_iff)

section \<open>Text\<close>

abbreviation NL :: char where "NL \<equiv> CHR 0x0A"
abbreviation TAB :: char where "TAB \<equiv> CHR 0x09"

definition code :: "char \<Rightarrow> nat" where
  "code c = of_char c"

text \<open>\<open>str.isdigit\<close> on the characters below 256: the ASCII digits and the three superscripts.\<close>

definition ascii_digit :: "char \<Rightarrow> bool" where
  "ascii_digit c \<longleftrightarrow> 48 \<le> code c \<and> code c \<le> 57"

definition py_isdigit_char :: "char \<Rightarrow> bool" where
  "py_isdigit_char c \<longleftrightarrow> ascii_digit c \<or> code c \<in> {178, 179, 185}"

definition py_isdigit :: "string \<Rightarrow> bool" where
  "py_isdigit s \<longleftrightarrow> s \<noteq> [] \<and> list_all py_isdigit_char s"

definition hex_digit :: "nat \<Rightarrow> char" where
  "hex_digit n = (if n < 10 then char_of (48 + n) else char_of (87 + n))"

definition hex_lower :: "char \<Rightarrow> bool" where
  "hex_lower c \<longleftrightarrow> ascii_digit c \<or> 97 \<le> code c \<and> code c \<le> 102"

text \<open>\<open>str.join\<close>, \<open>str.startswith\<close>, and \<open>str.split\<close> on one character.\<close>

fun join :: "string \<Rightarrow> string list \<Rightarrow> string" where
  "join sep [] = []"
| "join sep [x] = x"
| "join sep (x # y # zs) = x @ sep @ join sep (y # zs)"

definition startswith :: "string \<Rightarrow> string \<Rightarrow> bool" where
  "startswith s p \<longleftrightarrow> take (length p) s = p"

fun split_on :: "char \<Rightarrow> string \<Rightarrow> string list" where
  "split_on c [] = [[]]"
| "split_on c (x # xs) =
     (if x = c then [] # split_on c xs
      else (case split_on c xs of [] \<Rightarrow> [[x]] | p # ps \<Rightarrow> (x # p) # ps))"

text \<open>\<open>str.partition\<close>: what is before the first separator, whether it is there, what is after.\<close>

definition partition_at :: "char \<Rightarrow> string \<Rightarrow> string \<times> bool \<times> string" where
  "partition_at c s =
     (takeWhile (\<lambda>x. x \<noteq> c) s, c \<in> set s, drop 1 (dropWhile (\<lambda>x. x \<noteq> c) s))"

text \<open>\<open>str.rpartition\<close>: the same at the last separator; without one, everything is the last part.\<close>

definition rpartition_at :: "char \<Rightarrow> string \<Rightarrow> string \<times> bool \<times> string" where
  "rpartition_at c s =
     (if c \<in> set s
      then (rev (drop 1 (dropWhile (\<lambda>x. x \<noteq> c) (rev s))), True, rev (takeWhile (\<lambda>x. x \<noteq> c) (rev s)))
      else ([], False, s))"

lemma startswith_append [simp]: "startswith (p @ s) p"
  by (simp add: startswith_def)

lemma split_on_not_Nil [simp]: "split_on c s \<noteq> []"
  by (induction s) (auto split: list.splits)

lemma split_on_no_sep: "c \<notin> set s \<Longrightarrow> split_on c s = [s]"
  by (induction s) auto

lemma split_on_append_sep: "c \<notin> set s \<Longrightarrow> split_on c (s @ c # t) = s # split_on c t"
  by (induction s) (auto split: list.splits)

lemma split_on_parts: "p \<in> set (split_on c s) \<Longrightarrow> c \<notin> set p"
  by (induction s arbitrary: p) (auto split: list.splits if_splits)

lemma join_Cons: "xs \<noteq> [] \<Longrightarrow> join sep (x # xs) = x @ sep @ join sep xs"
  by (cases xs) auto

lemma split_join:
  assumes "xs \<noteq> []" and "\<And>x. x \<in> set xs \<Longrightarrow> c \<notin> set x"
  shows "split_on c (join [c] xs) = xs"
  using assms
proof (induction xs)
  case Nil
  then show ?case by simp
next
  case (Cons x xs)
  show ?case
  proof (cases xs)
    case Nil
    with Cons.prems show ?thesis by (simp add: split_on_no_sep)
  next
    case (Cons y ys)
    with Cons.IH Cons.prems show ?thesis by (simp add: split_on_append_sep)
  qed
qed

text \<open>Joining is injective on parts that do not hold the separator: what every derived id rests on.\<close>

lemma join_inject:
  assumes "join [c] xs = join [c] ys" and "xs \<noteq> []" and "ys \<noteq> []"
    and "\<And>x. x \<in> set xs \<Longrightarrow> c \<notin> set x" and "\<And>y. y \<in> set ys \<Longrightarrow> c \<notin> set y"
  shows "xs = ys"
  using assms split_join [of xs c] split_join [of ys c] by metis

lemma partition_at_split: "c \<notin> set a \<Longrightarrow> partition_at c (a @ c # b) = (a, True, b)"
  by (auto simp: partition_at_def takeWhile_append dropWhile_append)

lemma partition_at_none: "c \<notin> set a \<Longrightarrow> partition_at c a = (a, False, [])"
  by (induction a) (auto simp: partition_at_def)

lemma partition_at_join: "partition_at c s = (a, True, b) \<Longrightarrow> s = a @ c # b \<and> c \<notin> set a"
proof -
  assume p: "partition_at c s = (a, True, b)"
  have "c \<in> set s \<Longrightarrow> dropWhile (\<lambda>x. x \<noteq> c) s = c # drop 1 (dropWhile (\<lambda>x. x \<noteq> c) s)"
    by (induction s) auto
  with p have "dropWhile (\<lambda>x. x \<noteq> c) s = c # b" by (simp add: partition_at_def)
  moreover have "s = takeWhile (\<lambda>x. x \<noteq> c) s @ dropWhile (\<lambda>x. x \<noteq> c) s" by simp
  ultimately show ?thesis using p by (auto simp: partition_at_def dest: set_takeWhileD)
qed

lemma rpartition_at_split: "c \<notin> set b \<Longrightarrow> rpartition_at c (a @ c # b) = (a, True, b)"
  by (simp add: rpartition_at_def takeWhile_append dropWhile_append)

section \<open>Decimal numerals\<close>

definition digit_char :: "nat \<Rightarrow> char" where
  "digit_char d = char_of (48 + d)"

fun digits_of :: "nat \<Rightarrow> string" where
  "digits_of n = (if n < 10 then [digit_char n] else digits_of (n div 10) @ [digit_char (n mod 10)])"

declare digits_of.simps [simp del]

definition str_of_nat :: "nat \<Rightarrow> string" where
  "str_of_nat = digits_of"

definition str_of_int :: "int \<Rightarrow> string" where
  "str_of_int i = (if i < 0 then ''-'' @ digits_of (nat (- i)) else digits_of (nat i))"

text \<open>\<open>f"{n:03d}"\<close> and its kin: the numeral, zero-padded to a width.\<close>

definition zpad :: "nat \<Rightarrow> nat \<Rightarrow> string" where
  "zpad w n = replicate (w - length (digits_of n)) (CHR ''0'') @ digits_of n"

definition digit_val :: "char \<Rightarrow> nat" where
  "digit_val c = code c - 48"

definition nat_of_digits :: "string \<Rightarrow> nat" where
  "nat_of_digits s = foldl (\<lambda>a c. 10 * a + digit_val c) 0 s"

lemma code_digit_char: "d < 10 \<Longrightarrow> code (digit_char d) = 48 + d"
  by (simp add: code_def digit_char_def)

lemma digit_val_digit_char [simp]: "d < 10 \<Longrightarrow> digit_val (digit_char d) = d"
  by (simp add: digit_val_def code_digit_char)

lemma ascii_digit_digit_char [simp]: "d < 10 \<Longrightarrow> ascii_digit (digit_char d)"
  by (simp add: ascii_digit_def code_digit_char)

lemma digits_of_not_Nil [simp]: "digits_of n \<noteq> []"
  by (subst digits_of.simps) simp

lemma digits_of_ascii [framing]: "c \<in> set (digits_of n) \<Longrightarrow> ascii_digit c"
proof (induction n arbitrary: c rule: digits_of.induct)
  case (1 n)
  show ?case
  proof (cases "n < 10")
    case True
    with "1.prems" show ?thesis by (simp add: digits_of.simps [of n])
  next
    case False
    with "1.prems" have "c \<in> set (digits_of (n div 10)) \<or> c = digit_char (n mod 10)"
      by (auto simp: digits_of.simps [of n])
    with "1.IH" False show ?thesis by auto
  qed
qed

lemma nat_of_digits_append1: "nat_of_digits (s @ [c]) = 10 * nat_of_digits s + digit_val c"
  by (simp add: nat_of_digits_def)

lemma nat_of_digits_of [simp]: "nat_of_digits (digits_of n) = n"
proof (induction n rule: digits_of.induct)
  case (1 n)
  show ?case
  proof (cases "n < 10")
    case True
    then show ?thesis by (simp add: digits_of.simps [of n] nat_of_digits_def)
  next
    case False
    with "1.IH" show ?thesis
      by (simp add: digits_of.simps [of n] nat_of_digits_append1)
  qed
qed

lemma digits_of_inject [simp]: "digits_of m = digits_of n \<longleftrightarrow> m = n"
  by (metis nat_of_digits_of)

lemma nat_of_digits_zeros: "nat_of_digits (replicate k (CHR ''0'') @ s) = nat_of_digits s"
proof -
  have "digit_val (CHR ''0'') = 0" by (simp add: digit_val_def code_def)
  then have "foldl (\<lambda>a c. 10 * a + digit_val c) 0 (replicate k (CHR ''0'')) = 0"
    by (induction k) auto
  then show ?thesis by (simp add: nat_of_digits_def)
qed

lemma nat_of_digits_zpad [simp]: "nat_of_digits (zpad w n) = n"
  by (simp add: zpad_def nat_of_digits_zeros)

lemma zpad_inject [simp]: "zpad w m = zpad w n \<longleftrightarrow> m = n"
  by (metis nat_of_digits_zpad)

lemma zpad_ascii [framing]: "c \<in> set (zpad w n) \<Longrightarrow> ascii_digit c"
  by (auto simp: zpad_def ascii_digit_def code_def dest: digits_of_ascii)

lemma length_zpad: "w \<le> length (zpad w n)"
  by (simp add: zpad_def)

lemma str_of_int_inject [simp]: "str_of_int i = str_of_int j \<longleftrightarrow> i = j"
proof -
  have minus: "digits_of m \<noteq> CHR ''-'' # s" for m s
    using digits_of_ascii [of "CHR ''-''" m] by (auto simp: ascii_digit_def code_def)
  show ?thesis
    using minus [of "nat i"] minus [of "nat j"]
    by (auto simp: str_of_int_def) (metis minus)+
qed

lemma str_of_int_chars [framing]:
  "c \<in> set (str_of_int i) \<Longrightarrow> ascii_digit c \<or> c = CHR ''-''"
  by (auto simp: str_of_int_def dest: digits_of_ascii split: if_splits)

section \<open>Lists\<close>

lemma filter_distinct_keys:
  "distinct (map f xs) \<Longrightarrow> distinct (map f (filter P xs))"
  by (simp add: distinct_map_filter)

lemma distinct_map_snoc:
  "distinct (map f xs) \<Longrightarrow> f x \<notin> f ` set xs \<Longrightarrow> distinct (map f (xs @ [x]))"
  by simp

end
