(* ===== verification/Float64.thy ===== *)
theory Float64
  imports Prelude "HOL-Library.Log_Nat"
begin

text \<open>
  Python's floats. A float value is the rational it denotes; an operation is the exact one
  followed by \<open>fl64\<close>, round-to-nearest-even to 53 significant bits with binary64's least
  exponent. Infinities, NaN and the sign of zero are not represented, and no value here comes
  near the largest finite double. The lemmas bound what one rounding changes.
\<close>

definition rne :: "rat \<Rightarrow> int" where
  "rne q = (let f = floor q; d = q - of_int f in
     if d < 1/2 then f else if d > 1/2 then f + 1 else if even f then f else f + 1)"

definition ilog2 :: "rat \<Rightarrow> int" where
  "ilog2 x = (let (p, q) = quotient_of \<bar>x\<bar>; e = bitlen p - bitlen q
     in if (2::rat) powi e \<le> \<bar>x\<bar> then e else e - 1)"

definition fl64 :: "rat \<Rightarrow> rat" where
  "fl64 x = (if x = 0 then 0
     else let e = max (ilog2 x - 52) (- 1074) in of_int (rne (x / 2 powi e)) * 2 powi e)"

definition fadd :: "rat \<Rightarrow> rat \<Rightarrow> rat" where "fadd x y = fl64 (x + y)"
definition fsub :: "rat \<Rightarrow> rat \<Rightarrow> rat" where "fsub x y = fl64 (x - y)"
definition fmul :: "rat \<Rightarrow> rat \<Rightarrow> rat" where "fmul x y = fl64 (x * y)"
definition fdiv :: "rat \<Rightarrow> rat \<Rightarrow> rat" where "fdiv x y = fl64 (x / y)"

lemma rne_error: "\<bar>of_int (rne q) - q\<bar> \<le> 1/2"
proof -
  have "of_int \<lfloor>q\<rfloor> \<le> q" and "q < of_int \<lfloor>q\<rfloor> + 1" by (simp_all, linarith)
  then show ?thesis
    by (auto simp: rne_def Let_def abs_le_iff)
qed

lemma rne_of_int [simp]: "rne (of_int n) = n"
  by (simp add: rne_def)

lemma ilog2_bounds:
  assumes "x \<noteq> 0"
  shows "2 powi (ilog2 x) \<le> \<bar>x\<bar>" and "\<bar>x\<bar> < 2 powi (ilog2 x + 1)"
proof -
  obtain p q where pq: "quotient_of \<bar>x\<bar> = (p, q)" by fastforce
  then have q: "0 < q" and x: "\<bar>x\<bar> = of_int p / of_int q"
    by (simp_all add: quotient_of_denom_pos quotient_of_div)
  have "0 < \<bar>x\<bar>" using assms by simp
  with q x have p: "0 < p" by (simp add: zero_less_divide_iff)
  let ?e = "bitlen p - bitlen q"
  have bl: "2 powi (bitlen n - 1) \<le> (of_int n :: rat) \<and> (of_int n :: rat) < 2 powi (bitlen n)"
    if "0 < n" for n
  proof -
    have "2 ^ nat (bitlen n - 1) \<le> n \<and> n < 2 ^ nat (bitlen n)" using bitlen_bounds [OF that] .
    moreover have "0 \<le> bitlen n - 1" using that bitlen_eq_zero_iff [of n] bitlen_nonneg [of n] by linarith
    ultimately show ?thesis
      by (simp add: power_int_def)
  qed
  have hi: "\<bar>x\<bar> < 2 powi (?e + 1)"
  proof -
    have "\<bar>x\<bar> < 2 powi (bitlen p) / of_int q"
      unfolding x using bl [OF p] q by (simp add: divide_strict_right_mono)
    also have "\<dots> \<le> 2 powi (bitlen p) / 2 powi (bitlen q - 1)"
      using bl [OF q] q by (intro divide_left_mono) auto
    also have "\<dots> = 2 powi (?e + 1)" by (simp add: power_int_diff power_int_add)
    finally show ?thesis .
  qed
  have lo: "2 powi (?e - 1) \<le> \<bar>x\<bar>"
  proof -
    have "(2::rat) powi (?e - 1) = 2 powi (bitlen p - 1) / 2 powi (bitlen q)"
      by (simp add: power_int_diff)
    also have "\<dots> \<le> 2 powi (bitlen p - 1) / of_int q"
      using bl [OF q] q by (intro divide_left_mono) auto
    also have "\<dots> \<le> \<bar>x\<bar>" unfolding x using bl [OF p] q by (simp add: divide_right_mono)
    finally show ?thesis .
  qed
  have e: "ilog2 x = (if (2::rat) powi ?e \<le> \<bar>x\<bar> then ?e else ?e - 1)"
    by (simp add: ilog2_def pq)
  show "2 powi (ilog2 x) \<le> \<bar>x\<bar>" using lo by (simp add: e)
  show "\<bar>x\<bar> < 2 powi (ilog2 x + 1)" using hi by (simp add: e)
qed

text \<open>One rounding moves a value by at most one part in \<open>2 ^ 53\<close>, above the subnormal range.\<close>

lemma fl64_error:
  assumes "x = 0 \<or> 2 powi (- 1022) \<le> \<bar>x\<bar>"
  shows "\<bar>fl64 x - x\<bar> \<le> \<bar>x\<bar> / 2 ^ 53"
proof (cases "x = 0")
  case False
  then have x: "2 powi (- 1022) \<le> \<bar>x\<bar>" using assms by simp
  let ?e = "ilog2 x - 52"
  have "(2::rat) powi (- 1022) < 2 powi (ilog2 x + 1)"
    using x ilog2_bounds(2) [OF False] by (rule le_less_trans)
  then have "- 1022 < ilog2 x + 1"
    using power_int_increasing [of "ilog2 x + 1" "- 1022" "2::rat"] by linarith
  then have "max ?e (- 1074) = ?e" by simp
  then have "fl64 x - x = (of_int (rne (x / 2 powi ?e)) - x / 2 powi ?e) * 2 powi ?e"
    using False by (simp add: fl64_def Let_def algebra_simps)
  then have "\<bar>fl64 x - x\<bar> = \<bar>of_int (rne (x / 2 powi ?e)) - x / 2 powi ?e\<bar> * 2 powi ?e"
    by (simp add: abs_mult)
  also have "\<dots> \<le> 1/2 * 2 powi ?e"
    by (rule mult_right_mono [OF rne_error]) simp
  also have "\<dots> = 2 powi (ilog2 x) / 2 ^ 53" by (simp add: power_int_diff)
  also have "\<dots> \<le> \<bar>x\<bar> / 2 ^ 53"
    using ilog2_bounds(1) [OF False] by (rule divide_right_mono) simp
  finally show ?thesis .
qed (simp add: fl64_def)

lemma rne_nonneg: "0 \<le> q \<Longrightarrow> 0 \<le> rne q"
  by (simp add: rne_def Let_def)

lemma fl64_nonneg: "0 \<le> x \<Longrightarrow> 0 \<le> fl64 x"
  by (simp add: fl64_def Let_def rne_nonneg)

text \<open>Integers up to \<open>2 ^ 53\<close> are floats.\<close>

lemma fl64_of_int:
  assumes "\<bar>i\<bar> < 2 ^ 53"
  shows "fl64 (of_int i) = of_int i"
proof (cases "i = 0")
  case False
  let ?x = "of_int i :: rat"
  have "2 powi (ilog2 ?x) \<le> \<bar>?x\<bar>" using False by (intro ilog2_bounds) simp
  also have "\<bar>?x\<bar> < 2 powi 53"
  proof -
    have "of_int \<bar>i\<bar> < (of_int (2 ^ 53) :: rat)" using assms by (simp only: of_int_less_iff)
    then show ?thesis by (simp add: power_int_def)
  qed
  finally have "ilog2 ?x < 53"
    using power_int_increasing [of 53 "ilog2 ?x" "2::rat"] by linarith
  define e where "e = max (ilog2 ?x - 52) (- 1074)"
  have e: "e \<le> 0" using \<open>ilog2 ?x < 53\<close> by (simp add: e_def)
  define n where "n = nat (- e)"
  have p: "(2::rat) powi e = 1 / 2 ^ n"
    using e by (cases "e = 0") (simp_all add: n_def power_int_def power_one_over)
  have "?x / 2 powi e = of_int (i * 2 ^ n)" by (simp add: p)
  then have "rne (?x / 2 powi e) = i * 2 ^ n" by (simp only: rne_of_int)
  then have "of_int (rne (?x / 2 powi e)) * 2 powi e = ?x" by (simp add: p)
  with False show ?thesis by (simp add: fl64_def Let_def e_def)
qed (simp add: fl64_def)

text \<open>An absolute form, for values known to be at most \<open>B\<close>, subnormals included.\<close>

lemma fl64_error_abs:
  assumes "\<bar>x\<bar> \<le> B" and "1 \<le> B"
  shows "\<bar>fl64 x - x\<bar> \<le> B / 2 ^ 53"
proof (cases "x = 0 \<or> 2 powi (- 1022) \<le> \<bar>x\<bar>")
  case True
  then have "\<bar>fl64 x - x\<bar> \<le> \<bar>x\<bar> / 2 ^ 53" by (rule fl64_error)
  also have "\<dots> \<le> B / 2 ^ 53" using assms(1) by (rule divide_right_mono) simp
  finally show ?thesis .
next
  case False
  then have ne: "x \<noteq> 0" and lt: "\<bar>x\<bar> < 2 powi (- 1022)" by auto
  let ?e = "max (ilog2 x - 52) (- 1074)"
  have "2 powi (ilog2 x) < (2::rat) powi (- 1022)"
    using ilog2_bounds(1) [OF ne] lt by (rule le_less_trans)
  then have "ilog2 x < - 1022"
    using power_int_increasing [of "- 1022" "ilog2 x" "2::rat"] by linarith
  then have e: "?e \<le> - 1074" by simp
  have "fl64 x - x = (of_int (rne (x / 2 powi ?e)) - x / 2 powi ?e) * 2 powi ?e"
    using ne by (simp add: fl64_def Let_def algebra_simps)
  then have "\<bar>fl64 x - x\<bar> = \<bar>of_int (rne (x / 2 powi ?e)) - x / 2 powi ?e\<bar> * 2 powi ?e"
    by (simp add: abs_mult)
  also have "\<dots> \<le> 1/2 * 2 powi ?e"
    by (rule mult_right_mono [OF rne_error]) simp
  also have "\<dots> \<le> 1/2 * 2 powi (- 52)"
    using e by (intro mult_left_mono power_int_increasing) auto
  also have "\<dots> = 1 / 2 ^ 53" by (simp add: power_int_def power_one_over)
  also have "\<dots> \<le> B / 2 ^ 53" using assms(2) by (rule divide_right_mono) simp
  finally show ?thesis .
qed

text \<open>\<open>sum\<close> of floats, left to right.\<close>

definition fsum :: "rat list \<Rightarrow> rat" where
  "fsum xs = foldl fadd 0 xs"

lemma foldl_fadd_error:
  assumes "\<bar>a\<bar> + sum_list (map abs xs) + of_nat (length xs) \<le> B" and "1 \<le> B" and "B \<le> 2 ^ 53"
  shows "\<bar>foldl fadd a xs - (a + sum_list xs)\<bar> \<le> of_nat (length xs) * (B / 2 ^ 53)"
  using assms(1)
proof (induction xs arbitrary: a)
  case (Cons x xs)
  have "0 \<le> sum_list (map abs xs)" by (induction xs) auto
  then have "\<bar>a + x\<bar> \<le> B"
    using Cons.prems abs_triangle_ineq [of a x] by simp
  then have err: "\<bar>fadd a x - (a + x)\<bar> \<le> B / 2 ^ 53"
    unfolding fadd_def using assms(2) by (rule fl64_error_abs)
  moreover have "B / 2 ^ 53 \<le> 1" using assms(3) by simp
  ultimately have "\<bar>fadd a x\<bar> \<le> \<bar>a\<bar> + \<bar>x\<bar> + 1" by linarith
  then have "\<bar>fadd a x\<bar> + sum_list (map abs xs) + of_nat (length xs) \<le> B"
    using Cons.prems by simp
  from Cons.IH [OF this] err
  have "\<bar>foldl fadd (fadd a x) xs - (a + (x + sum_list xs))\<bar>
      \<le> of_nat (length xs) * (B / 2 ^ 53) + B / 2 ^ 53"
    by linarith
  then show ?case by (simp add: distrib_right)
qed simp

lemma fsum_error:
  assumes "\<And>x. x \<in> set xs \<Longrightarrow> 0 \<le> x \<and> x \<le> 2" and "length xs \<le> 1000" and "xs \<noteq> []"
  shows "\<bar>fsum xs - sum_list xs\<bar> \<le> of_nat (length xs) * (3000 / 2 ^ 53)"
proof -
  have "sum_list (map abs xs) \<le> sum_list (map (\<lambda>_. 2 :: rat) xs)"
    using assms(1) by (intro sum_list_mono) auto
  also have "\<dots> = 2 * of_nat (length xs)" by (simp add: sum_list_triv)
  finally have "\<bar>0\<bar> + sum_list (map abs xs) + of_nat (length xs) \<le> (3000 :: rat)"
    using assms(2) by simp
  from foldl_fadd_error [OF this] show ?thesis by (simp add: fsum_def)
qed

text \<open>Rounding keeps the order.\<close>

lemma rne_mono: "x \<le> y \<Longrightarrow> rne x \<le> rne y"
proof -
  assume le: "x \<le> y"
  have f: "\<lfloor>x\<rfloor> \<le> \<lfloor>y\<rfloor>" using le by (rule floor_mono)
  have b: "rne z \<le> \<lfloor>z\<rfloor> + 1" "\<lfloor>z\<rfloor> \<le> rne z" for z by (simp_all add: rne_def Let_def)
  show ?thesis
  proof (cases "\<lfloor>x\<rfloor> = \<lfloor>y\<rfloor>")
    case True
    then show ?thesis using le by (simp add: rne_def Let_def)
  next
    case False
    then have "\<lfloor>x\<rfloor> + 1 \<le> \<lfloor>y\<rfloor>" using f by simp
    then show ?thesis using b(1) [of x] b(2) [of y] by linarith
  qed
qed

lemma fl64_mono:
  assumes "0 \<le> x" and "x \<le> y"
  shows "fl64 x \<le> fl64 y"
proof (cases "x = 0")
  case True
  have "fl64 0 = 0" by (simp add: fl64_def)
  then show ?thesis using True assms fl64_nonneg [of y] by simp
next
  case False
  then have pos: "0 < x" "0 < y" using assms by simp_all
  define ex where "ex = max (ilog2 x - 52) (- 1074)"
  define ey where "ey = max (ilog2 y - 52) (- 1074)"
  have fx: "fl64 x = of_int (rne (x / 2 powi ex)) * 2 powi ex" using pos by (simp add: fl64_def ex_def Let_def)
  have fy: "fl64 y = of_int (rne (y / 2 powi ey)) * 2 powi ey" using pos by (simp add: fl64_def ey_def Let_def)
  have "(2::rat) powi (ilog2 x) < 2 powi (ilog2 y + 1)"
    using ilog2_bounds(1) [of x] ilog2_bounds(2) [of y] pos assms(2) by simp
  then have "ilog2 x < ilog2 y + 1" using power_int_increasing [of "ilog2 y + 1" "ilog2 x" "2::rat"] by linarith
  then have e: "ex \<le> ey" by (simp add: ex_def ey_def)
  show ?thesis
  proof (cases "ex = ey")
    case True
    have "x / 2 powi ex \<le> y / 2 powi ex" using assms(2) by (simp add: divide_right_mono)
    then show ?thesis using rne_mono by (simp add: fx fy flip: True)
  next
    case False
    then have lt: "ex + 1 \<le> ey" and ey: "ey = ilog2 y - 52" using e by (simp_all add: ex_def ey_def)
    have "x < 2 powi (ilog2 x + 1)" using ilog2_bounds(2) [of x] pos by simp
    also have "\<dots> \<le> 2 powi (ex + 53)" by (rule power_int_increasing) (simp_all add: ex_def)
    also have "\<dots> = 2 powi ex * 2 ^ 53" by (simp add: power_int_add)
    finally have "x / 2 powi ex \<le> of_int (2 ^ 53)" by (simp add: field_simps)
    then have "rne (x / 2 powi ex) \<le> 2 ^ 53" using rne_mono rne_of_int by metis
    then have "of_int (rne (x / 2 powi ex)) \<le> (of_int (2 ^ 53) :: rat)" by (simp only: of_int_le_iff)
    then have "fl64 x \<le> 2 ^ 53 * 2 powi ex" unfolding fx by (intro mult_right_mono) simp_all
    also have "\<dots> = 2 ^ 52 * 2 powi (ex + 1)" by (simp add: power_int_add)
    also have "\<dots> \<le> 2 ^ 52 * 2 powi ey" by (intro mult_left_mono power_int_increasing lt) simp_all
    also have "\<dots> \<le> fl64 y"
    proof -
      have "2 powi (ilog2 y) \<le> y" using ilog2_bounds(1) [of y] pos by simp
      then have "of_int (2 ^ 52) \<le> y / 2 powi ey" by (simp add: ey power_int_diff field_simps)
      then have "2 ^ 52 \<le> rne (y / 2 powi ey)" using rne_mono rne_of_int by metis
      then have "(of_int (2 ^ 52) :: rat) \<le> of_int (rne (y / 2 powi ey))" by (simp only: of_int_le_iff)
      then show ?thesis unfolding fy by (intro mult_right_mono) simp_all
    qed
    finally show ?thesis .
  qed
qed

end
