(* ===== verification/Json.thy ===== *)
theory Json
  imports Prelude Float64 "HOL-Library.List_Lexorder" "HOL-Library.Char_ord"
begin

text \<open>
  JSON values as Python holds them, which are also the program's dicts and lists; \<open>json.dumps\<close>
  (\<open>canon.canonical_json\<close> among its uses) and \<open>json.loads\<close> as text functions. An object is its
  list of items in insertion order. The texts are ASCII (\<open>ensure_ascii\<close>), integers are
  unbounded, floats are printed as \<open>float.__repr__\<close> prints them. \<open>NaN\<close> and the infinities are
  refused by the parser, as \<open>parse_constant\<close> has the program's own parsers do; an escape above
  \<open>\u00ff\<close> is outside the model's characters and refused too.
\<close>

datatype json =
    JNull
  | JBool bool
  | JInt int
  | JFloat rat
  | JStr string
  | JArr "json list"
  | JObj "(string \<times> json) list"

type_synonym items = "(string \<times> json) list"

section \<open>Dicts\<close>

fun upd :: "string \<Rightarrow> 'a \<Rightarrow> (string \<times> 'a) list \<Rightarrow> (string \<times> 'a) list" where
  "upd k v [] = [(k, v)]"
| "upd k v ((k', v') # kvs) = (if k = k' then (k, v) # kvs else (k', v') # upd k v kvs)"

text \<open>\<open>d.get(k)\<close> (None when it is not there), \<open>k in d\<close>, \<open>d[k] = v\<close>; a value that is no dict has no keys.\<close>

fun jitems :: "json \<Rightarrow> items" where
  "jitems (JObj kvs) = kvs"
| "jitems _ = []"

definition jget :: "json \<Rightarrow> string \<Rightarrow> json" where
  "jget d k = (case map_of (jitems d) k of None \<Rightarrow> JNull | Some v \<Rightarrow> v)"

definition jhas :: "json \<Rightarrow> string \<Rightarrow> bool" where
  "jhas d k \<longleftrightarrow> k \<in> set (map fst (jitems d))"

definition jset :: "json \<Rightarrow> string \<Rightarrow> json \<Rightarrow> json" where
  "jset d k v = JObj (upd k v (jitems d))"

definition jdel :: "json \<Rightarrow> string \<Rightarrow> json" where
  "jdel d k = JObj (filter (\<lambda>kv. fst kv \<noteq> k) (jitems d))"

definition jupdate :: "json \<Rightarrow> items \<Rightarrow> json" where
  "jupdate d kvs = foldl (\<lambda>d kv. jset d (fst kv) (snd kv)) d kvs"

definition dict_of :: "(string \<times> 'a) list \<Rightarrow> (string \<times> 'a) list" where
  "dict_of kvs = foldl (\<lambda>d kv. upd (fst kv) (snd kv) d) [] kvs"

fun is_obj :: "json \<Rightarrow> bool" where
  "is_obj (JObj _) \<longleftrightarrow> True" | "is_obj _ \<longleftrightarrow> False"

fun is_str :: "json \<Rightarrow> bool" where
  "is_str (JStr _) \<longleftrightarrow> True" | "is_str _ \<longleftrightarrow> False"

fun is_bool :: "json \<Rightarrow> bool" where
  "is_bool (JBool _) \<longleftrightarrow> True" | "is_bool _ \<longleftrightarrow> False"

fun is_list :: "json \<Rightarrow> bool" where
  "is_list (JArr _) \<longleftrightarrow> True" | "is_list _ \<longleftrightarrow> False"

text \<open>\<open>isinstance(v, int)\<close>: a bool is an int.\<close>

fun is_int :: "json \<Rightarrow> bool" where
  "is_int (JInt _) \<longleftrightarrow> True" | "is_int (JBool _) \<longleftrightarrow> True" | "is_int _ \<longleftrightarrow> False"

fun truthy :: "json \<Rightarrow> bool" where
  "truthy JNull \<longleftrightarrow> False"
| "truthy (JBool b) \<longleftrightarrow> b"
| "truthy (JInt i) \<longleftrightarrow> i \<noteq> 0"
| "truthy (JFloat q) \<longleftrightarrow> q \<noteq> 0"
| "truthy (JStr s) \<longleftrightarrow> s \<noteq> []"
| "truthy (JArr xs) \<longleftrightarrow> xs \<noteq> []"
| "truthy (JObj kvs) \<longleftrightarrow> kvs \<noteq> []"

text \<open>\<open>d.get(k, default)\<close>.\<close>

definition jget_or :: "json \<Rightarrow> string \<Rightarrow> json \<Rightarrow> json" where
  "jget_or d k v = (if jhas d k then jget d k else v)"

fun all_some :: "'a option list \<Rightarrow> 'a list option" where
  "all_some [] = Some []"
| "all_some (None # xs) = None"
| "all_some (Some x # xs) = map_option (\<lambda>ys. x # ys) (all_some xs)"

lemma all_some_map: "(\<And>x. x \<in> set xs \<Longrightarrow> f x = Some (g x)) \<Longrightarrow> all_some (map f xs) = Some (map g xs)"
  by (induction xs) auto

text \<open>\<open>d[k]\<close>: \<open>None\<close> is a \<open>KeyError\<close>.\<close>

definition key_of :: "json \<Rightarrow> string \<Rightarrow> json option" where
  "key_of d k = map_of (jitems d) k"

text \<open>A value of one type, or nothing.\<close>

fun as_str :: "json \<Rightarrow> string option" where
  "as_str (JStr s) = Some s" | "as_str _ = None"

fun as_int :: "json \<Rightarrow> int option" where
  "as_int (JInt i) = Some i" | "as_int (JBool b) = Some (if b then 1 else 0)" | "as_int _ = None"

fun as_opt_str :: "json \<Rightarrow> string option option" where
  "as_opt_str JNull = Some None" | "as_opt_str (JStr s) = Some (Some s)" | "as_opt_str _ = None"

fun as_list :: "json \<Rightarrow> json list option" where
  "as_list (JArr xs) = Some xs" | "as_list _ = None"

definition opt_json :: "('a \<Rightarrow> json) \<Rightarrow> 'a option \<Rightarrow> json" where
  "opt_json f x = (case x of None \<Rightarrow> JNull | Some v \<Rightarrow> f v)"

lemma opt_json_simps [simp]: "opt_json f None = JNull" "opt_json f (Some v) = f v"
  by (simp_all add: opt_json_def)

lemma as_opt_str_opt [simp]: "as_opt_str (opt_json JStr x) = Some x"
  by (cases x) simp_all

lemma map_of_upd [simp]: "map_of (upd k v kvs) k' = (if k' = k then Some v else map_of kvs k')"
  by (induction kvs) auto

lemma map_fst_upd: "k \<in> set (map fst kvs) \<Longrightarrow> map fst (upd k v kvs) = map fst kvs"
  by (induction kvs rule: upd.induct) auto

lemma upd_new: "k \<notin> set (map fst kvs) \<Longrightarrow> upd k v kvs = kvs @ [(k, v)]"
  by (induction kvs rule: upd.induct) auto

lemma keys_upd: "set (map fst (upd k v kvs)) = insert k (set (map fst kvs))"
proof (cases "k \<in> set (map fst kvs)")
  case True
  then show ?thesis by (simp only: map_fst_upd insert_absorb)
next
  case False
  then show ?thesis by (auto simp: upd_new)
qed

lemma distinct_upd: "distinct (map fst kvs) \<Longrightarrow> distinct (map fst (upd k v kvs))"
proof (cases "k \<in> set (map fst kvs)")
  case False
  assume "distinct (map fst kvs)"
  with False show ?thesis by (simp add: upd_new)
qed (simp only: map_fst_upd)

lemma jget_jset [simp]: "jget (jset d k v) k' = (if k' = k then v else jget d k')"
  by (simp add: jget_def jset_def)

lemma jhas_jset [simp]: "jhas (jset d k v) k' \<longleftrightarrow> k' = k \<or> jhas d k'"
  by (simp only: jhas_def jset_def jitems.simps keys_upd insert_iff)

lemma map_of_filter_key: "map_of (filter (\<lambda>kv. fst kv \<noteq> k) kvs) k' = (if k' = k then None else map_of kvs k')"
  by (induction kvs) auto

lemma jget_jdel [simp]: "jget (jdel d k) k' = (if k' = k then JNull else jget d k')"
  by (simp add: jget_def jdel_def map_of_filter_key)

lemma jget_JObj: "jget (JObj kvs) k = (case map_of kvs k of None \<Rightarrow> JNull | Some v \<Rightarrow> v)"
  by (simp add: jget_def)

lemma jhas_JObj: "jhas (JObj kvs) k \<longleftrightarrow> k \<in> set (map fst kvs)"
  by (simp add: jhas_def)

lemma jget_notin: "\<not> jhas d k \<Longrightarrow> jget d k = JNull"
  by (force simp: jget_def jhas_def split: option.splits dest: map_of_SomeD)

lemma dict_of_snoc: "dict_of (kvs @ [(k, v)]) = upd k v (dict_of kvs)"
  by (simp add: dict_of_def)

lemma dict_of_distinct: "distinct (map fst kvs) \<Longrightarrow> dict_of kvs = kvs"
proof (induction kvs rule: rev_induct)
  case (snoc kv kvs)
  then show ?case by (cases kv) (force simp: dict_of_snoc upd_new)
qed (simp add: dict_of_def)

section \<open>Writing\<close>

definition esc_char :: "char \<Rightarrow> string" where
  "esc_char c =
     (if c = CHR 0x22 then [CHR 0x5C, CHR 0x22]
      else if c = CHR 0x5C then [CHR 0x5C, CHR 0x5C]
      else if c = NL then [CHR 0x5C, CHR ''n'']
      else if c = CHR 0x0D then [CHR 0x5C, CHR ''r'']
      else if c = TAB then [CHR 0x5C, CHR ''t'']
      else if c = CHR 0x0C then [CHR 0x5C, CHR ''f'']
      else if c = CHR 0x08 then [CHR 0x5C, CHR ''b'']
      else if 32 \<le> code c \<and> code c \<le> 126 then [c]
      else [CHR 0x5C, CHR ''u'', CHR ''0'', CHR ''0'', hex_digit (code c div 16), hex_digit (code c mod 16)])"

definition quote :: "string \<Rightarrow> string" where
  "quote s = CHR 0x22 # concat (map esc_char s) @ [CHR 0x22]"

text \<open>\<open>float.__repr__\<close>: the shortest decimal that reads back as the same float.\<close>

definition ilog10 :: "rat \<Rightarrow> int" where
  "ilog10 x = (let k = (ilog2 x * 1233) div 4096
     in if (10::rat) powi (k + 1) \<le> \<bar>x\<bar> then k + 1 else if \<bar>x\<bar> < 10 powi k then k - 1 else k)"

definition dec_round :: "rat \<Rightarrow> nat \<Rightarrow> int \<times> int" where
  "dec_round x n = (let k = ilog10 x; d = rne (\<bar>x\<bar> / 10 powi (k - int n + 1))
     in if d = 10 ^ n then (10 ^ (n - 1), k + 1) else (d, k))"

fun shortest_from :: "nat \<Rightarrow> nat \<Rightarrow> rat \<Rightarrow> int \<times> int" where
  "shortest_from 0 n x = dec_round x n"
| "shortest_from (Suc m) n x =
     (let (d, k) = dec_round x n
      in if fl64 (of_int d * 10 powi (k - int n + 1)) = \<bar>x\<bar> then (d, k) else shortest_from m (Suc n) x)"

definition float_repr :: "rat \<Rightarrow> string" where
  "float_repr x = (if x = 0 then ''0.0'' else
     let (d, k) = shortest_from 16 1 x; ds = digits_of (nat d); p = k + 1; n = int (length ds);
         body =
           (if - 4 < p \<and> p \<le> 16 then
              (if p \<le> 0 then ''0.'' @ replicate (nat (- p)) (CHR ''0'') @ ds
               else if n \<le> p then ds @ replicate (nat (p - n)) (CHR ''0'') @ ''.0''
               else take (nat p) ds @ ''.'' @ drop (nat p) ds)
            else take 1 ds @ (if n > 1 then ''.'' @ drop 1 ds else []) @ ''e''
                 @ (if k < 0 then ''-'' else ''+'') @ zpad 2 (nat \<bar>k\<bar>))
     in (if x < 0 then ''-'' else []) @ body)"

definition in_order :: "bool \<Rightarrow> (string \<times> 'a) list \<Rightarrow> (string \<times> 'a) list" where
  "in_order srt ps = (if srt then sort_key fst ps else ps)"

text \<open>\<open>json.dumps(obj, separators=(isep, ksep), sort_keys=srt)\<close>.\<close>

fun dumps :: "string \<Rightarrow> string \<Rightarrow> bool \<Rightarrow> json \<Rightarrow> string" where
  "dumps isep ksep srt JNull = ''null''"
| "dumps isep ksep srt (JBool b) = (if b then ''true'' else ''false'')"
| "dumps isep ksep srt (JInt i) = str_of_int i"
| "dumps isep ksep srt (JFloat q) = float_repr q"
| "dumps isep ksep srt (JStr s) = quote s"
| "dumps isep ksep srt (JArr xs) = CHR ''['' # join isep (map (dumps isep ksep srt) xs) @ '']''"
| "dumps isep ksep srt (JObj kvs) =
     CHR ''{'' # join isep (map (\<lambda>kt. quote (fst kt) @ ksep @ snd kt)
       (in_order srt (map (\<lambda>kv. (fst kv, dumps isep ksep srt (snd kv))) kvs))) @ ''}''"

definition canonical_json :: "json \<Rightarrow> string" where
  "canonical_json j = dumps '','' '':'' True j"

text \<open>\<open>json.dumps(obj, sort_keys=True)\<close>, as the run directory's line files are written.\<close>

definition line_json :: "json \<Rightarrow> string" where
  "line_json j = dumps '', '' '': '' True j"

section \<open>Reading\<close>

definition is_ws :: "char \<Rightarrow> bool" where
  "is_ws c \<longleftrightarrow> c = CHR '' '' \<or> c = TAB \<or> c = NL \<or> c = CHR 0x0D"

definition skip_ws :: "string \<Rightarrow> string" where
  "skip_ws s = dropWhile is_ws s"

definition is_hex :: "char \<Rightarrow> bool" where
  "is_hex c \<longleftrightarrow> hex_lower c \<or> (65 \<le> code c \<and> code c \<le> 70)"

definition hexd :: "char \<Rightarrow> nat" where
  "hexd c = (if ascii_digit c then code c - 48 else if 97 \<le> code c then code c - 87 else code c - 55)"

definition unescape :: "char \<Rightarrow> char option" where
  "unescape e =
     (if e = CHR 0x22 \<or> e = CHR 0x5C \<or> e = CHR ''/'' then Some e
      else if e = CHR ''n'' then Some NL
      else if e = CHR ''r'' then Some (CHR 0x0D)
      else if e = CHR ''t'' then Some TAB
      else if e = CHR ''f'' then Some (CHR 0x0C)
      else if e = CHR ''b'' then Some (CHR 0x08)
      else None)"

text \<open>A string after its opening quote: its characters and what follows the closing quote.\<close>

fun pstr :: "string \<Rightarrow> (string \<times> string) option" where
  "pstr [] = None"
| "pstr (c # s) =
     (if c = CHR 0x22 then Some ([], s)
      else if c = CHR 0x5C then
        (case s of
           [] \<Rightarrow> None
         | e # s' \<Rightarrow>
             if e = CHR ''u'' then
               (case s' of
                  a # b # h # l # r \<Rightarrow>
                    if a = CHR ''0'' \<and> b = CHR ''0'' \<and> is_hex h \<and> is_hex l
                    then map_option (\<lambda>(t, q). (char_of (16 * hexd h + hexd l) # t, q)) (pstr r)
                    else None
                | _ \<Rightarrow> None)
             else (case unescape e of
                 None \<Rightarrow> None
               | Some x \<Rightarrow> map_option (\<lambda>(t, q). (x # t, q)) (pstr s')))
      else if code c < 32 then None
      else map_option (\<lambda>(t, q). (c # t, q)) (pstr s))"

definition num_char :: "char \<Rightarrow> bool" where
  "num_char c \<longleftrightarrow> ascii_digit c \<or> c = CHR ''-'' \<or> c = CHR ''+'' \<or> c = CHR ''.''
     \<or> c = CHR ''e'' \<or> c = CHR ''E''"

text \<open>A number's token, by the grammar of JSON: an int without fraction and exponent, else a float.\<close>

definition exp_value :: "string \<Rightarrow> int option" where
  "exp_value s =
     (let neg = startswith s ''-''; d = (if neg \<or> startswith s ''+'' then drop 1 s else s)
      in if d \<noteq> [] \<and> list_all ascii_digit d
         then Some (if neg then - int (nat_of_digits d) else int (nat_of_digits d)) else None)"

definition num_value :: "string \<Rightarrow> json option" where
  "num_value t =
     (let neg = startswith t ''-''; u = (if neg then drop 1 t else t);
          ip = takeWhile ascii_digit u; r = dropWhile ascii_digit u;
          sgnd = (\<lambda>x. if neg then - x else x)
      in if ip = [] \<or> (hd ip = CHR ''0'' \<and> length ip \<noteq> 1) then None
         else if r = [] then Some (JInt (if neg then - int (nat_of_digits ip) else int (nat_of_digits ip)))
         else
           (let dot = startswith r ''.''; f = drop 1 r;
                fp = (if dot then takeWhile ascii_digit f else []);
                q = (if dot then dropWhile ascii_digit f else r)
            in if dot \<and> fp = [] then None
               else if q = [] then Some (JFloat (sgnd (fl64 (of_nat (nat_of_digits (ip @ fp)) * 10 powi (- int (length fp))))))
               else if hd q = CHR ''e'' \<or> hd q = CHR ''E'' then
                 map_option (\<lambda>x. JFloat (sgnd (fl64 (of_nat (nat_of_digits (ip @ fp)) * 10 powi (x - int (length fp))))))
                   (exp_value (drop 1 q))
               else None))"

definition pnum :: "string \<Rightarrow> (json \<times> string) option" where
  "pnum s = map_option (\<lambda>v. (v, dropWhile num_char s)) (num_value (takeWhile num_char s))"

fun pval :: "nat \<Rightarrow> string \<Rightarrow> (json \<times> string) option"
and pelems :: "nat \<Rightarrow> string \<Rightarrow> (json list \<times> string) option"
and pmembers :: "nat \<Rightarrow> string \<Rightarrow> (items \<times> string) option" where
  "pval 0 s = None"
| "pval (Suc f) s =
     (if startswith s [CHR 0x22] then map_option (\<lambda>(t, q). (JStr t, q)) (pstr (drop 1 s))
      else if startswith s ''{'' then
        (let r = skip_ws (drop 1 s) in
         if startswith r ''}'' then Some (JObj [], drop 1 r)
         else map_option (\<lambda>(kvs, q). (JObj (dict_of kvs), q)) (pmembers f r))
      else if startswith s ''['' then
        (let r = skip_ws (drop 1 s) in
         if startswith r '']'' then Some (JArr [], drop 1 r)
         else map_option (\<lambda>(xs, q). (JArr xs, q)) (pelems f r))
      else if startswith s ''null'' then Some (JNull, drop 4 s)
      else if startswith s ''true'' then Some (JBool True, drop 4 s)
      else if startswith s ''false'' then Some (JBool False, drop 5 s)
      else pnum s)"
| "pelems 0 s = None"
| "pelems (Suc f) s =
     (case pval f s of
        None \<Rightarrow> None
      | Some (v, q) \<Rightarrow>
          (let r = skip_ws q in
           if startswith r '','' then map_option (\<lambda>(xs, t). (v # xs, t)) (pelems f (skip_ws (drop 1 r)))
           else if startswith r '']'' then Some ([v], drop 1 r)
           else None))"
| "pmembers 0 s = None"
| "pmembers (Suc f) s =
     (if \<not> startswith s [CHR 0x22] then None
      else case pstr (drop 1 s) of
        None \<Rightarrow> None
      | Some (k, q) \<Rightarrow>
          (let c = skip_ws q in
           if \<not> startswith c '':'' then None
           else case pval f (skip_ws (drop 1 c)) of
             None \<Rightarrow> None
           | Some (v, t) \<Rightarrow>
               (let r = skip_ws t in
                if startswith r '','' then map_option (\<lambda>(kvs, u). ((k, v) # kvs, u)) (pmembers f (skip_ws (drop 1 r)))
                else if startswith r ''}'' then Some ([(k, v)], drop 1 r)
                else None)))"

text \<open>\<open>json.loads\<close>; every nested value takes at least one character, so the text bounds the depth.\<close>

definition loads :: "string \<Rightarrow> json option" where
  "loads s = (case pval (Suc (length s)) (skip_ws s) of
     None \<Rightarrow> None
   | Some (v, r) \<Rightarrow> if skip_ws r = [] then Some v else None)"

end
