(* ===== verification/Score.thy ===== *)
theory Score
  imports Json Float64
begin

text \<open>
  \<open>duel/score.py\<close>: the scores of a duel and the crown rule, over published unit rows. A rate,
  an average, a margin are floats, each operation rounded; the exact rational values they stand
  for are \<open>exact_rate\<close> and \<open>exact_average\<close>, stated without loops or rounding.
\<close>

section \<open>The code's functions\<close>

definition SCORE_EPSILON :: rat where
  "SCORE_EPSILON = fl64 (1 / 10 ^ 9)"

definition paired_outcome :: "json \<Rightarrow> json \<Rightarrow> string" where
  "paired_outcome king_success challenger_success =
     (if \<not> is_bool king_success \<or> \<not> is_bool challenger_success then ''tie''
      else if king_success = challenger_success then ''tie''
      else if truthy challenger_success then ''challenger'' else ''king'')"

definition side_success :: "json \<Rightarrow> string \<Rightarrow> json" where
  "side_success unit side =
     (let value = jget unit (side @ ''_success'') in if is_bool value then value else JNull)"

definition rate_step :: "string \<Rightarrow> string \<Rightarrow> nat \<times> nat \<Rightarrow> json \<Rightarrow> nat \<times> nat" where
  "rate_step side skill acc u =
     (case acc of (scored, successes) \<Rightarrow>
        if jget u ''skill'' \<noteq> JStr skill \<or> truthy (jget u ''void'') then (scored, successes)
        else (let s = side_success u side in
          if s = JNull then (scored, successes)
          else (scored + 1, successes + (if truthy s then 1 else 0))))"

definition skill_rate :: "json list \<Rightarrow> string \<Rightarrow> string \<Rightarrow> rat option" where
  "skill_rate units side skill =
     (let (scored, successes) = foldl (rate_step side skill) (0, 0) units
      in if scored \<noteq> 0 then Some (fdiv (of_nat successes) (of_nat scored)) else None)"

type_synonym scores = "(string \<times> rat option) list"

definition score_of :: "scores \<Rightarrow> string \<Rightarrow> rat option" where
  "score_of per s = (case map_of per s of None \<Rightarrow> None | Some v \<Rightarrow> v)"

definition average :: "scores \<Rightarrow> string list \<Rightarrow> rat option" where
  "average per_skill skills =
     (let present = List.map_filter (score_of per_skill) skills
      in if present \<noteq> [] then Some (fdiv (fsum present) (of_nat (length present))) else None)"

definition per_skill :: "json list \<Rightarrow> string \<Rightarrow> string list \<Rightarrow> scores" where
  "per_skill units side skills = foldl (\<lambda>d s. upd s (skill_rate units side s) d) [] skills"

definition skill_scores :: "json list \<Rightarrow> string \<Rightarrow> string list \<Rightarrow> scores" where
  "skill_scores units side skills =
     (let per = per_skill units side skills in upd ''average'' (average per skills) per)"

definition crown_moves :: "rat option \<Rightarrow> rat option \<Rightarrow> rat \<Rightarrow> bool" where
  "crown_moves king_average challenger_average margin_points =
     (case (king_average, challenger_average) of
        (Some k, Some c) \<Rightarrow> fsub (fadd k (fdiv margin_points 100)) SCORE_EPSILON \<le> c
      | _ \<Rightarrow> False)"

definition void_fraction :: "json list \<Rightarrow> rat" where
  "void_fraction units =
     (if units \<noteq> []
      then fdiv (of_nat (length (filter (\<lambda>u. truthy (jget u ''void'')) units))) (of_nat (length units))
      else 0)"

definition too_void :: "json list \<Rightarrow> rat \<Rightarrow> bool" where
  "too_void units max_void_fraction \<longleftrightarrow> max_void_fraction < void_fraction units"

record tally =
  t_units :: nat
  t_wins :: nat
  t_losses :: nat
  t_ties :: nat
  t_decided :: nat
  t_void :: nat

definition tally_as_dict :: "tally \<Rightarrow> json" where
  "tally_as_dict t = JObj [(''wins'', JInt (int (t_wins t))), (''losses'', JInt (int (t_losses t))),
     (''ties'', JInt (int (t_ties t))), (''decided'', JInt (int (t_decided t))),
     (''void'', JInt (int (t_void t)))]"

definition tally_step :: "tally \<Rightarrow> json \<Rightarrow> tally" where
  "tally_step t u =
     (let t = t\<lparr>t_units := t_units t + 1\<rparr> in
      if truthy (jget u ''void'') then t\<lparr>t_void := t_void t + 1\<rparr>
      else (let outcome = paired_outcome (side_success u ''king'') (side_success u ''challenger'') in
        if outcome = ''challenger'' then t\<lparr>t_wins := t_wins t + 1\<rparr>
        else if outcome = ''king'' then t\<lparr>t_losses := t_losses t + 1\<rparr>
        else t\<lparr>t_ties := t_ties t + 1\<rparr>))"

definition tally_of :: "json list \<Rightarrow> tally" where
  "tally_of units =
     (let t = foldl tally_step \<lparr>t_units = 0, t_wins = 0, t_losses = 0, t_ties = 0, t_decided = 0, t_void = 0\<rparr> units
      in t\<lparr>t_decided := t_wins t + t_losses t\<rparr>)"

record verdict =
  king_scores :: scores
  challenger_scores :: scores
  score_margin :: rat
  dethroned :: bool
  reason :: string
  v_void_fraction :: rat
  v_tally :: tally

definition delta_points :: "verdict \<Rightarrow> rat option" where
  "delta_points v =
     (case (score_of (king_scores v) ''average'', score_of (challenger_scores v) ''average'') of
        (Some k, Some c) \<Rightarrow> Some (fmul (fsub c k) 100)
      | _ \<Rightarrow> None)"

definition opt_float :: "rat option \<Rightarrow> json" where
  "opt_float x = (case x of None \<Rightarrow> JNull | Some q \<Rightarrow> JFloat q)"

definition verdict_as_dict :: "verdict \<Rightarrow> json" where
  "verdict_as_dict v = JObj [(''reason'', JStr (reason v)), (''score_margin'', JFloat (score_margin v)),
     (''delta_points'', opt_float (delta_points v)), (''void_fraction'', JFloat (v_void_fraction v))]"

definition verdict_of :: "json list \<Rightarrow> rat \<Rightarrow> string list \<Rightarrow> verdict" where
  "verdict_of units margin skills =
     (let king = skill_scores units ''king'' skills;
          challenger = skill_scores units ''challenger'' skills;
          moves = crown_moves (score_of king ''average'') (score_of challenger ''average'') margin;
          why = (if units = [] then ''no-units''
                 else if score_of king ''average'' = None \<or> score_of challenger ''average'' = None then ''unscored''
                 else if moves then ''margin-met'' else ''short-of-margin'')
      in \<lparr>king_scores = king, challenger_scores = challenger, score_margin = margin, dethroned = moves,
          reason = why, v_void_fraction = void_fraction units, v_tally = tally_of units\<rparr>)"

section \<open>The exact values\<close>

definition scored_rows :: "json list \<Rightarrow> string \<Rightarrow> string \<Rightarrow> json list" where
  "scored_rows units side skill = filter (\<lambda>u. jget u ''skill'' = JStr skill
     \<and> \<not> truthy (jget u ''void'') \<and> is_bool (jget u (side @ ''_success''))) units"

definition won_rows :: "json list \<Rightarrow> string \<Rightarrow> string \<Rightarrow> json list" where
  "won_rows units side skill =
     filter (\<lambda>u. jget u (side @ ''_success'') = JBool True) (scored_rows units side skill)"

definition exact_rate :: "json list \<Rightarrow> string \<Rightarrow> string \<Rightarrow> rat option" where
  "exact_rate units side skill =
     (if scored_rows units side skill = [] then None
      else Some (of_nat (length (won_rows units side skill)) / of_nat (length (scored_rows units side skill))))"

definition exact_average :: "json list \<Rightarrow> string \<Rightarrow> string list \<Rightarrow> rat option" where
  "exact_average units side skills =
     (let rates = List.map_filter (exact_rate units side) skills
      in if rates = [] then None else Some (sum_list rates / of_nat (length rates)))"

section \<open>The loops compute the counts\<close>

lemma bool_json: "is_bool v \<longleftrightarrow> v = JBool True \<or> v = JBool False"
  by (cases v) auto

lemma fold_rate:
  "foldl (rate_step side skill) (n, m) us
   = (n + length (scored_rows us side skill), m + length (won_rows us side skill))"
proof (induction us arbitrary: n m)
  case (Cons u us)
  then show ?case
    by (auto simp: rate_step_def scored_rows_def won_rows_def side_success_def Let_def bool_json)
qed (simp add: scored_rows_def won_rows_def)

lemma skill_rate_exact: "skill_rate us side skill = map_option fl64 (exact_rate us side skill)"
  by (simp add: skill_rate_def exact_rate_def fold_rate fdiv_def)

lemma won_le_scored: "length (won_rows us side skill) \<le> length (scored_rows us side skill)"
  by (simp add: won_rows_def)

lemma exact_rate_bounds: "exact_rate us side skill = Some r \<Longrightarrow> 0 \<le> r \<and> r \<le> 1"
  using won_le_scored [of us side skill] by (auto simp: exact_rate_def divide_le_eq_1 split: if_splits)

lemma skill_rate_error:
  assumes "exact_rate us side skill = Some r"
  shows "\<exists>q. skill_rate us side skill = Some q \<and> \<bar>q - r\<bar> \<le> 1 / 2 ^ 53"
proof -
  have "\<bar>r\<bar> \<le> 1" using exact_rate_bounds [OF assms] by auto
  from fl64_error_abs [OF this] show ?thesis by (simp add: skill_rate_exact assms)
qed

lemma score_of_upd [simp]: "score_of (upd k v per) s = (if s = k then v else score_of per s)"
  by (simp add: score_of_def)

lemma score_of_per_skill:
  "score_of (per_skill us side skills) s = (if s \<in> set skills then skill_rate us side s else None)"
proof (induction skills rule: rev_induct)
  case (snoc x xs)
  then show ?case by (auto simp: per_skill_def)
qed (simp add: per_skill_def score_of_def)

lemma skill_scores_skill:
  "s \<in> set skills \<Longrightarrow> s \<noteq> ''average'' \<Longrightarrow> score_of (skill_scores us side skills) s = skill_rate us side s"
  by (simp add: skill_scores_def Let_def score_of_per_skill)

definition float_average :: "json list \<Rightarrow> string \<Rightarrow> string list \<Rightarrow> rat option" where
  "float_average us side skills =
     (let rates = List.map_filter (skill_rate us side) skills
      in if rates = [] then None else Some (fdiv (fsum rates) (of_nat (length rates))))"

lemma skill_scores_average: "score_of (skill_scores us side skills) ''average'' = float_average us side skills"
proof -
  have "List.map_filter (score_of (per_skill us side skills)) skills
      = List.map_filter (skill_rate us side) skills"
    by (simp add: List.map_filter_def score_of_per_skill cong: filter_cong map_cong)
  then show ?thesis by (simp add: skill_scores_def average_def float_average_def Let_def)
qed

lemma rates_map:
  "List.map_filter (skill_rate us side) skills = map fl64 (List.map_filter (exact_rate us side) skills)"
  by (induction skills) (auto simp: skill_rate_exact List.map_filter_simps split: option.splits)

lemma map_filter_mem: "x \<in> set (List.map_filter f xs) \<Longrightarrow> \<exists>y\<in>set xs. f y = Some x"
  by (induction xs) (auto simp: List.map_filter_simps split: option.splits)

lemma length_map_filter: "length (List.map_filter f xs) \<le> length xs"
  by (induction xs) (auto simp: List.map_filter_simps split: option.splits)

lemma sum_map_error:
  fixes f :: "rat \<Rightarrow> rat"
  shows "(\<And>x. x \<in> set xs \<Longrightarrow> \<bar>f x - x\<bar> \<le> d) \<Longrightarrow>
    \<bar>sum_list (map f xs) - sum_list xs\<bar> \<le> of_nat (length xs) * d"
proof (induction xs)
  case (Cons x xs)
  have "\<bar>f x - x\<bar> \<le> d" and "\<bar>sum_list (map f xs) - sum_list xs\<bar> \<le> of_nat (length xs) * d"
    using Cons by auto
  then have "\<bar>sum_list (map f (x # xs)) - sum_list (x # xs)\<bar> \<le> d + of_nat (length xs) * d" by simp
  then show ?case by (simp add: distrib_right)
qed simp

lemma abs_diff_trans: "\<bar>a - b\<bar> \<le> x \<Longrightarrow> \<bar>b - c\<bar> \<le> y \<Longrightarrow> \<bar>a - c\<bar> \<le> x + (y :: rat)"
  by linarith

lemma sum_list_le: "(\<And>x. x \<in> set xs \<Longrightarrow> 0 \<le> x \<and> x \<le> (1::rat)) \<Longrightarrow>
    0 \<le> sum_list xs \<and> sum_list xs \<le> of_nat (length xs)"
  by (induction xs) force+

text \<open>The averaged float is within \<open>2 ^ -41\<close> of the exact mean, for at most a thousand skills.\<close>

lemma float_average_error:
  assumes "exact_average us side skills = Some a" and "length skills \<le> 1000"
  shows "\<exists>q. float_average us side skills = Some q \<and> \<bar>q - a\<bar> \<le> 1 / 2 ^ 41 \<and> 0 \<le> a \<and> a \<le> 1"
proof -
  define xs where "xs = List.map_filter (exact_rate us side) skills"
  have xs: "0 \<le> x \<and> x \<le> 1" if "x \<in> set xs" for x
    using that map_filter_mem exact_rate_bounds unfolding xs_def by fast
  have ne: "xs \<noteq> []" and a: "a = sum_list xs / of_nat (length xs)"
    using assms(1) by (auto simp: exact_average_def xs_def Let_def split: if_splits)
  let ?n = "of_nat (length xs) :: rat" and ?ys = "map fl64 xs"
  have n: "0 < ?n" using ne by simp
  have len: "length xs \<le> 1000" using length_map_filter [of "exact_rate us side" skills] assms(2) by (simp add: xs_def)
  have e: "\<bar>fl64 x - x\<bar> \<le> 1 / 2 ^ 53" if "x \<in> set xs" for x
    using xs [OF that] by (intro fl64_error_abs) auto
  have small: "0 \<le> y \<and> y \<le> 2" if "y \<in> set ?ys" for y
  proof -
    from that obtain x where x: "x \<in> set xs" "y = fl64 x" by auto
    have "0 \<le> fl64 x"
      using xs [OF x(1)] by (simp add: fl64_nonneg)
    moreover have "fl64 x \<le> 1 + 1 / 2 ^ 53" using e [OF x(1)] xs [OF x(1)] by linarith
    ultimately show ?thesis unfolding x(2) by simp
  qed
  have s1: "\<bar>fsum ?ys - sum_list ?ys\<bar> \<le> ?n * (3000 / 2 ^ 53)"
    using fsum_error [of ?ys] small len ne by simp
  have s2: "\<bar>sum_list ?ys - sum_list xs\<bar> \<le> ?n * (1 / 2 ^ 53)"
    by (rule sum_map_error) (rule e)
  have "\<bar>fsum ?ys - sum_list xs\<bar> \<le> ?n * (3001 / 2 ^ 53)"
    using abs_diff_trans [OF s1 s2] by simp
  then have d: "\<bar>fsum ?ys / ?n - a\<bar> \<le> 3001 / 2 ^ 53"
    using n by (simp add: a abs_divide flip: diff_divide_distrib) (simp add: divide_le_eq mult.commute)
  have a01: "0 \<le> a \<and> a \<le> 1"
    using sum_list_le [of xs] xs n by (simp add: a divide_le_eq_1)
  have "\<bar>fsum ?ys / ?n\<bar> \<le> 2" proof -
    have "\<bar>fsum ?ys / ?n - a\<bar> \<le> 1" by (rule order_trans [OF d]) simp
    with a01 show ?thesis by linarith
  qed
  then have r: "\<bar>fl64 (fsum ?ys / ?n) - fsum ?ys / ?n\<bar> \<le> 2 / 2 ^ 53"
    by (rule fl64_error_abs) simp
  have "float_average us side skills = Some (fl64 (fsum ?ys / ?n))"
    using ne by (simp add: float_average_def rates_map flip: xs_def) (simp add: fdiv_def Let_def)
  moreover have "\<bar>fl64 (fsum ?ys / ?n) - a\<bar> \<le> 1 / 2 ^ 41"
    by (rule order_trans [OF abs_diff_trans [OF r d]]) simp
  ultimately show ?thesis using a01 by blast
qed

lemma float_average_None: "float_average us side skills = None \<longleftrightarrow> exact_average us side skills = None"
  by (simp add: float_average_def exact_average_def rates_map Let_def)

section \<open>The crown rule\<close>

lemma epsilon_error: "\<bar>SCORE_EPSILON - 1 / 10 ^ 9\<bar> \<le> 1 / 2 ^ 53"
  unfolding SCORE_EPSILON_def by (rule fl64_error_abs) simp_all

lemma threshold_error:
  assumes k: "\<bar>k' - k\<bar> \<le> 1 / 2 ^ 41" and k01: "0 \<le> k" "k \<le> 1" and m: "0 \<le> m" "m \<le> (100 :: rat)"
  shows "\<bar>fsub (fadd k' (fdiv m 100)) SCORE_EPSILON - (k + m / 100 - 1 / 10 ^ 9)\<bar> \<le> 1 / 2 ^ 40"
proof -
  have tiny: "1 / 2 ^ 41 \<le> (1/8 :: rat)" "1 / 2 ^ 53 \<le> (1/8 :: rat)" by simp_all
  let ?d = "fdiv m 100"
  have d: "\<bar>?d - m / 100\<bar> \<le> 1 / 2 ^ 53"
    unfolding fdiv_def using m by (intro fl64_error_abs) auto
  have "\<bar>k' - k\<bar> \<le> 1/8" and "\<bar>?d - m / 100\<bar> \<le> 1/8" and "m / 100 \<le> 1" and "0 \<le> m / 100"
    using order_trans [OF k tiny(1)] order_trans [OF d tiny(2)] m by simp_all
  then have "\<bar>k' + ?d\<bar> \<le> 3" using k01 by linarith
  then have a: "\<bar>fadd k' ?d - (k' + ?d)\<bar> \<le> 3 / 2 ^ 53"
    unfolding fadd_def by (rule fl64_error_abs) simp
  have "\<bar>(k' + ?d) - (k + m / 100)\<bar> \<le> 1 / 2 ^ 41 + 1 / 2 ^ 53" using k d by linarith
  from abs_diff_trans [OF a this]
  have s: "\<bar>fadd k' ?d - (k + m / 100)\<bar> \<le> 3 / 2 ^ 53 + (1 / 2 ^ 41 + 1 / 2 ^ 53)" .
  have "\<bar>fadd k' ?d - (k + m / 100)\<bar> \<le> 1" by (rule order_trans [OF s]) simp
  moreover have "\<bar>SCORE_EPSILON\<bar> \<le> 1/2"
  proof -
    have "\<bar>SCORE_EPSILON - 1 / 10 ^ 9\<bar> \<le> 1/8" by (rule order_trans [OF epsilon_error]) simp
    moreover have "\<bar>1 / 10 ^ 9 - 0\<bar> \<le> (1/8 :: rat)" by simp
    ultimately show ?thesis using abs_diff_trans [of SCORE_EPSILON "1 / 10 ^ 9" "1/8" 0 "1/8"] by simp
  qed
  ultimately have "\<bar>fadd k' ?d - SCORE_EPSILON\<bar> \<le> 4" using \<open>m / 100 \<le> 1\<close> \<open>0 \<le> m / 100\<close> k01 by linarith
  then have f: "\<bar>fsub (fadd k' ?d) SCORE_EPSILON - (fadd k' ?d - SCORE_EPSILON)\<bar> \<le> 4 / 2 ^ 53"
    unfolding fsub_def by (rule fl64_error_abs) simp
  have "\<bar>(fadd k' ?d - SCORE_EPSILON) - (k + m / 100 - 1 / 10 ^ 9)\<bar>
      \<le> (3 / 2 ^ 53 + (1 / 2 ^ 41 + 1 / 2 ^ 53)) + 1 / 2 ^ 53"
    using s epsilon_error by linarith
  from abs_diff_trans [OF f this] show ?thesis by (rule order_trans) simp
qed

lemma crown_moves_exact:
  assumes k: "\<bar>k' - k\<bar> \<le> 1 / 2 ^ 41" and k01: "0 \<le> k" "k \<le> 1" and m: "0 \<le> m" "m \<le> 100"
    and c: "\<bar>c' - c\<bar> \<le> 1 / 2 ^ 41"
  shows "k + m / 100 \<le> c \<Longrightarrow> crown_moves (Some k') (Some c') m"
    and "c < k + m / 100 - 2 / 10 ^ 9 \<Longrightarrow> \<not> crown_moves (Some k') (Some c') m"
proof -
  note t = threshold_error [OF k k01 m]
  have eps: "1 / 2 ^ 40 + 1 / 2 ^ 41 \<le> (1 / 10 ^ 9 :: rat)" by simp
  show "crown_moves (Some k') (Some c') m" if le: "k + m / 100 \<le> c"
  proof -
    have "fsub (fadd k' (fdiv m 100)) SCORE_EPSILON \<le> c'"
      using t c le eps by linarith
    then show ?thesis by (simp add: crown_moves_def)
  qed
  show "\<not> crown_moves (Some k') (Some c') m" if lt: "c < k + m / 100 - 2 / 10 ^ 9"
  proof -
    have "2 / 10 ^ 9 = 1 / 10 ^ 9 + (1 / 10 ^ 9 :: rat)" by simp
    then have "c' < fsub (fadd k' (fdiv m 100)) SCORE_EPSILON"
      using t c lt eps by linarith
    then show ?thesis by (simp add: crown_moves_def)
  qed
qed

lemma dethroned_verdict:
  "dethroned (verdict_of us m skills)
   = crown_moves (float_average us ''king'' skills) (float_average us ''challenger'' skills) m"
  by (simp add: verdict_of_def Let_def skill_scores_average)

lemma crown_moves_None [simp]: "\<not> crown_moves None c m" "\<not> crown_moves k None m"
  by (auto simp: crown_moves_def split: option.splits)

lemma reason_verdict:
  "reason (verdict_of us m skills) =
     (if us = [] then ''no-units''
      else if exact_average us ''king'' skills = None \<or> exact_average us ''challenger'' skills = None then ''unscored''
      else if dethroned (verdict_of us m skills) then ''margin-met'' else ''short-of-margin'')"
  by (simp add: verdict_of_def Let_def skill_scores_average float_average_None)

lemma exact_average_Nil: "exact_average [] side skills = None"
proof -
  have "List.map_filter (exact_rate [] side) skills = []"
    by (induction skills) (simp_all add: List.map_filter_simps exact_rate_def scored_rows_def)
  then show ?thesis by (simp add: exact_average_def)
qed

section \<open>Void units and the paired tally\<close>

text \<open>Two units that differ only where both are void score the same.\<close>

definition same_when_scored :: "json \<Rightarrow> json \<Rightarrow> bool" where
  "same_when_scored u v \<longleftrightarrow> u = v \<or> truthy (jget u ''void'') \<and> truthy (jget v ''void'')"

lemma scored_rows_void:
  "list_all2 same_when_scored us vs \<Longrightarrow> scored_rows us side skill = scored_rows vs side skill"
  by (induction rule: list_all2_induct) (auto simp: scored_rows_def same_when_scored_def)

lemma exact_rate_void:
  "list_all2 same_when_scored us vs \<Longrightarrow> exact_rate us side skill = exact_rate vs side skill"
  by (simp add: exact_rate_def won_rows_def scored_rows_void [of us vs])

lemma float_average_void:
  assumes "list_all2 same_when_scored us vs"
  shows "float_average us side skills = float_average vs side skills"
proof -
  have "exact_rate us side = exact_rate vs side" by (rule ext) (rule exact_rate_void [OF assms])
  then show ?thesis by (simp add: float_average_def rates_map)
qed

definition wins_of :: "json list \<Rightarrow> string \<Rightarrow> nat" where
  "wins_of us w = length (filter (\<lambda>u. \<not> truthy (jget u ''void'')
     \<and> paired_outcome (side_success u ''king'') (side_success u ''challenger'') = w) us)"

definition voids_of :: "json list \<Rightarrow> nat" where
  "voids_of us = length (filter (\<lambda>u. truthy (jget u ''void'')) us)"

lemma paired_outcome_cases: "paired_outcome k c \<in> {''challenger'', ''king'', ''tie''}"
  by (simp add: paired_outcome_def)

lemma fold_tally:
  "foldl tally_step t us = t\<lparr>t_units := t_units t + length us, t_wins := t_wins t + wins_of us ''challenger'',
     t_losses := t_losses t + wins_of us ''king'', t_ties := t_ties t + wins_of us ''tie'',
     t_void := t_void t + voids_of us\<rparr>"
proof (induction us arbitrary: t)
  case (Cons u us)
  have "paired_outcome (side_success u ''king'') (side_success u ''challenger'') \<in> {''challenger'', ''king'', ''tie''}"
    by (rule paired_outcome_cases)
  then show ?case
    unfolding foldl_Cons Cons.IH by (auto simp: tally_step_def Let_def wins_of_def voids_of_def)
qed (simp add: wins_of_def voids_of_def)

lemma outcomes_total: "wins_of us ''challenger'' + wins_of us ''king'' + wins_of us ''tie'' + voids_of us = length us"
proof (induction us)
  case (Cons u us)
  then show ?case
    using paired_outcome_cases [of "side_success u ''king''" "side_success u ''challenger''"]
    by (auto simp: wins_of_def voids_of_def)
qed (simp add: wins_of_def voids_of_def)

lemma void_fraction_exact: "void_fraction us = (if us = [] then 0 else fl64 (of_nat (voids_of us) / of_nat (length us)))"
  by (simp add: void_fraction_def voids_of_def fdiv_def)

section \<open>Properties\<close>

text \<open>C1. The crown rule is what the contract states, whatever the rounding of the floats: with at
  most a thousand skills and a margin between 0 and 100 points, a challenger whose exact average
  meets the king's plus the margin takes the crown, and one that misses it by more than two
  billionths does not.\<close>

theorem crown_rule:
  assumes "exact_average us ''king'' skills = Some k" and "exact_average us ''challenger'' skills = Some c"
    and "length skills \<le> 1000" and "0 \<le> m" and "m \<le> 100"
  shows "(k + m / 100 \<le> c \<longrightarrow> dethroned (verdict_of us m skills) \<and> reason (verdict_of us m skills) = ''margin-met'')
    \<and> (c < k + m / 100 - 2 / 10 ^ 9 \<longrightarrow>
         \<not> dethroned (verdict_of us m skills) \<and> reason (verdict_of us m skills) = ''short-of-margin'')"
proof -
  obtain k' where k: "float_average us ''king'' skills = Some k'" "\<bar>k' - k\<bar> \<le> 1 / 2 ^ 41" "0 \<le> k" "k \<le> 1"
    using float_average_error [OF assms(1,3)] by blast
  obtain c' where c: "float_average us ''challenger'' skills = Some c'" "\<bar>c' - c\<bar> \<le> 1 / 2 ^ 41"
    using float_average_error [OF assms(2,3)] by blast
  have "us \<noteq> []" using assms(1) exact_average_Nil by auto
  with crown_moves_exact [OF k(2-4) assms(4,5) c(2)] k(1) c(1) assms(1,2) show ?thesis
    by (auto simp: dethroned_verdict reason_verdict)
qed

definition sample_units :: "json list" where
  "sample_units =
     [JObj [(''skill'', JStr ''pick''), (''void'', JBool False), (''king_success'', JBool False), (''challenger_success'', JBool True)],
      JObj [(''skill'', JStr ''pick''), (''void'', JBool False), (''king_success'', JBool True), (''challenger_success'', JBool True)],
      JObj [(''skill'', JStr ''place''), (''void'', JBool True), (''king_success'', JNull), (''challenger_success'', JBool True)]]"

lemma sample_averages:
  "exact_average sample_units ''king'' [''pick'', ''place''] = Some (1/2)"
  "exact_average sample_units ''challenger'' [''pick'', ''place''] = Some 1"
  by (simp_all add: sample_units_def exact_average_def exact_rate_def won_rows_def scored_rows_def
      List.map_filter_simps jget_JObj Let_def)

theorem crown_rule_witness:
  "dethroned (verdict_of sample_units 50 [''pick'', ''place''])
   \<and> \<not> dethroned (verdict_of sample_units 51 [''pick'', ''place''])"
  using crown_rule [OF sample_averages, of 50] crown_rule [OF sample_averages, of 51] by simp

text \<open>A duel without a scored unit on both sides never moves the crown, and its verdict says so.\<close>

theorem unscored_keeps_crown:
  assumes "exact_average us ''king'' skills = None \<or> exact_average us ''challenger'' skills = None"
  shows "\<not> dethroned (verdict_of us m skills)
    \<and> reason (verdict_of us m skills) = (if us = [] then ''no-units'' else ''unscored'')
    \<and> delta_points (verdict_of us m skills) = None"
proof -
  have none: "float_average us ''king'' skills = None \<or> float_average us ''challenger'' skills = None"
    using assms by (simp add: float_average_None)
  then have "\<not> dethroned (verdict_of us m skills)" by (auto simp: dethroned_verdict)
  moreover have "delta_points (verdict_of us m skills) = None"
    using none by (auto simp: delta_points_def verdict_of_def Let_def skill_scores_average split: option.splits)
  ultimately show ?thesis using assms by (simp add: reason_verdict)
qed

theorem unscored_keeps_crown_witness: "\<not> dethroned (verdict_of [] 0 [''pick''])"
  using unscored_keeps_crown [of "[]" "[''pick'']" 0] exact_average_Nil by simp

text \<open>C15. A void unit is void for both sides: whatever a void row says of either side's outcome,
  the crown, the reason, the scores and the paired tally are the same.\<close>

theorem void_rows_ignored:
  assumes "list_all2 same_when_scored us vs"
  shows "dethroned (verdict_of us m skills) = dethroned (verdict_of vs m skills)
    \<and> reason (verdict_of us m skills) = reason (verdict_of vs m skills)
    \<and> king_scores (verdict_of us m skills) = king_scores (verdict_of vs m skills)
    \<and> challenger_scores (verdict_of us m skills) = challenger_scores (verdict_of vs m skills)
    \<and> v_tally (verdict_of us m skills) = v_tally (verdict_of vs m skills)"
proof -
  have rate: "skill_rate us = skill_rate vs"
    by (intro ext) (simp add: skill_rate_exact exact_rate_void [OF assms])
  have per: "skill_scores us = skill_scores vs"
    by (intro ext) (simp add: skill_scores_def per_skill_def rate)
  have len: "length us = length vs" using assms by (rule list_all2_lengthD)
  have "wins_of us w = wins_of vs w \<and> voids_of us = voids_of vs" for w
    using assms by (induction rule: list_all2_induct) (auto simp: wins_of_def voids_of_def same_when_scored_def)
  then have "tally_of us = tally_of vs" by (simp add: tally_of_def fold_tally Let_def len)
  then show ?thesis using len by (auto simp: verdict_of_def Let_def per)
qed

theorem void_rows_ignored_witness:
  "dethroned (verdict_of [jset (JObj []) ''void'' (JBool True)] 0 [''pick''])
   = dethroned (verdict_of [JObj [(''void'', JBool True), (''skill'', JStr ''pick''), (''king_success'', JBool True)]] 0 [''pick''])"
  using void_rows_ignored [of "[jset (JObj []) ''void'' (JBool True)]"
      "[JObj [(''void'', JBool True), (''skill'', JStr ''pick''), (''king_success'', JBool True)]]" 0 "[''pick'']"]
  by (simp add: same_when_scored_def jget_JObj)

text \<open>The tally counts every unit once: as a win, a loss, a tie or void; the decided ones are the
  wins and the losses; and each count is the number of rows with that outcome.\<close>

theorem tally_counts:
  "t_units (tally_of us) = length us
   \<and> t_wins (tally_of us) + t_losses (tally_of us) + t_ties (tally_of us) + t_void (tally_of us) = length us
   \<and> t_decided (tally_of us) = t_wins (tally_of us) + t_losses (tally_of us)
   \<and> t_wins (tally_of us) = wins_of us ''challenger'' \<and> t_losses (tally_of us) = wins_of us ''king''
   \<and> t_void (tally_of us) = voids_of us"
  using outcomes_total [of us] by (simp add: tally_of_def fold_tally Let_def)

end
