(* ===== verification/Json_Roundtrip.thy ===== *)
theory Json_Roundtrip
  imports Json "HOL-Library.Multiset"
begin

text \<open>
  \<open>loads\<close> undoes \<open>dumps\<close>: for a value whose objects have distinct keys and whose floats print
  to a token that reads back (\<open>wf_json\<close>, computable), the text parses to the value, with its
  keys sorted where the writer sorts them. So \<open>canonical_json\<close> is injective up to key order,
  a rendered text is printable ASCII, and the two line formats share one interface, the locale
  \<open>json_codec\<close>.
\<close>

section \<open>Well-formed values and the sorted form\<close>

definition float_ok :: "rat \<Rightarrow> bool" where
  "float_ok q \<longleftrightarrow> float_repr q \<noteq> [] \<and> list_all num_char (float_repr q)
     \<and> num_value (float_repr q) = Some (JFloat q)"

fun wf_json :: "json \<Rightarrow> bool" where
  "wf_json (JFloat q) \<longleftrightarrow> float_ok q"
| "wf_json (JArr xs) \<longleftrightarrow> list_all wf_json xs"
| "wf_json (JObj kvs) \<longleftrightarrow> distinct (map fst kvs) \<and> list_all (\<lambda>kv. wf_json (snd kv)) kvs"
| "wf_json _ \<longleftrightarrow> True"

fun jsort :: "json \<Rightarrow> json" where
  "jsort (JArr xs) = JArr (map jsort xs)"
| "jsort (JObj kvs) = JObj (sort_key fst (map (\<lambda>kv. (fst kv, jsort (snd kv))) kvs))"
| "jsort j = j"

definition sort_if :: "bool \<Rightarrow> json \<Rightarrow> json" where
  "sort_if srt j = (if srt then jsort j else j)"

text \<open>Sorting items by key and rendering the values commute.\<close>

lemma insort_key_map:
  "map (\<lambda>kv. (fst kv, f (snd kv))) (insort_key fst x xs)
   = insort_key fst (fst x, f (snd x)) (map (\<lambda>kv. (fst kv, f (snd kv))) xs)"
  by (induction xs) auto

lemma sort_key_map:
  "map (\<lambda>kv. (fst kv, f (snd kv))) (sort_key fst xs)
   = sort_key fst (map (\<lambda>kv. (fst kv, f (snd kv))) xs)"
  by (induction xs) (simp_all add: insort_key_map)

lemma dumps_sorted: "dumps i k True j = dumps i k False (jsort j)"
proof (induction j)
  case (JArr xs)
  then have "map (dumps i k True) xs = map (dumps i k False) (map jsort xs)" by simp
  then show ?case by (simp only: dumps.simps jsort.simps)
next
  case (JObj kvs)
  then have ih: "dumps i k True (snd kv) = dumps i k False (jsort (snd kv))" if "kv \<in> set kvs" for kv
    using that by (cases kv) auto
  have "map (\<lambda>kv. (fst kv, dumps i k False (snd kv))) (sort_key fst (map (\<lambda>kv. (fst kv, jsort (snd kv))) kvs))
      = sort_key fst (map (\<lambda>kv. (fst kv, dumps i k True (snd kv))) kvs)"
    by (simp add: sort_key_map ih cong: map_cong)
  then show ?case by (simp add: in_order_def)
qed simp_all

lemma distinct_sort_key: "distinct (map fst xs) \<Longrightarrow> distinct (map fst (sort_key fst xs))"
  by (metis mset_map mset_sort mset_eq_imp_distinct_iff)

lemma wf_jsort: "wf_json j \<Longrightarrow> wf_json (jsort j)"
proof (induction j)
  case (JObj kvs)
  have "distinct (map fst (sort_key fst (map (\<lambda>kv. (fst kv, jsort (snd kv))) kvs)))"
    using JObj.prems by (intro distinct_sort_key) (simp add: comp_def)
  moreover have "wf_json (jsort (snd kv))" if "kv \<in> set kvs" for kv
    using JObj.prems that JObj.IH [OF that, of "snd kv"] by (cases kv) (auto simp: list_all_iff)
  ultimately show ?case by (auto simp: list_all_iff)
qed (auto simp: list_all_iff)

lemma wf_sort_if: "wf_json j \<Longrightarrow> wf_json (sort_if srt j)"
  by (simp add: sort_if_def wf_jsort)

lemma dumps_sort_if: "dumps i k srt j = dumps i k False (sort_if srt j)"
  by (cases srt) (simp_all add: sort_if_def dumps_sorted)

section \<open>Scanners\<close>

lemma code_less_256: "code c < 256"
  unfolding code_def by (metis nat_of_char_less_256)

lemma char_of_code [simp]: "char_of (code c) = c"
  by (simp add: code_def)

lemma hexd_hex_digit: "n < 16 \<Longrightarrow> hexd (hex_digit n) = n"
  by (auto simp: hexd_def hex_digit_def ascii_digit_def code_def)

lemma is_hex_hex_digit: "n < 16 \<Longrightarrow> is_hex (hex_digit n)"
  by (auto simp: is_hex_def hex_lower_def hex_digit_def ascii_digit_def code_def)

lemma pstr_esc: "pstr (esc_char c @ t) = map_option (\<lambda>(u, q). (c # u, q)) (pstr t)"
proof -
  have h: "code c div 16 < 16" using code_less_256 [of c] by simp
  have "16 * (code c div 16) + code c mod 16 = code c" by simp
  then have same: "char_of (16 * (code c div 16) + code c mod 16) = c" by simp
  show ?thesis
  proof (cases "code c < 32 \<or> 126 < code c")
    case False
    then show ?thesis by (auto simp: esc_char_def unescape_def)
  next
    case True
    then have "c \<noteq> CHR 0x22" and "c \<noteq> CHR 0x5C" by (auto simp: code_def)
    with True h same show ?thesis
      by (simp add: esc_char_def unescape_def hexd_hex_digit is_hex_hex_digit)
  qed
qed

lemma pstr_quote: "pstr (concat (map esc_char s) @ CHR 0x22 # r) = Some (s, r)"
  by (induction s) (simp_all add: pstr_esc)

definition no_num :: "string \<Rightarrow> bool" where
  "no_num r \<longleftrightarrow> r = [] \<or> \<not> num_char (hd r)"

lemma scan_num:
  assumes "list_all num_char t" and "no_num r"
  shows "takeWhile num_char (t @ r) = t" and "dropWhile num_char (t @ r) = r"
proof -
  have "takeWhile num_char r = []" and "dropWhile num_char r = r"
    using assms(2) by (cases r; simp add: no_num_def)+
  moreover have "takeWhile num_char (t @ r) = t @ takeWhile num_char r"
    using assms(1) by (intro takeWhile_append2) (auto simp: list_all_iff)
  moreover have "dropWhile num_char (t @ r) = dropWhile num_char r"
    using assms(1) by (intro dropWhile_append2) (auto simp: list_all_iff)
  ultimately show "takeWhile num_char (t @ r) = t" and "dropWhile num_char (t @ r) = r"
    by simp_all
qed

lemma pnum_token:
  "list_all num_char t \<Longrightarrow> no_num r \<Longrightarrow> pnum (t @ r) = map_option (\<lambda>v. (v, r)) (num_value t)"
  by (simp add: pnum_def scan_num)

lemma hd_digits_zero: "hd (digits_of n) = CHR ''0'' \<Longrightarrow> n = 0"
proof (induction n rule: digits_of.induct)
  case (1 n)
  show ?case
  proof (cases "n < 10")
    case True
    with "1.prems" have "digit_char n = CHR ''0''" by (simp add: digits_of.simps [of n])
    then have "code (digit_char n) = 48" by (simp add: code_def)
    with True show ?thesis by (simp add: code_digit_char)
  next
    case False
    with "1.prems" have "hd (digits_of (n div 10)) = CHR ''0''"
      by (simp add: digits_of.simps [of n] hd_append)
    with "1.IH" False show ?thesis by simp
  qed
qed

lemma takeWhile_digits: "takeWhile ascii_digit (digits_of n) = digits_of n"
  and dropWhile_digits: "dropWhile ascii_digit (digits_of n) = []"
  by (simp_all add: digits_of_ascii)

lemma digits_of_first: "hd (digits_of n) = CHR ''0'' \<Longrightarrow> length (digits_of n) = 1"
  by (drule hd_digits_zero) (simp add: digits_of.simps)

lemma digits_not_minus: "\<not> startswith (digits_of n) ''-''"
proof
  assume "startswith (digits_of n) ''-''"
  then have "CHR ''-'' \<in> set (digits_of n)"
    by (cases "digits_of n") (auto simp: startswith_def)
  then show False by (auto dest: digits_of_ascii simp: ascii_digit_def code_def)
qed

lemma num_value_int: "num_value (str_of_int i) = Some (JInt i)"
proof (cases "i < 0")
  case True
  have "startswith (CHR ''-'' # digits_of (nat (- i))) ''-''" by (simp add: startswith_def)
  with True show ?thesis
    using digits_of_first [of "nat (- i)"]
    by (auto simp: num_value_def str_of_int_def Let_def takeWhile_digits dropWhile_digits)
next
  case False
  then show ?thesis
    using digits_of_first [of "nat i"] digits_not_minus [of "nat i"]
    by (auto simp: num_value_def str_of_int_def Let_def takeWhile_digits dropWhile_digits)
qed

lemma num_chars_int: "list_all num_char (str_of_int i)"
  by (auto simp: list_all_iff num_char_def dest: str_of_int_chars)

lemma num_head: "t \<noteq> [] \<Longrightarrow> list_all num_char t \<Longrightarrow>
   \<not> startswith (t @ r) [CHR 0x22] \<and> \<not> startswith (t @ r) ''{'' \<and> \<not> startswith (t @ r) ''[''
   \<and> \<not> startswith (t @ r) ''null'' \<and> \<not> startswith (t @ r) ''true'' \<and> \<not> startswith (t @ r) ''false''"
  by (cases t) (auto simp: startswith_def num_char_def ascii_digit_def code_def)

lemma pval_number:
  assumes "list_all num_char t" and "t \<noteq> []" and "num_value t = Some v" and "no_num r"
  shows "pval (Suc f) (t @ r) = Some (v, r)"
  using num_head [OF assms(2,1), of r] assms by (simp add: pnum_token)

section \<open>The parser reads what the writer wrote\<close>

fun need :: "json \<Rightarrow> nat" where
  "need (JArr xs) = Suc (sum_list (map (\<lambda>x. Suc (need x)) xs))"
| "need (JObj kvs) = Suc (sum_list (map (\<lambda>kv. Suc (need (snd kv))) kvs))"
| "need _ = 1"

definition seps :: "string \<Rightarrow> string \<Rightarrow> bool" where
  "seps i k \<longleftrightarrow> startswith i '','' \<and> list_all is_ws (drop 1 i)
     \<and> startswith k '':'' \<and> list_all is_ws (drop 1 k)"

lemma seps_split:
  assumes "seps i k"
  obtains w v where "i = CHR '','' # w" "k = CHR '':'' # v" "list_all is_ws w" "list_all is_ws v"
proof -
  have "i = CHR '','' # drop 1 i" and "k = CHR '':'' # drop 1 k"
    using assms by (cases i; cases k; auto simp: seps_def startswith_def)+
  with assms that show ?thesis unfolding seps_def by blast
qed

definition starts_value :: "char \<Rightarrow> bool" where
  "starts_value c \<longleftrightarrow> \<not> is_ws c \<and> c \<noteq> CHR '']'' \<and> c \<noteq> CHR ''}''"

lemma num_char_starts: "num_char c \<Longrightarrow> starts_value c"
  by (auto simp: starts_value_def num_char_def is_ws_def ascii_digit_def code_def)

lemma dumps_head: "wf_json j \<Longrightarrow> dumps i k False j \<noteq> [] \<and> starts_value (hd (dumps i k False j))"
proof (cases j)
  case (JInt n)
  have ne: "str_of_int n \<noteq> []" by (simp add: str_of_int_def)
  then have "num_char (hd (str_of_int n))" using num_chars_int [of n] by (simp add: list_all_iff)
  with JInt ne show ?thesis by (simp add: num_char_starts)
next
  case (JFloat q)
  assume "wf_json j"
  with JFloat have f: "float_repr q \<noteq> []" "list_all num_char (float_repr q)" by (simp_all add: float_ok_def)
  then have "num_char (hd (float_repr q))" by (simp add: list_all_iff)
  with JFloat f show ?thesis by (simp add: num_char_starts)
qed (auto simp: quote_def starts_value_def is_ws_def)

lemma skip_dumps:
  assumes "wf_json j" and "list_all is_ws w"
  shows "skip_ws (w @ dumps i k False j @ r) = dumps i k False j @ r"
proof -
  obtain c t where "dumps i k False j = c # t" "\<not> is_ws c"
    using dumps_head [OF assms(1), of i k] by (cases "dumps i k False j") (auto simp: starts_value_def)
  then show ?thesis using assms(2) by (simp add: skip_ws_def list_all_iff)
qed

lemma dumps_not_bracket: "wf_json j \<Longrightarrow> \<not> startswith (dumps i k False j @ r) '']''"
  using dumps_head [of j i k] by (cases "dumps i k False j") (auto simp: startswith_def starts_value_def)

lemma skip_non_ws: "\<not> is_ws c \<Longrightarrow> skip_ws (c # s) = c # s"
  by (simp add: skip_ws_def)

lemma skip_quote: "list_all is_ws w \<Longrightarrow> skip_ws (w @ CHR 0x22 # s) = CHR 0x22 # s"
  by (simp add: skip_ws_def list_all_iff is_ws_def)

definition reads_back :: "string \<Rightarrow> string \<Rightarrow> json \<Rightarrow> bool" where
  "reads_back i k j \<longleftrightarrow>
     (\<forall>f r. need j \<le> f \<longrightarrow> no_num r \<longrightarrow> pval f (dumps i k False j @ r) = Some (j, r))"

lemma reads_backD:
  "reads_back i k j \<Longrightarrow> need j \<le> f \<Longrightarrow> no_num r \<Longrightarrow> pval f (dumps i k False j @ r) = Some (j, r)"
  by (simp add: reads_back_def)

lemma no_num_punct: "c \<in> {CHR '','', CHR '']'', CHR ''}''} \<Longrightarrow> no_num (c # s)"
  by (auto simp: no_num_def num_char_def ascii_digit_def code_def)

lemma punct_not_ws: "c \<in> {CHR '','', CHR '']'', CHR ''}'', CHR '':''} \<Longrightarrow> \<not> is_ws c"
  by (auto simp: is_ws_def)

lemma pelems_dumps:
  assumes "seps i k" and "xs \<noteq> []" and "\<And>x. x \<in> set xs \<Longrightarrow> wf_json x \<and> reads_back i k x"
    and "sum_list (map (\<lambda>x. Suc (need x)) xs) \<le> f"
  shows "pelems f (join i (map (dumps i k False) xs) @ CHR '']'' # r) = Some (xs, r)"
  using assms(2-4)
proof (induction xs arbitrary: f)
  case (Cons x xs)
  obtain w v where w: "i = CHR '','' # w" "list_all is_ws w" using seps_split [OF assms(1)] by metis
  obtain g where f: "f = Suc g" using Cons.prems(3) by (cases f) auto
  have x: "reads_back i k x" and nx: "need x \<le> g" using Cons.prems f by auto
  show ?case
  proof (cases xs)
    case Nil
    then show ?thesis
      using reads_backD [OF x nx, of "CHR '']'' # r"]
      by (simp add: f no_num_punct skip_non_ws punct_not_ws startswith_def Let_def)
  next
    case (Cons y ys)
    let ?t = "join i (map (dumps i k False) xs) @ CHR '']'' # r"
    have "pelems g ?t = Some (xs, r)" using Cons.IH [of g] Cons.prems f Cons by auto
    moreover have "skip_ws (w @ ?t) = ?t"
      using skip_dumps [of y w i k] Cons Cons.prems(2) w(2) by (cases ys) auto
    moreover have "join i (map (dumps i k False) (x # xs)) @ CHR '']'' # r
        = dumps i k False x @ CHR '','' # w @ ?t"
      using Cons w by simp
    ultimately show ?thesis
      using reads_backD [OF x nx, of "CHR '','' # w @ ?t"]
      by (simp add: f no_num_punct skip_non_ws punct_not_ws startswith_def Let_def)
  qed
qed simp

definition member_text :: "string \<Rightarrow> string \<Rightarrow> string \<times> json \<Rightarrow> string" where
  "member_text i k kv = quote (fst kv) @ k @ dumps i k False (snd kv)"

lemma map_member_text:
  "map (\<lambda>kv. quote (fst kv) @ k @ dumps i k False (snd kv)) kvs = map (member_text i k) kvs"
  by (simp add: member_text_def)

lemma dumps_obj: "dumps i k False (JObj kvs) = CHR ''{'' # join i (map (member_text i k) kvs) @ ''}''"
  by (simp add: in_order_def comp_def map_member_text)

lemma pmembers_dumps:
  assumes "seps i k" and "kvs \<noteq> []"
    and "\<And>kv. kv \<in> set kvs \<Longrightarrow> wf_json (snd kv) \<and> reads_back i k (snd kv)"
    and "sum_list (map (\<lambda>kv. Suc (need (snd kv))) kvs) \<le> f"
  shows "pmembers f (join i (map (member_text i k) kvs) @ CHR ''}'' # r) = Some (kvs, r)"
  using assms(2-4)
proof (induction kvs arbitrary: f)
  case (Cons kv kvs)
  obtain w v where w: "i = CHR '','' # w" "list_all is_ws w" "k = CHR '':'' # v" "list_all is_ws v"
    using seps_split [OF assms(1)] by metis
  obtain g where f: "f = Suc g" using Cons.prems(3) by (cases f) auto
  obtain a x where kv: "kv = (a, x)" by fastforce
  have x: "reads_back i k x" and nx: "need x \<le> g" and wx: "wf_json x"
    using Cons.prems(2) [of kv] Cons.prems(3) f kv by auto
  have first: "member_text i k kv @ t
      = CHR 0x22 # concat (map esc_char a) @ CHR 0x22 # CHR '':'' # v @ dumps i k False x @ t" for t
    by (simp add: member_text_def kv quote_def w)
  have skv: "skip_ws (v @ dumps i k False x @ t) = dumps i k False x @ t" for t
    using skip_dumps [OF wx w(4)] .
  show ?case
  proof (cases kvs)
    case Nil
    then show ?thesis
      using reads_backD [OF x nx, of "CHR ''}'' # r"]
      by (simp add: f first [unfolded kv] pstr_quote skv no_num_punct skip_non_ws punct_not_ws
          startswith_def Let_def kv)
  next
    case (Cons y ys)
    let ?t = "join i (map (member_text i k) kvs) @ CHR ''}'' # r"
    have "pmembers g ?t = Some (kvs, r)" using Cons.IH [of g] Cons.prems f Cons by auto
    moreover have "skip_ws (w @ ?t) = ?t"
      using skip_quote [OF w(2)] Cons by (cases ys) (simp_all add: member_text_def quote_def)
    moreover have "join i (map (member_text i k) (kv # kvs)) @ CHR ''}'' # r
        = member_text i k kv @ CHR '','' # w @ ?t"
      using Cons w by simp
    ultimately show ?thesis
      using reads_backD [OF x nx, of "CHR '','' # w @ ?t"]
      by (simp add: f first [unfolded kv] pstr_quote skv no_num_punct skip_non_ws punct_not_ws
          startswith_def Let_def kv)
  qed
qed simp

lemma reads_back_dumps: "seps i k \<Longrightarrow> wf_json j \<Longrightarrow> reads_back i k j"
proof (induction j)
  case (JInt n)
  have "str_of_int n \<noteq> []" by (simp add: str_of_int_def)
  then show ?case
    unfolding reads_back_def using pval_number [OF num_chars_int _ num_value_int]
    by (auto simp: Suc_le_eq gr0_conv_Suc)
next
  case (JFloat q)
  then show ?case
    unfolding reads_back_def float_ok_def wf_json.simps
    using pval_number [of "float_repr q"] by (auto simp: Suc_le_eq gr0_conv_Suc)
next
  case (JArr xs)
  have all: "wf_json x \<and> reads_back i k x" if "x \<in> set xs" for x
    using JArr that by (auto simp: list_all_iff)
  show ?case unfolding reads_back_def
  proof (intro allI impI)
    fix f r assume need: "need (JArr xs) \<le> f" and r: "no_num r"
    then obtain g where f: "f = Suc g" and g: "sum_list (map (\<lambda>x. Suc (need x)) xs) \<le> g"
      by (cases f) auto
    show "pval f (dumps i k False (JArr xs) @ r) = Some (JArr xs, r)"
    proof (cases xs)
      case Nil
      then show ?thesis by (simp add: f startswith_def skip_non_ws punct_not_ws)
    next
      case (Cons y ys)
      let ?t = "join i (map (dumps i k False) xs) @ CHR '']'' # r"
      have t: "skip_ws ?t = ?t"
        using skip_dumps [of y "[]" i k] all [of y] Cons by (cases ys) auto
      have "\<not> startswith ?t '']''"
        using dumps_not_bracket [of y i k] all [of y] Cons by (cases ys) auto
      moreover have "pelems g ?t = Some (xs, r)"
        using pelems_dumps [OF JArr.prems(1) _ all g, of r] Cons by simp
      moreover have "dumps i k False (JArr xs) @ r = CHR ''['' # ?t" by simp
      ultimately show ?thesis using t
        by (simp add: f startswith_def [of "CHR ''['' # _"] Let_def)
    qed
  qed
next
  case (JObj kvs)
  have all: "wf_json (snd kv) \<and> reads_back i k (snd kv)" if "kv \<in> set kvs" for kv
    using JObj.prems that JObj.IH [OF that, of "snd kv"] by (cases kv) (auto simp: list_all_iff)
  show ?case unfolding reads_back_def
  proof (intro allI impI)
    fix f r assume need: "need (JObj kvs) \<le> f" and r: "no_num r"
    then obtain g where f: "f = Suc g" and g: "sum_list (map (\<lambda>kv. Suc (need (snd kv))) kvs) \<le> g"
      by (cases f) auto
    let ?t = "join i (map (member_text i k) kvs) @ CHR ''}'' # r"
    have shape: "dumps i k False (JObj kvs) @ r = CHR ''{'' # ?t"
      by (simp only: dumps_obj append.simps append_assoc)
    show "pval f (dumps i k False (JObj kvs) @ r) = Some (JObj kvs, r)"
    proof (cases kvs)
      case Nil
      then show ?thesis by (simp add: f startswith_def skip_non_ws punct_not_ws in_order_def)
    next
      case (Cons y ys)
      obtain u where u: "?t = CHR 0x22 # u" using Cons by (cases ys) (auto simp: member_text_def quote_def)
      then have "skip_ws ?t = ?t" and "\<not> startswith ?t ''}''"
        by (simp_all add: startswith_def skip_ws_def is_ws_def)
      moreover have "pmembers g ?t = Some (kvs, r)"
        using pmembers_dumps [OF JObj.prems(1) _ all g, of r] Cons by simp
      moreover have "dict_of kvs = kvs" using JObj.prems(2) by (simp add: dict_of_distinct)
      ultimately show ?thesis unfolding shape
        by (simp add: f startswith_def [of "CHR ''{'' # _"] Let_def)
    qed
  qed
qed (auto simp: reads_back_def Suc_le_eq gr0_conv_Suc startswith_def quote_def pstr_quote)

section \<open>The text bounds the recursion\<close>

lemma length_join: "xs \<noteq> [] \<Longrightarrow> length sep = n \<Longrightarrow>
    length (join sep xs) + n = sum_list (map (\<lambda>x. n + length x) xs)"
  by (induction xs rule: induct_list012) auto

lemma length_join_ge: "1 \<le> length sep \<Longrightarrow>
    sum_list (map (\<lambda>x. Suc (length x)) xs) \<le> Suc (length (join sep xs))"
  by (induction xs rule: induct_list012) auto

lemma need_le: "seps i k \<Longrightarrow> wf_json j \<Longrightarrow> need j \<le> length (dumps i k False j)"
proof (induction j)
  case (JArr xs)
  have i: "1 \<le> length i" using JArr.prems(1) by (auto elim: seps_split)
  have "sum_list (map (\<lambda>x. Suc (need x)) xs) \<le> sum_list (map (\<lambda>x. Suc (length (dumps i k False x))) xs)"
    using JArr by (intro sum_list_mono) (auto simp: list_all_iff)
  also have "\<dots> \<le> Suc (length (join i (map (dumps i k False) xs)))"
    using length_join_ge [OF i, of "map (dumps i k False) xs"] by (simp add: comp_def)
  finally show ?case by simp
next
  case (JObj kvs)
  have i: "1 \<le> length i" using JObj.prems(1) by (auto elim: seps_split)
  have "need (snd kv) \<le> length (member_text i k kv)" if "kv \<in> set kvs" for kv
    using JObj.prems that JObj.IH [OF that, of "snd kv"]
    by (cases kv) (force simp: list_all_iff member_text_def)
  then have "sum_list (map (\<lambda>kv. Suc (need (snd kv))) kvs)
      \<le> sum_list (map (\<lambda>kv. Suc (length (member_text i k kv))) kvs)"
    by (intro sum_list_mono) auto
  also have "\<dots> \<le> Suc (length (join i (map (member_text i k) kvs)))"
    using length_join_ge [OF i, of "map (member_text i k) kvs"] by (simp add: comp_def)
  finally show ?case by (simp del: dumps.simps add: dumps_obj)
next
  case (JFloat q)
  then show ?case by (simp add: float_ok_def Suc_le_eq)
qed (auto simp: Suc_le_eq str_of_int_def quote_def)

theorem loads_dumps:
  assumes "seps i k" and "wf_json j"
  shows "loads (dumps i k srt j) = Some (sort_if srt j)"
proof -
  let ?j = "sort_if srt j"
  let ?s = "dumps i k False ?j"
  have wf: "wf_json ?j" using assms(2) by (rule wf_sort_if)
  have "skip_ws ?s = ?s" using skip_dumps [OF wf, of "[]" i k "[]"] by simp
  moreover have "pval (Suc (length ?s)) ?s = Some (?j, [])"
    using reads_backD [OF reads_back_dumps [OF assms(1) wf], of "Suc (length ?s)" "[]"]
      need_le [OF assms(1) wf] by (simp add: no_num_def)
  ultimately have "loads ?s = Some ?j" by (simp add: loads_def skip_ws_def del: pval.simps)
  then show ?thesis by (simp add: dumps_sort_if [of i k srt])
qed

section \<open>What a rendered text holds\<close>

definition plain :: "char \<Rightarrow> bool" where
  "plain c \<longleftrightarrow> 32 \<le> code c \<and> code c \<le> 126"

lemma plain_hex_digit: "n < 16 \<Longrightarrow> plain (hex_digit n)"
  by (auto simp: plain_def hex_digit_def code_def)

lemma plain_esc: "c' \<in> set (esc_char c) \<Longrightarrow> plain c'"
proof -
  assume c': "c' \<in> set (esc_char c)"
  have h: "code c div 16 < 16" and l: "code c mod 16 < 16" using code_less_256 [of c] by simp_all
  from c' show ?thesis
    using plain_hex_digit [OF h] plain_hex_digit [OF l]
    by (auto simp: esc_char_def plain_def code_def split: if_splits)
qed

lemma plain_quote: "list_all plain (quote s)"
  by (auto simp: quote_def list_all_iff dest: plain_esc) (simp_all add: plain_def code_def)

lemma plain_join: "list_all plain sep \<Longrightarrow> list_all (list_all plain) xs \<Longrightarrow> list_all plain (join sep xs)"
  by (induction xs rule: induct_list012) auto

lemma plain_digit: "ascii_digit c \<Longrightarrow> plain c"
  by (simp add: ascii_digit_def plain_def)

lemma plain_num: "num_char c \<Longrightarrow> plain c"
  by (auto simp: num_char_def plain_def code_def ascii_digit_def)

lemma plain_dumps_False:
  assumes "list_all plain i" and "list_all plain k"
  shows "wf_json j \<Longrightarrow> list_all plain (dumps i k False j)"
proof (induction j)
  case (JObj kvs)
  have "list_all plain (member_text i k kv)" if "kv \<in> set kvs" for kv
    using JObj.prems that JObj.IH [OF that, of "snd kv"] assms plain_quote
    by (cases kv) (auto simp: list_all_iff member_text_def)
  then have "list_all plain (join i (map (member_text i k) kvs))"
    by (intro plain_join assms) (simp add: list_all_iff)
  moreover have "plain (CHR ''{'')" and "plain (CHR ''}'')" by (simp_all add: plain_def code_def)
  ultimately show ?case by (simp del: dumps.simps add: dumps_obj)
next
  case (JArr xs)
  then have "list_all plain (join i (map (dumps i k False) xs))"
    by (intro plain_join assms) (simp add: list_all_iff)
  moreover have "plain (CHR ''['')" and "plain (CHR '']'')" by (simp_all add: plain_def code_def)
  ultimately show ?case by simp
next
  case (JFloat q)
  then show ?case by (auto simp: float_ok_def list_all_iff plain_num)
next
  case (JInt n)
  have "plain (CHR ''-'')" by (simp add: plain_def code_def)
  then have "plain c" if "c \<in> set (str_of_int n)" for c
    using str_of_int_chars [OF that] plain_digit by blast
  then show ?case by (simp add: list_all_iff)
qed (auto simp: plain_quote, auto simp: plain_def code_def)

lemma plain_dumps:
  assumes "list_all plain i" and "list_all plain k" and "wf_json j"
  shows "list_all plain (dumps i k srt j)"
  unfolding dumps_sort_if [of i k srt] by (intro plain_dumps_False assms wf_sort_if)

section \<open>One interface for both text forms\<close>

text \<open>
  A codec renders a value on one line of printable ASCII, which reads back as the value in its
  sorted form. Its clients, the index and the line files of a run, keep one text per line.
\<close>

locale json_codec =
  fixes render :: "json \<Rightarrow> string" and norm :: "json \<Rightarrow> json"
  assumes loads_render: "wf_json j \<Longrightarrow> loads (render j) = Some (norm j)"
    and render_plain: "wf_json j \<Longrightarrow> list_all plain (render j)"
begin

lemma render_inject:
  "wf_json a \<Longrightarrow> wf_json b \<Longrightarrow> render a = render b \<Longrightarrow> norm a = norm b"
  by (metis loads_render option.inject)

lemma render_avoids: "wf_json j \<Longrightarrow> \<not> plain c \<Longrightarrow> c \<notin> set (render j)"
  using render_plain [of j] by (auto simp: list_all_iff)

lemma render_not_Nil: "wf_json j \<Longrightarrow> render j \<noteq> []"
proof
  assume "wf_json j" and "render j = []"
  then have "loads [] = Some (norm j)" using loads_render [of j] by simp
  moreover have "loads [] = None"
    by (simp add: loads_def skip_ws_def startswith_def pnum_def num_value_def)
  ultimately show False by simp
qed

lemma lines_split:
  "list_all wf_json js \<Longrightarrow>
   split_on NL (concat (map (\<lambda>j. render j @ [NL]) js)) = map render js @ [[]]"
proof (induction js)
  case (Cons j js)
  have "NL \<notin> set (render j)" using Cons.prems by (intro render_avoids) (simp_all add: plain_def code_def)
  with Cons show ?case by (simp add: split_on_append_sep)
qed simp

lemma lines_loads:
  "list_all wf_json js \<Longrightarrow> map loads (map render js) = map (\<lambda>j. Some (norm j)) js"
  by (induction js) (simp_all add: loads_render)

end

interpretation canon: json_codec canonical_json jsort
proof unfold_locales
  fix j assume j: "wf_json j"
  have "seps '','' '':''" by (simp add: seps_def is_ws_def startswith_def)
  from loads_dumps [OF this j, of True] show "loads (canonical_json j) = Some (jsort j)"
    by (simp add: canonical_json_def sort_if_def)
  show "list_all plain (canonical_json j)"
    unfolding canonical_json_def by (intro plain_dumps j) (simp_all add: plain_def code_def)
qed

interpretation line: json_codec line_json jsort
proof unfold_locales
  fix j assume j: "wf_json j"
  have "seps '', '' '': ''" by (simp add: seps_def is_ws_def startswith_def)
  from loads_dumps [OF this j, of True] show "loads (line_json j) = Some (jsort j)"
    by (simp add: line_json_def sort_if_def)
  show "list_all plain (line_json j)"
    unfolding line_json_def by (intro plain_dumps j) (simp_all add: plain_def code_def)
qed

section \<open>The fuel of \<open>loads\<close> is enough\<close>

lemma skip_ws_le: "length (skip_ws s) \<le> length s"
  by (simp add: skip_ws_def length_dropWhile_le)

lemma pstr_consumes: "pstr s = Some (t, r) \<Longrightarrow> length r < length s"
proof (induction "length s" arbitrary: s t r rule: less_induct)
  case less
  show ?case
  proof (cases s)
    case Nil
    with less.prems show ?thesis by simp
  next
    case s: (Cons c s1)
    have step: "length q < length s1" if "pstr s' = Some (u, q)" "length s' \<le> length s1" for s' u q
      using less.hyps [OF _ that(1)] that(2) s by simp
    show ?thesis
    proof (cases "c = CHR 0x5C")
      case False
      with less.prems s step [of s1] show ?thesis by (auto split: if_splits)
    next
      case esc: True
      show ?thesis
      proof (cases s1)
        case Nil
        with less.prems s esc show ?thesis by simp
      next
        case s1: (Cons e s2)
        show ?thesis
        proof (cases "e = CHR ''u''")
          case False
          with less.prems s s1 esc step [of s2] show ?thesis by (auto split: option.splits)
        next
          case True
          with less.prems s s1 esc obtain a b h l s3 u where "s2 = a # b # h # l # s3" "pstr s3 = Some (u, r)"
            by (auto split: list.splits if_splits)
          with s s1 step [of s3] show ?thesis by simp
        qed
      qed
    qed
  qed
qed

lemma pnum_consumes: assumes "pnum s = Some (v, r)" shows "length r < length s"
proof -
  have "num_value [] = None" by (simp add: num_value_def Let_def startswith_def)
  with assms have "takeWhile num_char s \<noteq> []" by (auto simp: pnum_def)
  then have "s \<noteq> [] \<and> num_char (hd s)" by (cases s) (auto split: if_splits)
  with assms show ?thesis by (cases s) (auto simp: pnum_def length_dropWhile_le le_imp_less_Suc)
qed

text \<open>A parser that reads a text reads it with as much fuel as the characters it takes.\<close>

definition frugal :: "(nat \<Rightarrow> string \<Rightarrow> ('a \<times> string) option) \<Rightarrow> string \<Rightarrow> string \<Rightarrow> 'a \<Rightarrow> bool" where
  "frugal p s r v \<longleftrightarrow> length r < length s \<and> (\<forall>f. length s - length r \<le> f \<longrightarrow> p f s = Some (v, r))"

lemma frugalI: "length r < length s \<Longrightarrow> (\<And>f. length s - length r \<le> Suc f \<Longrightarrow> p (Suc f) s = Some (v, r)) \<Longrightarrow> frugal p s r v"
  unfolding frugal_def by (metis Suc_pred diff_is_0_eq leD le_zero_eq neq0_conv)

lemma frugal_less: "frugal p s r v \<Longrightarrow> length r < length s"
  by (simp add: frugal_def)

lemma frugal_run: "frugal p s r v \<Longrightarrow> length s - length r \<le> f \<Longrightarrow> p f s = Some (v, r)"
  by (simp add: frugal_def)

lemma fuel_enough:
  "pval F s = Some (v, r) \<Longrightarrow> frugal pval s r v"
  "pelems F s = Some (xs, r) \<Longrightarrow> frugal pelems s r xs"
  "pmembers F s = Some (kvs, r) \<Longrightarrow> frugal pmembers s r kvs"
proof (induction F s and F s and F s arbitrary: v r and xs r and kvs r rule: pval_pelems_pmembers.induct)
  case (2 F s)
  let ?r = "skip_ws (drop 1 s)"
  have shorter: "c \<noteq> [] \<Longrightarrow> startswith s c \<Longrightarrow> length ?r < length s" for c
    using skip_ws_le [of "drop 1 s"] by (cases s) (auto simp: startswith_def)
  consider (str) "startswith s [CHR 0x22]"
    | (obj) "\<not> startswith s [CHR 0x22]" "startswith s ''{''"
    | (arr) "\<not> startswith s [CHR 0x22]" "\<not> startswith s ''{''" "startswith s ''[''"
    | (word) "\<not> startswith s [CHR 0x22]" "\<not> startswith s ''{''" "\<not> startswith s ''[''" by blast
  then show ?case
  proof cases
    case str
    with 2(3) obtain t where t: "pstr (drop 1 s) = Some (t, r)" "v = JStr t" by auto
    show ?thesis
      by (rule frugalI) (use str t pstr_consumes [OF t(1)] in \<open>auto simp: startswith_def\<close>)
  next
    case obj
    show ?thesis
    proof (cases "startswith ?r ''}''")
      case True
      with obj 2(3) have "r = drop 1 ?r" "v = JObj []" by (auto simp: Let_def)
      with obj True shorter [OF _ obj(2)] show ?thesis by (intro frugalI) (auto simp: Let_def)
    next
      case False
      with obj 2(3) obtain kvs where kvs: "pmembers F ?r = Some (kvs, r)" "v = JObj (dict_of kvs)" by (auto simp: Let_def)
      with 2(1) obj False have fr: "frugal pmembers ?r r kvs" by simp
      show ?thesis
        by (rule frugalI)
          (use obj False kvs fr frugal_less [OF fr] frugal_run [OF fr] shorter [OF _ obj(2)] in \<open>auto simp: Let_def\<close>)
    qed
  next
    case arr
    show ?thesis
    proof (cases "startswith ?r '']''")
      case True
      with arr 2(3) have "r = drop 1 ?r" "v = JArr []" by (auto simp: Let_def)
      with arr True shorter [OF _ arr(3)] show ?thesis by (intro frugalI) (auto simp: Let_def)
    next
      case False
      with arr 2(3) obtain xs where xs: "pelems F ?r = Some (xs, r)" "v = JArr xs" by (auto simp: Let_def)
      with 2(2) arr False have fr: "frugal pelems ?r r xs" by simp
      show ?thesis
        by (rule frugalI)
          (use arr False xs fr frugal_less [OF fr] frugal_run [OF fr] shorter [OF _ arr(3)] in \<open>auto simp: Let_def\<close>)
    qed
  next
    case word
    have "length r < length s"
      using 2(3) word pnum_consumes [of s v r] by (cases s) (auto simp: startswith_def split: if_splits)
    then show ?thesis by (rule frugalI) (use 2(3) word in simp)
  qed
next
  case (4 F s)
  from 4(3) obtain x q where x: "pval F s = Some (x, q)" by (auto split: option.splits)
  note fx = 4(1) [OF x]
  let ?r = "skip_ws q"
  have shorter: "length ?r \<le> length q" by (rule skip_ws_le)
  show ?case
  proof (cases "startswith ?r '',''")
    case True
    let ?n = "skip_ws (drop 1 ?r)"
    from 4(3) x True obtain ys where ys: "pelems F ?n = Some (ys, r)" "xs = x # ys" by (auto simp: Let_def)
    note fy = 4(2) [OF x refl refl True ys(1)]
    have n: "length ?n < length q"
      using shorter True skip_ws_le [of "drop 1 ?r"] by (cases ?r) (auto simp: startswith_def)
    show ?thesis
      by (rule frugalI)
        (use x ys True n frugal_less [OF fx] frugal_less [OF fy] frugal_run [OF fx] frugal_run [OF fy] in \<open>auto simp: Let_def\<close>)
  next
    case False
    with 4(3) x have close: "startswith ?r '']''" "r = drop 1 ?r" "xs = [x]" by (auto simp: Let_def split: if_splits)
    then have "length r < length q" using shorter by (cases ?r) (auto simp: startswith_def)
    then show ?thesis
      by (intro frugalI) (use x False close frugal_less [OF fx] frugal_run [OF fx] in \<open>auto simp: Let_def\<close>)
  qed
next
  case (6 F s)
  from 6(3) obtain k q where k: "startswith s [CHR 0x22]" "pstr (drop 1 s) = Some (k, q)"
    by (auto split: if_splits option.splits)
  let ?c = "skip_ws q"
  from 6(3) k have colon: "startswith ?c '':''" by (auto simp: Let_def split: if_splits)
  let ?v = "skip_ws (drop 1 ?c)"
  from 6(3) k colon obtain x t where x: "pval F ?v = Some (x, t)" by (auto simp: Let_def split: option.splits)
  have "\<not> \<not> startswith s [CHR 0x22]" "\<not> \<not> startswith ?c '':''" using k colon by simp_all
  note fx = 6(1) [OF this(1) k(2) refl refl this(2) x] and rest = 6(2) [OF this(1) k(2) refl refl this(2) x refl refl]
  have v: "length ?v < length q"
    using colon skip_ws_le [of q] skip_ws_le [of "drop 1 ?c"] by (cases ?c) (auto simp: startswith_def)
  have q: "length q < length s" using pstr_consumes [OF k(2)] by simp
  let ?r = "skip_ws t"
  have shorter: "length ?r \<le> length t" by (rule skip_ws_le)
  show ?case
  proof (cases "startswith ?r '',''")
    case True
    let ?n = "skip_ws (drop 1 ?r)"
    from 6(3) k colon x True obtain ys where ys: "pmembers F ?n = Some (ys, r)" "kvs = (k, x) # ys" by (auto simp: Let_def)
    note fy = rest [OF True ys(1)]
    have n: "length ?n < length t"
      using shorter True skip_ws_le [of "drop 1 ?r"] by (cases ?r) (auto simp: startswith_def)
    show ?thesis
      by (rule frugalI)
        (use k colon ys True v q n frugal_less [OF fx] frugal_less [OF fy] frugal_run [OF fx] frugal_run [OF fy] in \<open>auto simp: Let_def\<close>)
  next
    case False
    with 6(3) k colon x have close: "startswith ?r ''}''" "r = drop 1 ?r" "kvs = [(k, x)]" by (auto simp: Let_def split: if_splits)
    then have "length r < length t" using shorter by (cases ?r) (auto simp: startswith_def)
    then show ?thesis
      by (intro frugalI) (use k colon v q False close frugal_less [OF fx] frugal_run [OF fx] in \<open>auto simp: Let_def\<close>)
  qed
qed simp_all

text \<open>Whatever fuel reads a text, the fuel \<open>loads\<close> has reads it, and to the same value.\<close>

lemma loads_complete:
  assumes "pval F (skip_ws s) = Some (v, r)" and "skip_ws r = []"
  shows "loads s = Some v"
proof -
  have "pval (Suc (length s)) (skip_ws s) = Some (v, r)"
    using frugal_run [OF fuel_enough(1) [OF assms(1)], of "Suc (length s)"] skip_ws_le [of s] by simp
  with assms(2) show ?thesis by (simp add: loads_def)
qed

end
