(* ===== verification/Json_Pretty.thy ===== *)
theory Json_Pretty
  imports Json_Roundtrip
begin

text \<open>
  \<open>json.dumps(obj, indent=2, sort_keys=True)\<close>, the form of every file a store or a queue rewrites
  (\<open>atomic_write_json\<close>), and its round trip through \<open>loads\<close>: what is saved is what is loaded.
\<close>

definition nl_indent :: "nat \<Rightarrow> string" where
  "nl_indent n = NL # replicate n (CHR '' '')"

fun pretty :: "nat \<Rightarrow> json \<Rightarrow> string" where
  "pretty n (JArr xs) =
     (if xs = [] then ''[]''
      else CHR ''['' # nl_indent (n + 2) @ join (CHR '','' # nl_indent (n + 2)) (map (pretty (n + 2)) xs)
        @ nl_indent n @ '']'')"
| "pretty n (JObj kvs) =
     (if kvs = [] then ''{}''
      else CHR ''{'' # nl_indent (n + 2)
        @ join (CHR '','' # nl_indent (n + 2))
            (map (\<lambda>kv. quote (fst kv) @ '': '' @ pretty (n + 2) (snd kv)) kvs)
        @ nl_indent n @ ''}'')"
| "pretty n JNull = ''null''"
| "pretty n (JBool b) = (if b then ''true'' else ''false'')"
| "pretty n (JInt i) = str_of_int i"
| "pretty n (JFloat q) = float_repr q"
| "pretty n (JStr s) = quote s"

definition pretty_json :: "json \<Rightarrow> string" where
  "pretty_json j = pretty 0 (jsort j) @ [NL]"

section \<open>Texts that read back\<close>

definition reads_as :: "string \<Rightarrow> json \<Rightarrow> bool" where
  "reads_as t j \<longleftrightarrow> (\<exists>c s. t = c # s \<and> starts_value c)
     \<and> (\<forall>f r. need j \<le> f \<longrightarrow> no_num r \<longrightarrow> pval f (t @ r) = Some (j, r))"

lemma reads_asD: "reads_as t j \<Longrightarrow> need j \<le> f \<Longrightarrow> no_num r \<Longrightarrow> pval f (t @ r) = Some (j, r)"
  by (simp add: reads_as_def)

lemma reads_as_skip: "reads_as t j \<Longrightarrow> list_all is_ws w \<Longrightarrow> skip_ws (w @ t @ r) = t @ r"
  by (auto simp: reads_as_def skip_ws_def list_all_iff starts_value_def)

lemma reads_as_not_bracket: "reads_as t j \<Longrightarrow> \<not> startswith (t @ r) '']''"
  by (auto simp: reads_as_def startswith_def starts_value_def)

lemma ws_nl_indent [simp]: "list_all is_ws (nl_indent n)"
  by (simp add: nl_indent_def is_ws_def list_all_iff)

lemma skip_ws_append: "list_all is_ws w \<Longrightarrow> skip_ws (w @ s) = skip_ws s"
  by (simp add: skip_ws_def list_all_iff)

lemma no_num_ws: "list_all is_ws u \<Longrightarrow> no_num s \<Longrightarrow> no_num (u @ s)"
  by (cases u) (auto simp: no_num_def is_ws_def num_char_def ascii_digit_def code_def)

lemma pelems_reads:
  assumes "list_all is_ws w" and "list_all is_ws u"
  shows "list_all2 reads_as ts xs \<Longrightarrow> ts \<noteq> [] \<Longrightarrow> sum_list (map (\<lambda>x. Suc (need x)) xs) \<le> f
    \<Longrightarrow> pelems f (join (CHR '','' # w) ts @ u @ CHR '']'' # r) = Some (xs, r)"
proof (induction ts xs arbitrary: f rule: list_all2_induct)
  case (Cons t ts x xs)
  obtain g where f: "f = Suc g" using Cons.prems(2) by (cases f) auto
  have nx: "need x \<le> g" using Cons.prems f by auto
  have "no_num (CHR '']'' # r)" by (simp add: no_num_punct)
  then have nu: "no_num (u @ CHR '']'' # r)" using assms(2) by (rule no_num_ws [rotated])
  show ?case
  proof (cases ts)
    case Nil
    with Cons.hyps(2) have xs: "xs = []" by simp
    have "skip_ws (u @ CHR '']'' # r) = CHR '']'' # r"
      using assms(2) by (simp add: skip_ws_append skip_non_ws punct_not_ws)
    then show ?thesis
      using reads_asD [OF Cons.hyps(1) nx nu] Nil xs by (simp add: f startswith_def Let_def)
  next
    case (Cons t' ts')
    let ?t = "join (CHR '','' # w) ts @ u @ CHR '']'' # r"
    have "pelems g ?t = Some (xs, r)" using Cons.IH [of g] Cons.prems f Cons by auto
    moreover have "skip_ws (w @ ?t) = ?t"
    proof -
      obtain x' xs' where "reads_as t' x'" using Cons.hyps(2) Cons by (cases xs) auto
      moreover obtain rest where "?t = t' @ rest" using Cons by (cases ts') auto
      ultimately show ?thesis using reads_as_skip assms(1) by metis
    qed
    moreover have "join (CHR '','' # w) (t # ts) @ u @ CHR '']'' # r = t @ CHR '','' # w @ ?t"
      using Cons by simp
    ultimately show ?thesis
      using reads_asD [OF Cons.hyps(1) nx, of "CHR '','' # w @ ?t"]
      by (simp add: f no_num_punct skip_non_ws punct_not_ws startswith_def Let_def)
  qed
qed simp

definition pair_text :: "string \<times> string \<Rightarrow> string" where
  "pair_text kt = quote (fst kt) @ '': '' @ snd kt"

lemma pmembers_reads:
  assumes "list_all is_ws w" and "list_all is_ws u"
  shows "list_all2 (\<lambda>kt kv. fst kt = fst kv \<and> reads_as (snd kt) (snd kv)) kts kvs \<Longrightarrow> kts \<noteq> []
    \<Longrightarrow> sum_list (map (\<lambda>kv. Suc (need (snd kv))) kvs) \<le> f
    \<Longrightarrow> pmembers f (join (CHR '','' # w) (map pair_text kts) @ u @ CHR ''}'' # r) = Some (kvs, r)"
proof (induction kts kvs arbitrary: f rule: list_all2_induct)
  case (Cons kt kts kv kvs)
  obtain g where f: "f = Suc g" using Cons.prems(2) by (cases f) auto
  obtain a t x where kt: "kt = (a, t)" "kv = (a, x)" "reads_as t x"
    using Cons.hyps(1) by (cases kt; cases kv) auto
  have nx: "need x \<le> g" using Cons.prems f kt by auto
  have first: "pair_text (a, t) @ s
      = CHR 0x22 # concat (map esc_char a) @ CHR 0x22 # CHR '':'' # CHR '' '' # t @ s" for s
    by (simp add: pair_text_def quote_def)
  have skv: "skip_ws (CHR '' '' # t @ s) = t @ s" for s
    using reads_as_skip [OF kt(3), of "'' ''"] by (simp add: is_ws_def)
  have "no_num (CHR ''}'' # r)" by (simp add: no_num_punct)
  then have nu: "no_num (u @ CHR ''}'' # r)" using assms(2) by (rule no_num_ws [rotated])
  show ?case
  proof (cases kts)
    case Nil
    with Cons.hyps(2) have kvs: "kvs = []" by simp
    have "skip_ws (u @ CHR ''}'' # r) = CHR ''}'' # r"
      using assms(2) by (simp add: skip_ws_append skip_non_ws punct_not_ws)
    then show ?thesis
      using reads_asD [OF kt(3) nx nu] Nil kvs
      by (simp add: f kt first pstr_quote skv skip_non_ws punct_not_ws startswith_def Let_def)
  next
    case (Cons kt' kts')
    let ?t = "join (CHR '','' # w) (map pair_text kts) @ u @ CHR ''}'' # r"
    have "pmembers g ?t = Some (kvs, r)" using Cons.IH [of g] Cons.prems f Cons by auto
    moreover have "skip_ws (w @ ?t) = ?t"
      using skip_quote [OF assms(1)] Cons by (cases kts') (simp_all add: pair_text_def quote_def)
    moreover have "join (CHR '','' # w) (map pair_text (kt # kts)) @ u @ CHR ''}'' # r
        = pair_text (a, t) @ CHR '','' # w @ ?t"
      using Cons kt by simp
    ultimately show ?thesis
      using reads_asD [OF kt(3) nx, of "CHR '','' # w @ ?t"]
      by (simp add: f first pstr_quote skv no_num_punct skip_non_ws punct_not_ws startswith_def Let_def kt)
  qed
qed simp

lemma reads_as_atom:
  assumes "wf_json j" and "\<And>xs. j \<noteq> JArr xs" and "\<And>kvs. j \<noteq> JObj kvs"
  shows "reads_as (pretty n j) j"
proof -
  have "seps '','' '':''" by (simp add: seps_def startswith_def)
  from reads_back_dumps [OF this assms(1)]
  have "reads_back '','' '':'' j" .
  moreover have "pretty n j = dumps '','' '':'' False j" using assms(2,3) by (cases j) auto
  moreover have "\<exists>c s. dumps '','' '':'' False j = c # s \<and> starts_value c"
    using dumps_head [OF assms(1), of "'',''" "'':''"] by (cases "dumps '','' '':'' False j") auto
  ultimately show ?thesis by (simp add: reads_as_def reads_back_def)
qed

lemma reads_as_pretty: "wf_json j \<Longrightarrow> reads_as (pretty n j) j"
proof (induction j arbitrary: n)
  case (JArr xs)
  show ?case
  proof (cases "xs = []")
    case True
    then show ?thesis
      by (auto simp: reads_as_def starts_value_def is_ws_def startswith_def skip_non_ws punct_not_ws Suc_le_eq gr0_conv_Suc)
  next
    case False
    let ?ts = "map (pretty (n + 2)) xs" and ?w = "nl_indent (n + 2)"
    have all: "list_all2 reads_as ?ts xs"
      using JArr by (auto simp: list_all2_conv_all_nth list_all_length)
    have "pval f (pretty n (JArr xs) @ r) = Some (JArr xs, r)" if f: "need (JArr xs) \<le> f" for f r
    proof -
      obtain g where g: "f = Suc g" "sum_list (map (\<lambda>x. Suc (need x)) xs) \<le> g"
        using f by (cases f) auto
      let ?t = "join (CHR '','' # ?w) ?ts @ nl_indent n @ CHR '']'' # r"
      obtain t ts x xs' where t: "?ts = t # ts" "reads_as t x" using all False by (cases xs) auto
      obtain rest where "?t = t @ rest" using t by (cases ts) auto
      then have "skip_ws (?w @ ?t) = ?t" and "\<not> startswith ?t '']''"
        using reads_as_skip [OF t(2) ws_nl_indent] reads_as_not_bracket [OF t(2)] by metis+
      moreover have "pelems g ?t = Some (xs, r)"
        using pelems_reads [OF ws_nl_indent ws_nl_indent all _ g(2)] False by simp
      moreover have "pretty n (JArr xs) @ r = CHR ''['' # ?w @ ?t" using False by simp
      ultimately show ?thesis
        by (simp add: g startswith_def [of "CHR ''['' # _"] Let_def del: pretty.simps)
    qed
    then show ?thesis using False by (auto simp: reads_as_def starts_value_def is_ws_def)
  qed
next
  case (JObj kvs)
  show ?case
  proof (cases "kvs = []")
    case True
    then show ?thesis
      by (auto simp: reads_as_def starts_value_def is_ws_def startswith_def skip_non_ws punct_not_ws Suc_le_eq gr0_conv_Suc)
  next
    case False
    let ?kts = "map (\<lambda>kv. (fst kv, pretty (n + 2) (snd kv))) kvs" and ?w = "nl_indent (n + 2)"
    have sub: "reads_as (pretty (n + 2) (snd kv)) (snd kv)" if "kv \<in> set kvs" for kv
      using JObj.prems that JObj.IH [OF that, of "snd kv"] by (cases kv) (auto simp: list_all_iff)
    have all: "list_all2 (\<lambda>kt kv. fst kt = fst kv \<and> reads_as (snd kt) (snd kv)) ?kts kvs"
      using sub by (auto simp: list_all2_conv_all_nth)
    have "pval f (pretty n (JObj kvs) @ r) = Some (JObj kvs, r)" if f: "need (JObj kvs) \<le> f" for f r
    proof -
      obtain g where g: "f = Suc g" "sum_list (map (\<lambda>kv. Suc (need (snd kv))) kvs) \<le> g"
        using f by (cases f) auto
      let ?t = "join (CHR '','' # ?w) (map pair_text ?kts) @ nl_indent n @ CHR ''}'' # r"
      obtain u where u: "?t = CHR 0x22 # u"
        using False by (cases kvs; cases "tl kvs") (auto simp: pair_text_def quote_def)
      then have "skip_ws (?w @ ?t) = ?t" and "\<not> startswith ?t ''}''"
        using skip_quote [OF ws_nl_indent] by (simp_all add: startswith_def)
      moreover have "pmembers g ?t = Some (kvs, r)"
        using pmembers_reads [OF ws_nl_indent ws_nl_indent all _ g(2)] False by simp
      moreover have "dict_of kvs = kvs" using JObj.prems by (simp add: dict_of_distinct)
      moreover have "pretty n (JObj kvs) @ r = CHR ''{'' # ?w @ ?t"
        using False by (simp add: comp_def pair_text_def)
      ultimately show ?thesis
        by (simp add: g startswith_def [of "CHR ''{'' # _"] Let_def del: pretty.simps)
    qed
    then show ?thesis using False by (auto simp: reads_as_def starts_value_def is_ws_def)
  qed
qed (rule reads_as_atom; simp)+

lemma need_pretty: "wf_json j \<Longrightarrow> need j \<le> length (pretty n j)"
proof (induction j arbitrary: n)
  case (JArr xs)
  have "sum_list (map (\<lambda>x. Suc (need x)) xs) \<le> sum_list (map (\<lambda>x. Suc (length (pretty (n + 2) x))) xs)"
    using JArr by (intro sum_list_mono) (auto simp: list_all_iff)
  also have "\<dots> \<le> Suc (length (join (CHR '','' # nl_indent (n + 2)) (map (pretty (n + 2)) xs)))"
    using length_join_ge [of "CHR '','' # nl_indent (n + 2)" "map (pretty (n + 2)) xs"] by (simp add: comp_def)
  finally show ?case by simp
next
  case (JObj kvs)
  let ?m = "\<lambda>kv. quote (fst kv) @ '': '' @ pretty (n + 2) (snd kv)"
  have "need (snd kv) \<le> length (?m kv)" if "kv \<in> set kvs" for kv
    using JObj.prems that JObj.IH [OF that, of "snd kv" "n + 2"] by (cases kv) (force simp: list_all_iff)
  then have "sum_list (map (\<lambda>kv. Suc (need (snd kv))) kvs) \<le> sum_list (map (\<lambda>kv. Suc (length (?m kv))) kvs)"
    by (intro sum_list_mono) auto
  also have "\<dots> \<le> Suc (length (join (CHR '','' # nl_indent (n + 2)) (map ?m kvs)))"
    using length_join_ge [of "CHR '','' # nl_indent (n + 2)" "map ?m kvs"] by (simp add: comp_def)
  finally show ?case by simp
next
  case (JFloat q)
  then show ?case by (simp add: float_ok_def Suc_le_eq)
qed (auto simp: Suc_le_eq str_of_int_def quote_def)

theorem loads_pretty: "wf_json j \<Longrightarrow> loads (pretty_json j) = Some (jsort j)"
proof -
  assume "wf_json j"
  then have wf: "wf_json (jsort j)" by (rule wf_jsort)
  let ?s = "pretty 0 (jsort j)"
  have "skip_ws (?s @ [NL]) = ?s @ [NL]"
    using reads_as_skip [OF reads_as_pretty [OF wf], of "[]"] by simp
  moreover have "pval (Suc (length (?s @ [NL]))) (?s @ [NL]) = Some (jsort j, [NL])"
    using reads_asD [OF reads_as_pretty [OF wf], of "Suc (length (?s @ [NL]))" "[NL]" 0] need_pretty [OF wf, of 0]
    by (simp add: no_num_def num_char_def ascii_digit_def code_def)
  ultimately show ?thesis by (simp add: pretty_json_def loads_def skip_ws_def is_ws_def del: pval.simps)
qed

section \<open>Reading sorted values\<close>

text \<open>Sorting the keys of an object changes no lookup.\<close>

lemma map_of_sort_key:
  assumes "distinct (map fst kvs)"
  shows "map_of (sort_key fst kvs) k = map_of kvs k"
proof -
  have "map_of (sort_key fst kvs) k = Some v \<longleftrightarrow> map_of kvs k = Some v" for v
    using assms by (simp add: distinct_sort_key)
  then show ?thesis by (cases "map_of kvs k"; cases "map_of (sort_key fst kvs) k") auto
qed

lemma map_of_jsort:
  "distinct (map fst kvs) \<Longrightarrow>
   map_of (jitems (jsort (JObj kvs))) k = map_option jsort (map_of kvs k)"
  by (simp add: map_of_sort_key comp_def map_of_map [where f = jsort, unfolded case_prod_unfold])

lemma jget_jsort: "wf_json j \<Longrightarrow> jget (jsort j) k = jsort (jget j k)"
proof (cases j)
  case (JObj kvs)
  assume "wf_json j"
  with JObj have "distinct (map fst kvs)" by simp
  from map_of_jsort [OF this, of k] show ?thesis by (simp add: JObj jget_def split: option.splits)
qed (simp_all add: jget_def)

lemma jhas_jsort [simp]: "jhas (jsort j) k \<longleftrightarrow> jhas j k"
  by (cases j) (auto simp: jhas_def image_iff)

lemma is_obj_jsort [simp]: "is_obj (jsort j) \<longleftrightarrow> is_obj j"
  by (cases j) auto

lemma truthy_jsort [simp]: "truthy (jsort j) \<longleftrightarrow> truthy j"
proof (cases j)
  case (JObj kvs)
  have "sort_key fst (map (\<lambda>kv. (fst kv, jsort (snd kv))) kvs) = [] \<longleftrightarrow> kvs = []"
    by (metis length_0_conv length_map length_sort)
  with JObj show ?thesis by simp
qed simp_all

lemma as_jsort [simp]: "as_str (jsort v) = as_str v" "as_int (jsort v) = as_int v"
    "as_opt_str (jsort v) = as_opt_str v"
  by (cases v; simp)+

lemma as_list_jsort [simp]: "as_list (jsort v) = map_option (map jsort) (as_list v)"
  by (cases v) simp_all

lemma sort_key_idem: "sort_key fst (sort_key fst xs) = sort_key fst xs"
  by (rule sort_key_id_if_sorted) simp

lemma jsort_idem [simp]: "jsort (jsort j) = jsort j"
proof (induction j)
  case (JObj kvs)
  have "map (\<lambda>kv. (fst kv, jsort (snd kv))) (map (\<lambda>kv. (fst kv, jsort (snd kv))) kvs)
      = map (\<lambda>kv. (fst kv, jsort (snd kv))) kvs"
    using JObj by (auto simp: comp_def)
  then show ?case
    by (simp add: sort_key_map sort_key_idem del: map_map)
qed simp_all

lemma canonical_json_jsort [simp]: "canonical_json (jsort j) = canonical_json j"
  by (simp add: canonical_json_def dumps_sorted)

lemma pretty_json_jsort [simp]: "pretty_json (jsort j) = pretty_json j"
  by (simp add: pretty_json_def)

lemma jsort_items_cong:
  "map fst kvs = map fst kvs' \<Longrightarrow> map (jsort \<circ> snd) kvs = map (jsort \<circ> snd) kvs'
   \<Longrightarrow> jsort (JObj kvs) = jsort (JObj kvs')"
proof -
  assume "map fst kvs = map fst kvs'" and "map (jsort \<circ> snd) kvs = map (jsort \<circ> snd) kvs'"
  then have "map (\<lambda>kv. (fst kv, jsort (snd kv))) kvs = map (\<lambda>kv. (fst kv, jsort (snd kv))) kvs'"
    by (intro nth_equalityI) (auto simp: list_eq_iff_nth_eq)
  then show ?thesis by simp
qed

end
