(* ===== verification/Regex.thy ===== *)
theory Regex
  imports Prelude
begin

text \<open>
  The regular expressions the program compiles, and Python's two ways of applying them.
  \<open>rx_fullmatch\<close> is \<open>Pattern.fullmatch\<close>, by derivatives; \<open>rx_match_dollar\<close> is
  \<open>re.match\<close> of a pattern written \<open>^...$\<close>, whose \<open>$\<close> also matches before one final
  newline. \<open>rx_matches\<close> is the language; the derivative matcher decides it.
\<close>

datatype rx =
    Zero
  | One
  | Cls "char \<Rightarrow> bool"
  | Alt rx rx
  | Cat rx rx
  | Star rx

fun nullable :: "rx \<Rightarrow> bool" where
  "nullable Zero \<longleftrightarrow> False"
| "nullable One \<longleftrightarrow> True"
| "nullable (Cls p) \<longleftrightarrow> False"
| "nullable (Alt r q) \<longleftrightarrow> nullable r \<or> nullable q"
| "nullable (Cat r q) \<longleftrightarrow> nullable r \<and> nullable q"
| "nullable (Star r) \<longleftrightarrow> True"

fun deriv :: "char \<Rightarrow> rx \<Rightarrow> rx" where
  "deriv c Zero = Zero"
| "deriv c One = Zero"
| "deriv c (Cls p) = (if p c then One else Zero)"
| "deriv c (Alt r q) = Alt (deriv c r) (deriv c q)"
| "deriv c (Cat r q) =
     (if nullable r then Alt (Cat (deriv c r) q) (deriv c q) else Cat (deriv c r) q)"
| "deriv c (Star r) = Cat (deriv c r) (Star r)"

fun rx_fullmatch :: "rx \<Rightarrow> string \<Rightarrow> bool" where
  "rx_fullmatch r [] = nullable r"
| "rx_fullmatch r (c # s) = rx_fullmatch (deriv c r) s"

definition rx_match_dollar :: "rx \<Rightarrow> string \<Rightarrow> bool" where
  "rx_match_dollar r s \<longleftrightarrow>
     rx_fullmatch r s \<or> (s \<noteq> [] \<and> last s = NL \<and> rx_fullmatch r (butlast s))"

text \<open>The repetitions of the source's patterns: \<open>r+\<close>, \<open>r?\<close>, \<open>r{n}\<close>, \<open>r{m,n}\<close>, \<open>r{m,}\<close>.\<close>

definition Plus :: "rx \<Rightarrow> rx" where
  "Plus r = Cat r (Star r)"

definition Opt :: "rx \<Rightarrow> rx" where
  "Opt r = Alt One r"

fun Rep :: "nat \<Rightarrow> rx \<Rightarrow> rx" where
  "Rep 0 r = One"
| "Rep (Suc n) r = Cat r (Rep n r)"

fun RepUpTo :: "nat \<Rightarrow> rx \<Rightarrow> rx" where
  "RepUpTo 0 r = One"
| "RepUpTo (Suc n) r = Alt One (Cat r (RepUpTo n r))"

definition RepRange :: "nat \<Rightarrow> nat \<Rightarrow> rx \<Rightarrow> rx" where
  "RepRange m n r = Cat (Rep m r) (RepUpTo (n - m) r)"

fun Lit :: "string \<Rightarrow> rx" where
  "Lit [] = One"
| "Lit (c # s) = Cat (Cls (\<lambda>x. x = c)) (Lit s)"

fun AnyOf :: "rx list \<Rightarrow> rx" where
  "AnyOf [] = Zero"
| "AnyOf (r # rs) = Alt r (AnyOf rs)"

text \<open>Character classes.\<close>

definition lower_az :: "char \<Rightarrow> bool" where
  "lower_az c \<longleftrightarrow> 97 \<le> code c \<and> code c \<le> 122"

definition upper_az :: "char \<Rightarrow> bool" where
  "upper_az c \<longleftrightarrow> 65 \<le> code c \<and> code c \<le> 90"

definition alnum :: "char \<Rightarrow> bool" where
  "alnum c \<longleftrightarrow> lower_az c \<or> upper_az c \<or> ascii_digit c"

definition graphic :: "char \<Rightarrow> bool" where
  "graphic c \<longleftrightarrow> 33 \<le> code c \<and> code c \<le> 126"

section \<open>The language, and the matcher decides it\<close>

inductive rx_matches :: "rx \<Rightarrow> string \<Rightarrow> bool" where
  one: "rx_matches One []"
| cls: "p c \<Longrightarrow> rx_matches (Cls p) [c]"
| alt1: "rx_matches r s \<Longrightarrow> rx_matches (Alt r q) s"
| alt2: "rx_matches q s \<Longrightarrow> rx_matches (Alt r q) s"
| cat: "rx_matches r s \<Longrightarrow> rx_matches q t \<Longrightarrow> rx_matches (Cat r q) (s @ t)"
| star_nil: "rx_matches (Star r) []"
| star_cons: "rx_matches r s \<Longrightarrow> rx_matches (Star r) t \<Longrightarrow> rx_matches (Star r) (s @ t)"

inductive_simps matches_simps [simp]:
  "rx_matches Zero s"
  "rx_matches One s"
  "rx_matches (Cls p) s"
  "rx_matches (Alt r q) s"

inductive_cases matches_catE: "rx_matches (Cat r q) s"

lemma matches_cat:
  "rx_matches (Cat r q) s \<longleftrightarrow> (\<exists>u v. s = u @ v \<and> rx_matches r u \<and> rx_matches q v)"
proof
  assume "rx_matches (Cat r q) s"
  then show "\<exists>u v. s = u @ v \<and> rx_matches r u \<and> rx_matches q v"
    by (rule matches_catE) blast
qed (auto intro: rx_matches.cat)

lemma matches_cat_Cls:
  "rx_matches (Cat (Cls p) q) s \<longleftrightarrow> (\<exists>c t. s = c # t \<and> p c \<and> rx_matches q t)"
proof
  assume "\<exists>c t. s = c # t \<and> p c \<and> rx_matches q t"
  then obtain c t where s: "s = c # t" "p c" "rx_matches q t" by blast
  then show "rx_matches (Cat (Cls p) q) s" using rx_matches.cat [of "Cls p" "[c]" q t] by simp
qed (auto simp: matches_cat)

lemma nullable_iff: "nullable r \<longleftrightarrow> rx_matches r []"
  by (induction r) (auto simp: matches_cat intro: rx_matches.intros)

lemma star_cons_split:
  "rx_matches (Star r) s \<Longrightarrow> s = c # t \<Longrightarrow>
     \<exists>u v. t = u @ v \<and> rx_matches r (c # u) \<and> rx_matches (Star r) v"
proof (induction "Star r" s arbitrary: r c t rule: rx_matches.induct)
  case star_nil
  then show ?case by simp
next
  case (star_cons r s u)
  then show ?case by (cases s) auto
qed

lemma deriv_iff: "rx_matches (deriv c r) s \<longleftrightarrow> rx_matches r (c # s)"
proof (induction r arbitrary: s)
  case (Cat r q)
  have "rx_matches (Cat r q) (c # s) \<longleftrightarrow>
      (\<exists>u v. s = u @ v \<and> rx_matches r (c # u) \<and> rx_matches q v) \<or>
      (rx_matches r [] \<and> rx_matches q (c # s))"
    by (auto simp: matches_cat Cons_eq_append_conv)
  with Cat show ?case by (auto simp: matches_cat nullable_iff)
next
  case (Star r)
  have "rx_matches (Star r) (c # s) \<longleftrightarrow>
      (\<exists>u v. s = u @ v \<and> rx_matches r (c # u) \<and> rx_matches (Star r) v)"
  proof
    assume "rx_matches (Star r) (c # s)"
    then show "\<exists>u v. s = u @ v \<and> rx_matches r (c # u) \<and> rx_matches (Star r) v"
      by (rule star_cons_split) simp
  next
    assume "\<exists>u v. s = u @ v \<and> rx_matches r (c # u) \<and> rx_matches (Star r) v"
    then obtain u v where "s = u @ v" "rx_matches r (c # u)" "rx_matches (Star r) v" by blast
    then show "rx_matches (Star r) (c # s)"
      using rx_matches.star_cons [of r "c # u" v] by simp
  qed
  with Star show ?case by (simp add: matches_cat)
qed auto

theorem rx_fullmatch_iff: "rx_fullmatch r s \<longleftrightarrow> rx_matches r s"
  by (induction s arbitrary: r) (auto simp: nullable_iff deriv_iff)

section \<open>Shapes\<close>

lemma matches_Rep_Cls:
  "rx_matches (Rep n (Cls p)) s \<longleftrightarrow> length s = n \<and> list_all p s"
proof (induction n arbitrary: s)
  case (Suc n)
  then show ?case by (cases s) (simp_all add: matches_cat_Cls, blast)
qed auto

lemma matches_Star_Cls: "rx_matches (Star (Cls p)) s \<longleftrightarrow> list_all p s"
proof
  assume "rx_matches (Star (Cls p)) s"
  then show "list_all p s"
    by (induction "Star (Cls p)" s rule: rx_matches.induct) auto
next
  assume "list_all p s"
  then show "rx_matches (Star (Cls p)) s"
  proof (induction s)
    case (Cons c s)
    then show ?case using rx_matches.star_cons [of "Cls p" "[c]" s] by simp
  qed (simp add: rx_matches.star_nil)
qed

lemma matches_Lit: "rx_matches (Lit p) s \<longleftrightarrow> s = p"
  by (induction p arbitrary: s) (auto simp: matches_cat_Cls)

lemma fullmatch_Rep_Cls: "rx_fullmatch (Rep n (Cls p)) s \<longleftrightarrow> length s = n \<and> list_all p s"
  by (simp add: rx_fullmatch_iff matches_Rep_Cls)

lemma fullmatch_Plus_Cls: "rx_fullmatch (Plus (Cls p)) s \<longleftrightarrow> s \<noteq> [] \<and> list_all p s"
by (cases s) (auto simp: rx_fullmatch_iff Plus_def matches_cat_Cls matches_Star_Cls)

text \<open>A pattern none of whose classes holds a character matches no text that holds it.\<close>

fun rx_avoids :: "char \<Rightarrow> rx \<Rightarrow> bool" where
  "rx_avoids c Zero \<longleftrightarrow> True"
| "rx_avoids c One \<longleftrightarrow> True"
| "rx_avoids c (Cls p) \<longleftrightarrow> \<not> p c"
| "rx_avoids c (Alt r q) \<longleftrightarrow> rx_avoids c r \<and> rx_avoids c q"
| "rx_avoids c (Cat r q) \<longleftrightarrow> rx_avoids c r \<and> rx_avoids c q"
| "rx_avoids c (Star r) \<longleftrightarrow> rx_avoids c r"

lemma matches_avoids: "rx_matches r s \<Longrightarrow> rx_avoids c r \<Longrightarrow> c \<notin> set s"
  by (induction rule: rx_matches.induct) auto

lemma fullmatch_avoids: "rx_fullmatch r s \<Longrightarrow> rx_avoids c r \<Longrightarrow> c \<notin> set s"
  by (simp add: rx_fullmatch_iff matches_avoids)

lemma avoids_Rep [simp]: "rx_avoids c r \<Longrightarrow> rx_avoids c (Rep n r)"
  by (induction n) auto

lemma avoids_RepUpTo [simp]: "rx_avoids c r \<Longrightarrow> rx_avoids c (RepUpTo n r)"
  by (induction n) auto

lemma avoids_Lit [simp]: "rx_avoids c (Lit p) \<longleftrightarrow> c \<notin> set p"
  by (induction p) auto

end
