(* ===== verification/Sha256.thy ===== *)
theory Sha256
  imports Prelude
begin

unbundle bit_operations_syntax

text \<open>
  SHA-256 as \<open>hashlib.sha256\<close> computes it (FIPS 180-4), on lists of bytes, and its lowercase
  hexadecimal digest. Every id, seed and event hash of the program is a digest, so the ids are
  functions of this definition and not of an uninterpreted symbol. What the program relies on
  is the shape of a digest: 64 lowercase hexadecimal characters, of which it keeps prefixes.
  \<open>utf8\<close> is \<open>str.encode\<close> on code points below 256.
\<close>

type_synonym byte = "8 word"
type_synonym word32 = "32 word"

section \<open>The compression function\<close>

definition sha_K :: "word32 list" where
  "sha_K =
    [0x428A2F98, 0x71374491, 0xB5C0FBCF, 0xE9B5DBA5, 0x3956C25B, 0x59F111F1,
     0x923F82A4, 0xAB1C5ED5, 0xD807AA98, 0x12835B01, 0x243185BE, 0x550C7DC3,
     0x72BE5D74, 0x80DEB1FE, 0x9BDC06A7, 0xC19BF174, 0xE49B69C1, 0xEFBE4786,
     0x0FC19DC6, 0x240CA1CC, 0x2DE92C6F, 0x4A7484AA, 0x5CB0A9DC, 0x76F988DA,
     0x983E5152, 0xA831C66D, 0xB00327C8, 0xBF597FC7, 0xC6E00BF3, 0xD5A79147,
     0x06CA6351, 0x14292967, 0x27B70A85, 0x2E1B2138, 0x4D2C6DFC, 0x53380D13,
     0x650A7354, 0x766A0ABB, 0x81C2C92E, 0x92722C85, 0xA2BFE8A1, 0xA81A664B,
     0xC24B8B70, 0xC76C51A3, 0xD192E819, 0xD6990624, 0xF40E3585, 0x106AA070,
     0x19A4C116, 0x1E376C08, 0x2748774C, 0x34B0BCB5, 0x391C0CB3, 0x4ED8AA4A,
     0x5B9CCA4F, 0x682E6FF3, 0x748F82EE, 0x78A5636F, 0x84C87814, 0x8CC70208,
     0x90BEFFFA, 0xA4506CEB, 0xBEF9A3F7, 0xC67178F2]"

definition sha_H0 :: "word32 list" where
  "sha_H0 =
    [0x6A09E667, 0xBB67AE85, 0x3C6EF372, 0xA54FF53A, 0x510E527F, 0x9B05688C,
     0x1F83D9AB, 0x5BE0CD19]"

definition rotr32 :: "nat \<Rightarrow> word32 \<Rightarrow> word32" where
  "rotr32 n x = word_rotr n x"

definition sha_ch :: "word32 \<Rightarrow> word32 \<Rightarrow> word32 \<Rightarrow> word32" where
  "sha_ch x y z = (x AND y) XOR (NOT x AND z)"

definition sha_maj :: "word32 \<Rightarrow> word32 \<Rightarrow> word32 \<Rightarrow> word32" where
  "sha_maj x y z = (x AND y) XOR (x AND z) XOR (y AND z)"

definition sha_S0 :: "word32 \<Rightarrow> word32" where
  "sha_S0 x = rotr32 2 x XOR rotr32 13 x XOR rotr32 22 x"

definition sha_S1 :: "word32 \<Rightarrow> word32" where
  "sha_S1 x = rotr32 6 x XOR rotr32 11 x XOR rotr32 25 x"

definition sha_s0 :: "word32 \<Rightarrow> word32" where
  "sha_s0 x = rotr32 7 x XOR rotr32 18 x XOR drop_bit 3 x"

definition sha_s1 :: "word32 \<Rightarrow> word32" where
  "sha_s1 x = rotr32 17 x XOR rotr32 19 x XOR drop_bit 10 x"

text \<open>The message schedule: sixteen words of the block, extended to sixty-four.\<close>

definition sha_next_w :: "word32 list \<Rightarrow> word32" where
  "sha_next_w ws = (let n = length ws in
     sha_s1 (ws ! (n - 2)) + ws ! (n - 7) + sha_s0 (ws ! (n - 15)) + ws ! (n - 16))"

fun sha_extend :: "nat \<Rightarrow> word32 list \<Rightarrow> word32 list" where
  "sha_extend 0 ws = ws"
| "sha_extend (Suc n) ws = sha_extend n (ws @ [sha_next_w ws])"

fun sha_round :: "word32 list \<Rightarrow> word32 \<times> word32 \<Rightarrow> word32 list" where
  "sha_round [a, b, c, d, e, f, g, h] (k, w) =
     (let t1 = h + sha_S1 e + sha_ch e f g + k + w; t2 = sha_S0 a + sha_maj a b c
      in [t1 + t2, a, b, c, d + t1, e, f, g])"
| "sha_round hs _ = hs"

definition be32 :: "byte list \<Rightarrow> word32" where
  "be32 bs = foldl (\<lambda>a b. push_bit 8 a OR ucast b) 0 bs"

fun chunks :: "nat \<Rightarrow> nat \<Rightarrow> 'a list \<Rightarrow> 'a list list" where
  "chunks 0 k xs = []"
| "chunks (Suc n) k xs = take k xs # chunks n k (drop k xs)"

definition sha_block :: "word32 list \<Rightarrow> byte list \<Rightarrow> word32 list" where
  "sha_block hs block =
     (let ws = sha_extend 48 (map be32 (chunks 16 4 block))
      in map2 (+) hs (foldl sha_round hs (zip sha_K ws)))"

section \<open>Padding and the digest\<close>

fun be_bytes :: "nat \<Rightarrow> nat \<Rightarrow> byte list" where
  "be_bytes 0 x = []"
| "be_bytes (Suc n) x = be_bytes n (x div 256) @ [of_nat (x mod 256)]"

definition sha_pad :: "byte list \<Rightarrow> byte list" where
  "sha_pad m = m @ 0x80 # replicate ((119 - length m mod 64) mod 64) 0 @ be_bytes 8 (8 * length m)"

definition sha256_words :: "byte list \<Rightarrow> word32 list" where
  "sha256_words m = (let p = sha_pad m in foldl sha_block sha_H0 (chunks (length p div 64) 64 p))"

definition word_bytes :: "word32 \<Rightarrow> byte list" where
  "word_bytes w = be_bytes 4 (unat w)"

definition sha256 :: "byte list \<Rightarrow> byte list" where
  "sha256 m = concat (map word_bytes (sha256_words m))"

definition hex_byte :: "byte \<Rightarrow> string" where
  "hex_byte b = [hex_digit (unat b div 16), hex_digit (unat b mod 16)]"

definition hexdigest :: "byte list \<Rightarrow> string" where
  "hexdigest bs = concat (map hex_byte bs)"

definition utf8_char :: "char \<Rightarrow> byte list" where
  "utf8_char c = (let n = code c in
     if n < 128 then [of_nat n] else [of_nat (192 + n div 64), of_nat (128 + n mod 64)])"

definition utf8 :: "string \<Rightarrow> byte list" where
  "utf8 s = concat (map utf8_char s)"

text \<open>\<open>canon.sha256_hex\<close>, of a text and of the bytes of a file (one character a byte).\<close>

definition sha256_hex :: "string \<Rightarrow> string" where
  "sha256_hex s = hexdigest (sha256 (utf8 s))"

definition raw_bytes :: "string \<Rightarrow> byte list" where
  "raw_bytes s = map (\<lambda>c. of_nat (code c)) s"

definition sha256_hex_bytes :: "string \<Rightarrow> string" where
  "sha256_hex_bytes s = hexdigest (sha256 (raw_bytes s))"

text \<open>\<open>int(s, 16)\<close> on lowercase hexadecimal digits.\<close>

definition hex_val :: "char \<Rightarrow> nat" where
  "hex_val c = (if ascii_digit c then code c - 48 else code c - 87)"

definition nat_of_hex :: "string \<Rightarrow> nat" where
  "nat_of_hex s = foldl (\<lambda>a c. 16 * a + hex_val c) 0 s"

section \<open>The shape of a digest\<close>

lemma length_chunks [simp]: "length (chunks n k xs) = n"
  by (induction n arbitrary: xs) auto

lemma length_be_bytes [simp]: "length (be_bytes n x) = n"
  by (induction n arbitrary: x) auto

lemma length_sha_round: "length hs = 8 \<Longrightarrow> length (sha_round hs kw) = 8"
  by (cases kw, cases "(hs, kw)" rule: sha_round.cases) (auto simp: Let_def)

lemma length_sha_rounds: "length hs = 8 \<Longrightarrow> length (foldl sha_round hs kws) = 8"
  by (induction kws arbitrary: hs) (simp_all add: length_sha_round)

lemma length_sha_block: "length hs = 8 \<Longrightarrow> length (sha_block hs b) = 8"
  by (simp add: sha_block_def Let_def length_sha_rounds)

lemma length_sha_blocks: "length hs = 8 \<Longrightarrow> length (foldl sha_block hs bs) = 8"
  by (induction bs arbitrary: hs) (simp_all add: length_sha_block)

lemma length_sha256_words: "length (sha256_words m) = 8"
  unfolding sha256_words_def Let_def by (rule length_sha_blocks) (simp add: sha_H0_def)

lemma length_concat_word_bytes: "length (concat (map word_bytes ws)) = 4 * length ws"
  by (induction ws) (simp_all add: word_bytes_def)

lemma length_sha256 [simp]: "length (sha256 m) = 32"
  by (simp add: sha256_def length_concat_word_bytes length_sha256_words)

lemma hex_digit_lower: "n < 16 \<Longrightarrow> hex_lower (hex_digit n)"
  by (auto simp: hex_lower_def ascii_digit_def hex_digit_def code_def)

lemma unat_byte_less: "unat (b :: byte) < 256"
  using unsigned_less [of b] by simp

lemma hexdigest_lower: "c \<in> set (hexdigest bs) \<Longrightarrow> hex_lower c"
proof (induction bs)
  case (Cons b bs)
  have "unat b div 16 < 16" using unat_byte_less [of b] by simp
  with Cons show ?case by (auto simp: hexdigest_def hex_byte_def hex_digit_lower)
qed (simp add: hexdigest_def)

lemma length_hexdigest [simp]: "length (hexdigest bs) = 2 * length bs"
  by (induction bs) (simp_all add: hexdigest_def hex_byte_def)

text \<open>What the program asks of its hash: every digest is 64 lowercase hexadecimal characters.\<close>

locale hex_hash =
  fixes digest :: "'m \<Rightarrow> string"
  assumes length_digest: "length (digest m) = 64"
    and digest_lower: "c \<in> set (digest m) \<Longrightarrow> hex_lower c"
begin

lemma prefix_lower: "c \<in> set (take n (digest m)) \<Longrightarrow> hex_lower c"
  by (meson digest_lower in_set_takeD)

lemma length_prefix: "n \<le> 64 \<Longrightarrow> length (take n (digest m)) = n"
  by (simp add: length_digest)

lemma digest_ne_other: "length s \<noteq> 64 \<Longrightarrow> digest m \<noteq> s"
  using length_digest [of m] by auto

lemma digest_avoids: "\<not> hex_lower c \<Longrightarrow> c \<notin> set (digest m)"
  using digest_lower by blast

lemma prefix_avoids: "\<not> hex_lower c \<Longrightarrow> c \<notin> set (take n (digest m))"
  using prefix_lower by blast

lemma digest_all_lower: "list_all hex_lower (digest m)"
  by (simp add: list_all_iff digest_lower)

end

interpretation sha: hex_hash sha256_hex
  by unfold_locales (auto simp: sha256_hex_def dest: hexdigest_lower)

interpretation sha_bytes: hex_hash sha256_hex_bytes
  by unfold_locales (auto simp: sha256_hex_bytes_def dest: hexdigest_lower)

lemma hex_val_bound: "hex_lower c \<Longrightarrow> hex_val c < 16"
  by (auto simp: hex_lower_def hex_val_def ascii_digit_def)

lemma nat_of_hex_snoc: "nat_of_hex (s @ [c]) = 16 * nat_of_hex s + hex_val c"
  by (simp add: nat_of_hex_def)

lemma nat_of_hex_bound: "list_all hex_lower s \<Longrightarrow> nat_of_hex s < 16 ^ length s"
proof (induction s rule: rev_induct)
  case (snoc c s)
  then have "hex_val c < 16" and "nat_of_hex s < 16 ^ length s"
    by (simp_all add: hex_val_bound)
  then show ?case by (simp add: nat_of_hex_snoc)
qed (simp add: nat_of_hex_def)

end
