(* ===== verification/Ids.thy ===== *)
theory Ids
  imports Json_Pretty Regex Sha256
begin

text \<open>
  \<open>ids.py\<close>: the identifiers derived from published values. A key, a duel's id and an event's id
  are digests of a text whose parts do not hold its separator, so the text determines the parts;
  the texts themselves are the \<open>_text\<close> definitions, and what they determine is proved of them
  without any assumption on the hash.
\<close>

section \<open>Repositories and commits\<close>

definition repo_char :: "char \<Rightarrow> bool" where
  "repo_char c \<longleftrightarrow> alnum c \<or> c = CHR ''.'' \<or> c = CHR ''_'' \<or> c = CHR ''-''"

definition REPO_RE :: rx where
  "REPO_RE = Cat (Cat (Cls alnum) (Star (Cls repo_char)))
     (Cat (Lit ''/'') (Cat (Cls alnum) (Star (Cls repo_char))))"

definition COMMIT_SHA_RE :: rx where
  "COMMIT_SHA_RE = Rep 40 (Cls hex_lower)"

definition is_repo :: "string \<Rightarrow> bool" where
  "is_repo value \<longleftrightarrow> rx_fullmatch REPO_RE value \<and> length value \<le> 200"

definition is_commit_sha :: "string \<Rightarrow> bool" where
  "is_commit_sha value \<longleftrightarrow> rx_fullmatch COMMIT_SHA_RE value"

section \<open>References\<close>

record submission_ref =
  key :: string
  repo :: string
  revision :: string

text \<open>The text a submission is hashed under is also \<open>SubmissionRef.entry\<close>.\<close>

definition entry_text :: "string \<Rightarrow> string \<Rightarrow> string" where
  "entry_text rp rv = rp @ ''@'' @ rv"

definition entry :: "submission_ref \<Rightarrow> string" where
  "entry r = entry_text (repo r) (revision r)"

definition submission_key :: "string \<Rightarrow> string \<Rightarrow> string" where
  "submission_key rp rv = take 16 (sha256_hex (entry_text rp rv))"

definition make_ref :: "string \<Rightarrow> string \<Rightarrow> submission_ref" where
  "make_ref rp rv = \<lparr>key = submission_key rp rv, repo = rp, revision = rv\<rparr>"

datatype ref_error = Not_A_Repo string | Not_A_Commit string

definition resolved_ref :: "string \<Rightarrow> string \<Rightarrow> ref_error + submission_ref" where
  "resolved_ref rp rv =
     (if \<not> is_repo rp then Inl (Not_A_Repo rp)
      else if \<not> is_commit_sha rv then Inl (Not_A_Commit rv)
      else Inr (make_ref rp rv))"

definition ref_as_dict :: "submission_ref \<Rightarrow> json" where
  "ref_as_dict r = JObj [(''key'', JStr (key r)), (''repo'', JStr (repo r)), (''revision'', JStr (revision r))]"

text \<open>\<open>str(d[k])\<close> of the values a record holds there (strings); a missing key raises \<open>KeyError\<close>.\<close>

definition str_field :: "json \<Rightarrow> string \<Rightarrow> string option" where
  "str_field d k = as_str (jget d k)"

text \<open>\<open>from_dict\<close>: an empty or absent dict is no reference (\<open>Some None\<close>); \<open>None\<close> is the raise.\<close>

definition ref_from_dict :: "json \<Rightarrow> submission_ref option option" where
  "ref_from_dict d =
     (if \<not> truthy d then Some None
      else case (str_field d ''key'', str_field d ''repo'', str_field d ''revision'') of
          (Some k, Some rp, Some rv) \<Rightarrow> Some (Some \<lparr>key = k, repo = rp, revision = rv\<rparr>)
        | _ \<Rightarrow> None)"

section \<open>Derived ids\<close>

definition duel_text :: "int \<Rightarrow> string \<Rightarrow> submission_ref \<Rightarrow> submission_ref option \<Rightarrow> string" where
  "duel_text ver trk challenger king =
     join ''|'' [str_of_int ver, trk, key challenger, revision challenger,
       (case king of None \<Rightarrow> ''none'' | Some k \<Rightarrow> key k),
       (case king of None \<Rightarrow> ''none'' | Some k \<Rightarrow> revision k)]"

definition duel_id :: "int \<Rightarrow> string \<Rightarrow> submission_ref \<Rightarrow> submission_ref option \<Rightarrow> string" where
  "duel_id ver trk challenger king = sha256_hex (duel_text ver trk challenger king)"

definition event_text :: "string \<Rightarrow> string \<Rightarrow> int \<Rightarrow> string \<Rightarrow> string" where
  "event_text kind trk block subject = join ''|'' [''event'', kind, trk, str_of_int block, subject]"

definition event_id :: "string \<Rightarrow> string \<Rightarrow> int \<Rightarrow> string \<Rightarrow> string" where
  "event_id kind trk block subject = sha256_hex (event_text kind trk block subject)"

definition seed_text :: "string \<Rightarrow> string \<Rightarrow> nat \<Rightarrow> string" where
  "seed_text duel skill idx = join ''|'' [duel, skill, str_of_nat idx]"

definition unit_seed :: "string \<Rightarrow> string \<Rightarrow> nat \<Rightarrow> nat" where
  "unit_seed duel skill idx = nat_of_hex (take 8 (sha256_hex (seed_text duel skill idx)))"

definition unit_id :: "string \<Rightarrow> nat \<Rightarrow> string" where
  "unit_id cd idx = cd @ ''-'' @ zpad 3 idx"

section \<open>What the patterns accept\<close>

lemma repo_char_avoids: "\<not> repo_char c \<Longrightarrow> c \<noteq> CHR ''/'' \<Longrightarrow> rx_avoids c REPO_RE"
  by (auto simp: REPO_RE_def repo_char_def alnum_def)

lemma is_repo_avoids: "is_repo rp \<Longrightarrow> \<not> repo_char c \<Longrightarrow> c \<noteq> CHR ''/'' \<Longrightarrow> c \<notin> set rp"
  unfolding is_repo_def using fullmatch_avoids repo_char_avoids by blast

lemma is_commit_sha_iff: "is_commit_sha rv \<longleftrightarrow> length rv = 40 \<and> list_all hex_lower rv"
  by (simp add: is_commit_sha_def COMMIT_SHA_RE_def fullmatch_Rep_Cls)

lemma is_commit_sha_avoids: "is_commit_sha rv \<Longrightarrow> \<not> hex_lower c \<Longrightarrow> c \<notin> set rv"
  by (auto simp: is_commit_sha_iff list_all_iff)

lemma at_not_repo: "is_repo rp \<Longrightarrow> CHR ''@'' \<notin> set rp"
  by (rule is_repo_avoids) (simp_all add: repo_char_def alnum_def ascii_digit_def lower_az_def upper_az_def code_def)

lemma bar_not_sha: "is_commit_sha rv \<Longrightarrow> CHR ''|'' \<notin> set rv"
  by (rule is_commit_sha_avoids) (simp_all add: hex_lower_def ascii_digit_def code_def)

lemma resolved_ref_cases:
  "resolved_ref rp rv = Inr r \<longleftrightarrow> is_repo rp \<and> is_commit_sha rv \<and> r = make_ref rp rv"
  by (auto simp: resolved_ref_def)

lemma key_hex: "c \<in> set (submission_key rp rv) \<Longrightarrow> hex_lower c"
  unfolding submission_key_def by (rule sha.prefix_lower)

lemma length_submission_key [simp]: "length (submission_key rp rv) = 16"
  by (simp add: submission_key_def sha.length_digest)

lemma bar_not_key: "CHR ''|'' \<notin> set (submission_key rp rv)"
  unfolding submission_key_def
  by (rule sha.prefix_avoids) (simp add: hex_lower_def ascii_digit_def code_def)

text \<open>An accepted reference: its key is the derived one, its revision a commit, its repo a repo id.\<close>

definition wf_ref :: "submission_ref \<Rightarrow> bool" where
  "wf_ref r \<longleftrightarrow> is_repo (repo r) \<and> is_commit_sha (revision r) \<and> key r = submission_key (repo r) (revision r)"

lemma wf_resolved: "resolved_ref rp rv = Inr r \<Longrightarrow> wf_ref r \<and> repo r = rp \<and> revision r = rv"
  by (auto simp: resolved_ref_cases wf_ref_def make_ref_def)

lemma wf_ref_bar: "wf_ref r \<Longrightarrow> CHR ''|'' \<notin> set (key r) \<and> CHR ''|'' \<notin> set (revision r)"
  by (simp add: wf_ref_def bar_not_key bar_not_sha)

lemma wf_ref_not_none: "wf_ref r \<Longrightarrow> key r \<noteq> ''none''"
proof
  assume "wf_ref r" and "key r = ''none''"
  then have "length ''none'' = 16" unfolding wf_ref_def using length_submission_key by metis
  then show False by simp
qed

lemma partition_entry_text:
  "is_repo a \<Longrightarrow> partition_at (CHR ''@'') (entry_text a x) = (a, True, x)"
  using partition_at_split [OF at_not_repo, of a x] by (simp add: entry_text_def)

lemma entry_text_inject:
  assumes "is_repo a" and "is_repo b" and "entry_text a x = entry_text b y"
  shows "a = b \<and> x = y"
  using partition_entry_text [OF assms(1), of x] partition_entry_text [OF assms(2), of y]
  unfolding assms(3) by (metis prod.inject)

lemma nat_avoids: "\<not> ascii_digit c \<Longrightarrow> c \<notin> set (str_of_nat n)"
  unfolding str_of_nat_def using digits_of_ascii by blast

lemma int_avoids: "\<not> ascii_digit c \<Longrightarrow> c \<noteq> CHR ''-'' \<Longrightarrow> c \<notin> set (str_of_int n)"
  using str_of_int_chars by blast

lemma bar_not_digit [simp]: "\<not> ascii_digit (CHR ''|'')"
  by (simp add: ascii_digit_def code_def)

lemma str_of_nat_inject [simp]: "str_of_nat m = str_of_nat n \<longleftrightarrow> m = n"
  by (simp add: str_of_nat_def)

lemma wf_ref_eqI: "key a = key b \<Longrightarrow> repo a = repo b \<Longrightarrow> revision a = revision b \<Longrightarrow> a = (b :: submission_ref)"
  by simp

text \<open>What the texts determine.\<close>

lemma duel_text_inject:
  assumes eq: "duel_text v t c k = duel_text v' t' c' k'"
    and trk: "CHR ''|'' \<notin> set t" "CHR ''|'' \<notin> set t'"
    and refs: "wf_ref c" "wf_ref c'" "\<And>r. k = Some r \<Longrightarrow> wf_ref r" "\<And>r. k' = Some r \<Longrightarrow> wf_ref r"
  shows "v = v' \<and> t = t' \<and> key c = key c' \<and> revision c = revision c'
    \<and> map_option key k = map_option key k' \<and> map_option revision k = map_option revision k'"
proof -
  let ?ps = "\<lambda>v t c k. [str_of_int v, t, key c, revision c,
       (case k of None \<Rightarrow> ''none'' | Some k \<Rightarrow> key k), (case k of None \<Rightarrow> ''none'' | Some k \<Rightarrow> revision k)]"
  have free: "CHR ''|'' \<notin> set x"
    if "CHR ''|'' \<notin> set t" "wf_ref c" "\<And>r. k = Some r \<Longrightarrow> wf_ref r" "x \<in> set (?ps v t c k)" for v t c k x
    using that wf_ref_bar [of c] int_avoids [of "CHR ''|''" v] wf_ref_bar [of "the k"]
    by (cases k) auto
  have "?ps v t c k = ?ps v' t' c' k'"
    using eq free [OF trk(1) refs(1) refs(3)] free [OF trk(2) refs(2) refs(4)]
    unfolding duel_text_def by (intro join_inject) auto
  moreover have "key r \<noteq> ''none''" and "''none'' \<noteq> key r" if "wf_ref r" for r
    using wf_ref_not_none [OF that] by auto
  ultimately show ?thesis using refs(3,4) by (cases k; cases k') auto
qed

lemma event_text_inject:
  assumes eq: "event_text kd t b s = event_text kd' t' b' s'"
    and "CHR ''|'' \<notin> set kd" "CHR ''|'' \<notin> set kd'" "CHR ''|'' \<notin> set t" "CHR ''|'' \<notin> set t'"
      "CHR ''|'' \<notin> set s" "CHR ''|'' \<notin> set s'"
  shows "kd = kd' \<and> t = t' \<and> b = b' \<and> s = s'"
proof -
  have "[''event'', kd, t, str_of_int b, s] = [''event'', kd', t', str_of_int b', s']"
    using assms int_avoids [of "CHR ''|''"] unfolding event_text_def
    by (intro join_inject [of "CHR ''|''"]) auto
  then show ?thesis by simp
qed

lemma seed_text_inject:
  assumes "seed_text d s n = seed_text d' s' n'"
    and "CHR ''|'' \<notin> set d" "CHR ''|'' \<notin> set d'" "CHR ''|'' \<notin> set s" "CHR ''|'' \<notin> set s'"
  shows "d = d' \<and> s = s' \<and> n = n'"
proof -
  have "[d, s, str_of_nat n] = [d', s', str_of_nat n']"
    using assms nat_avoids [of "CHR ''|''"] unfolding seed_text_def
    by (intro join_inject [of "CHR ''|''"]) auto
  then show ?thesis by simp
qed

lemma unit_seed_bound: "unit_seed d s n < 2 ^ 32"
proof -
  have "list_all hex_lower (take 8 (sha256_hex (seed_text d s n)))"
    by (auto simp: list_all_iff intro: sha.prefix_lower)
  from nat_of_hex_bound [OF this] show ?thesis
    by (simp add: unit_seed_def sha.length_digest)
qed

lemma unit_id_inject: "unit_id c n = unit_id c m \<longleftrightarrow> n = m"
  by (simp add: unit_id_def)

lemma unit_id_inject2: "length c = length d \<Longrightarrow> unit_id c n = unit_id d m \<longleftrightarrow> c = d \<and> n = m"
  by (auto simp: unit_id_def)

lemma ref_from_as_dict [simp]: "ref_from_dict (ref_as_dict r) = Some (Some r)"
  by (simp add: ref_from_dict_def ref_as_dict_def str_field_def jget_JObj)

lemma wf_json_ref [simp]: "wf_json (ref_as_dict r)"
  by (simp add: ref_as_dict_def)

section \<open>Properties\<close>


definition sample_repo :: string where "sample_repo = ''a/b''"
definition sample_sha :: string where "sample_sha = replicate 40 (CHR ''0'')"

lemma sample_resolved: "resolved_ref sample_repo sample_sha = Inr (make_ref sample_repo sample_sha)"
proof -
  have "is_commit_sha sample_sha"
    by (simp add: is_commit_sha_iff sample_sha_def hex_lower_def ascii_digit_def code_def list_all_iff)
  moreover have "is_repo sample_repo"
    by (simp add: is_repo_def sample_repo_def REPO_RE_def alnum_def lower_az_def upper_az_def ascii_digit_def code_def repo_char_def)
  ultimately show ?thesis by (simp add: resolved_ref_def)
qed

lemma wf_sample: "wf_ref (make_ref sample_repo sample_sha)"
  using wf_resolved [OF sample_resolved] by simp


text \<open>A unit's seed fits 32 bits and is fixed by its duel, skill and index, whose text determines
  all three; a unit's id determines its skill code and its index; a submission's key is 16
  lowercase hexadecimal characters, and a repository and revision that are accepted are the only
  ones hashed under their text.\<close>

theorem unit_and_key_shape:
  assumes "CHR ''|'' \<notin> set d" and "CHR ''|'' \<notin> set d'" and "CHR ''|'' \<notin> set s" and "CHR ''|'' \<notin> set s'"
    and "length a = 2" and "length a' = 2" and "is_repo rp" and "is_repo rp'"
  shows "unit_seed d s n < 2 ^ 32
    \<and> (seed_text d s n = seed_text d' s' n' \<longleftrightarrow> d = d' \<and> s = s' \<and> n = n')
    \<and> (unit_id a n = unit_id a' n' \<longleftrightarrow> a = a' \<and> n = n')
    \<and> length (submission_key rp rv) = 16 \<and> list_all hex_lower (submission_key rp rv)
    \<and> (entry_text rp rv = entry_text rp' rv' \<longleftrightarrow> rp = rp' \<and> rv = rv')"
  using unit_seed_bound [of d s n] seed_text_inject [OF _ assms(1-4)] unit_id_inject2 [of a a' n n'] assms(5-8)
    entry_text_inject [of rp rp' rv rv']
  by (auto simp: list_all_iff dest: key_hex)

theorem unit_and_key_shape_witness: "unit_seed ''d'' ''pick'' 3 < 2 ^ 32 \<and> unit_id ''pk'' 3 \<noteq> unit_id ''pl'' 3"
  using unit_and_key_shape [of "''d''" "''d''" "''pick''" "''pick''" "''pk''" "''pl''" sample_repo sample_repo 3 3]
    sample_resolved by (simp add: resolved_ref_cases)

end
