(* ===== verification/File_Lock.thy ===== *)
theory File_Lock
  imports Main
begin

text \<open>
  Files several processes share under an exclusive lock (\<open>flock\<close>): \<open>Queue._locked\<close> and
  \<open>Store.index_lock\<close>. A process takes the lock, reads the file, computes from what it read and
  writes; a raise or a kill releases the lock without a write. What the system adds to the
  operation itself is stated once, over the operation \<open>app\<close>.
\<close>

record ('op, 'f) lock_system =
  shared :: 'f
  holder :: "(nat \<times> 'op \<times> 'f) option"
  committed :: "'op list"

text \<open>\<open>committed\<close> is the operations whose write has happened, in order: what callers were told.\<close>

inductive lock_step :: "('op \<Rightarrow> 'f \<Rightarrow> 'f option) \<Rightarrow> ('op, 'f) lock_system \<Rightarrow> ('op, 'f) lock_system \<Rightarrow> bool"
  for app where
  acquire: "holder s = None \<Longrightarrow> lock_step app s (s\<lparr>holder := Some (p, op, shared s)\<rparr>)"
| save_change: "holder s = Some (p, op, f) \<Longrightarrow> app op f = Some f' \<Longrightarrow>
    lock_step app s (s\<lparr>shared := f', holder := None, committed := committed s @ [op]\<rparr>)"
| abandon: "holder s = Some (p, op, f) \<Longrightarrow> lock_step app s (s\<lparr>holder := None\<rparr>)"

inductive_cases lock_stepE: "lock_step app s s'"

inductive lock_reach :: "('op \<Rightarrow> 'f \<Rightarrow> 'f option) \<Rightarrow> 'f \<Rightarrow> ('op, 'f) lock_system \<Rightarrow> bool"
  for app and f0 where
  lock_init: "lock_reach app f0 \<lparr>shared = f0, holder = None, committed = []\<rparr>"
| lock_next: "lock_reach app f0 s \<Longrightarrow> lock_step app s s' \<Longrightarrow> lock_reach app f0 s'"

fun replay :: "('op \<Rightarrow> 'f \<Rightarrow> 'f option) \<Rightarrow> 'op list \<Rightarrow> 'f \<Rightarrow> 'f option" where
  "replay app [] f = Some f"
| "replay app (op # ops) f = (case app op f of None \<Rightarrow> None | Some f' \<Rightarrow> replay app ops f')"

lemma replay_snoc: "replay app (ops @ [op]) f = (case replay app ops f of None \<Rightarrow> None | Some f' \<Rightarrow> app op f')"
  by (induction ops arbitrary: f) (auto split: option.splits)

text \<open>Nothing is lost: the shared file is what the committed operations make, one after another.\<close>

lemma lock_serializable:
  assumes "lock_reach app f0 s"
  shows "replay app (committed s) f0 = Some (shared s) \<and> (\<forall>p op f. holder s = Some (p, op, f) \<longrightarrow> f = shared s)"
  using assms
proof induction
  case (lock_next s s')
  from lock_next.hyps(2) show ?case
    by cases (use lock_next.IH in \<open>auto simp: replay_snoc\<close>)
qed simp

locale locked_file =
  fixes app :: "'op \<Rightarrow> 'f \<Rightarrow> 'f option" and inv :: "'f \<Rightarrow> bool"
  assumes app_inv: "inv f \<Longrightarrow> app op f = Some f' \<Longrightarrow> inv f'"
begin

lemma replay_inv: "inv f \<Longrightarrow> replay app ops f = Some f' \<Longrightarrow> inv f'"
  by (induction ops arbitrary: f) (auto split: option.splits intro: app_inv)

lemma shared_inv: "inv f0 \<Longrightarrow> lock_reach app f0 s \<Longrightarrow> inv (shared s)"
  using lock_serializable replay_inv by fast

end

end
