(* ===== verification/Queue.thy ===== *)
theory Queue
  imports Ids File_Lock
begin

text \<open>
  \<open>queue.py\<close>: a track's challenger queue. The file is the state: an operation locks it, loads it,
  changes what it loaded and saves the whole, so an operation is a function from the file's text
  to the next text (\<open>locked\<close>), and processes interleave only between operations. A field that
  holds a value of another type than its dataclass declares is refused here; Python would carry
  it along untyped. The clock is the argument \<open>now\<close>.
\<close>

section \<open>State\<close>

record queue_entry =
  e_key :: string
  e_repo :: string
  e_revision :: string
  commit_block :: int
  duel_size :: "string option"
  accepted_at :: string
  e_source :: string

record in_progress_duel =
  ip_event_id :: string
  ip_challenger :: json
  ip_started_at :: string
  ip_entry :: json

record queue_state =
  entries :: "queue_entry list"
  in_progress :: "in_progress_duel option"
  block :: int

definition entry_ref :: "queue_entry \<Rightarrow> submission_ref" where
  "entry_ref e = \<lparr>key = e_key e, repo = e_repo e, revision = e_revision e\<rparr>"

datatype queue_error = Unreadable_Queue | Bad_Field | Refused ref_error

section \<open>The file\<close>

definition entry_dict :: "queue_entry \<Rightarrow> json" where
  "entry_dict e = JObj [(''key'', JStr (e_key e)), (''repo'', JStr (e_repo e)),
     (''revision'', JStr (e_revision e)), (''commit_block'', JInt (commit_block e)),
     (''duel_size'', opt_json JStr (duel_size e)), (''accepted_at'', JStr (accepted_at e)),
     (''source'', JStr (e_source e))]"

definition in_progress_dict :: "in_progress_duel \<Rightarrow> json" where
  "in_progress_dict p = JObj [(''event_id'', JStr (ip_event_id p)), (''challenger'', ip_challenger p),
     (''started_at'', JStr (ip_started_at p)), (''entry'', ip_entry p)]"

definition entry_of_json :: "json \<Rightarrow> queue_entry option" where
  "entry_of_json d =
     (case (as_str (jget d ''key''), as_str (jget d ''repo''), as_str (jget d ''revision''),
            as_int (jget d ''commit_block''), as_opt_str (jget d ''duel_size''),
            as_str (jget d ''accepted_at''),
            if jhas d ''source'' then as_str (jget d ''source'') else Some []) of
        (Some k, Some rp, Some rv, Some cb, Some ds, Some acc, Some src) \<Rightarrow>
          if is_obj d \<and> jhas d ''duel_size''
          then Some \<lparr>e_key = k, e_repo = rp, e_revision = rv, commit_block = cb, duel_size = ds,
                     accepted_at = acc, e_source = src\<rparr>
          else None
      | _ \<Rightarrow> None)"

definition in_progress_of_json :: "json \<Rightarrow> in_progress_duel option" where
  "in_progress_of_json d =
     (case (as_str (jget d ''event_id''), as_str (jget d ''started_at'')) of
        (Some ev, Some st) \<Rightarrow>
          if is_obj d \<and> jhas d ''challenger''
          then Some \<lparr>ip_event_id = ev, ip_challenger = jget d ''challenger'', ip_started_at = st,
                     ip_entry = jget d ''entry''\<rparr>
          else None
      | _ \<Rightarrow> None)"

definition state_of_json :: "json \<Rightarrow> queue_state option" where
  "state_of_json doc =
     (let ip = jget doc ''in_progress'' in
      case (as_list (jget_or doc ''entries'' (JArr [])), as_int (jget_or doc ''block'' (JInt 0))) of
        (Some es, Some b) \<Rightarrow>
          (case (all_some (map entry_of_json es),
                 if truthy ip then map_option Some (in_progress_of_json ip) else Some None) of
             (Some xs, Some p) \<Rightarrow> Some \<lparr>entries = xs, in_progress = p, block = b\<rparr>
           | _ \<Rightarrow> None)
      | _ \<Rightarrow> None)"

text \<open>\<open>None\<close> is a file that is not there.\<close>

definition load :: "string option \<Rightarrow> queue_error + queue_state" where
  "load file =
     (let doc = (case file of None \<Rightarrow> Some (JObj []) | Some text \<Rightarrow> loads text) in
      case doc of
        None \<Rightarrow> Inl Unreadable_Queue
      | Some d \<Rightarrow>
          if \<not> is_obj d then Inl Unreadable_Queue
          else (case state_of_json d of None \<Rightarrow> Inl Bad_Field | Some st \<Rightarrow> Inr st))"

definition state_dict :: "queue_state \<Rightarrow> json" where
  "state_dict st = JObj [(''entries'', JArr (map entry_dict (entries st))),
     (''in_progress'', opt_json in_progress_dict (in_progress st)), (''block'', JInt (block st))]"

definition save_text :: "queue_state \<Rightarrow> string" where
  "save_text st = pretty_json (state_dict st)"

text \<open>\<open>with self._locked()\<close>: load, change, save; a body that raises saves nothing.\<close>

definition locked :: "(queue_state \<Rightarrow> 'a \<times> queue_state) \<Rightarrow> string option \<Rightarrow> queue_error + ('a \<times> string)" where
  "locked body file = bindE (load file) (\<lambda>st. let (x, st') = body st in Inr (x, save_text st'))"

section \<open>Operations\<close>

definition drop_key :: "string \<Rightarrow> queue_entry list \<Rightarrow> queue_entry list" where
  "drop_key k es = filter (\<lambda>e. e_key e \<noteq> k) es"

definition new_entry :: "submission_ref \<Rightarrow> string option \<Rightarrow> string \<Rightarrow> string \<Rightarrow> int \<Rightarrow> queue_entry" where
  "new_entry r ds src now b = \<lparr>e_key = key r, e_repo = repo r, e_revision = revision r,
     commit_block = b, duel_size = ds, accepted_at = now, e_source = src\<rparr>"

definition add_body :: "submission_ref \<Rightarrow> string option \<Rightarrow> string \<Rightarrow> string \<Rightarrow> queue_state
    \<Rightarrow> (queue_entry \<times> nat) \<times> queue_state" where
  "add_body r ds src now st =
     (let es = drop_key (key r) (entries st);
          e = new_entry r ds src now (block st);
          es' = es @ [e]
      in ((e, length es'), st\<lparr>entries := es'\<rparr>))"

definition offer_body :: "submission_ref \<Rightarrow> string option \<Rightarrow> string \<Rightarrow> string \<Rightarrow> queue_state
    \<Rightarrow> (queue_entry \<times> nat \<times> bool) \<times> queue_state" where
  "offer_body r ds src now st =
     (let waiting = filter (\<lambda>i. e_key (entries st ! i) = key r) [0..<length (entries st)];
          es = (if waiting = [] then entries st @ [new_entry r ds src now (block st)] else entries st);
          idx = (if waiting \<noteq> [] then hd waiting else length es - 1)
      in ((es ! idx, idx + 1, waiting = []), st\<lparr>entries := es\<rparr>))"

definition remove_body :: "string \<Rightarrow> queue_state \<Rightarrow> bool \<times> queue_state" where
  "remove_body k st =
     (let es = drop_key k (entries st) in (length es \<noteq> length (entries st), st\<lparr>entries := es\<rparr>))"

definition pop_body :: "queue_state \<Rightarrow> queue_entry option \<times> queue_state" where
  "pop_body st = (case entries st of [] \<Rightarrow> (None, st) | e # es \<Rightarrow> (Some e, st\<lparr>entries := es\<rparr>))"

definition take_body :: "string \<Rightarrow> int \<Rightarrow> string \<Rightarrow> string \<Rightarrow> queue_state
    \<Rightarrow> queue_entry option \<times> queue_state" where
  "take_body k b ev now st =
     (case List.find (\<lambda>e. e_key e = k) (entries st) of
        None \<Rightarrow> (None, st)
      | Some e \<Rightarrow>
          (Some e, st\<lparr>entries := drop_key k (entries st), block := max (block st) b,
             in_progress := Some \<lparr>ip_event_id = ev, ip_challenger = ref_as_dict (entry_ref e),
               ip_started_at = now, ip_entry = entry_dict e\<rparr>\<rparr>))"

text \<open>An in-progress entry that is no queue entry raises: \<open>None\<close> of the outer option.\<close>

definition put_back_body :: "queue_entry option \<Rightarrow> queue_state
    \<Rightarrow> (queue_entry option \<times> queue_state) option" where
  "put_back_body fallback st =
     (let found = (case in_progress st of
            None \<Rightarrow> Some None
          | Some p \<Rightarrow> if truthy (ip_entry p) then map_option Some (entry_of_json (ip_entry p)) else Some fallback)
      in map_option (\<lambda>e. (e,
           st\<lparr>entries := (case e of None \<Rightarrow> entries st | Some x \<Rightarrow> x # drop_key (e_key x) (entries st)),
              in_progress := None\<rparr>)) found)"

definition start_body :: "string \<Rightarrow> submission_ref \<Rightarrow> string \<Rightarrow> queue_state \<Rightarrow> unit \<times> queue_state" where
  "start_body ev r now st = ((), st\<lparr>in_progress := Some \<lparr>ip_event_id = ev, ip_challenger = ref_as_dict r,
     ip_started_at = now, ip_entry = JNull\<rparr>\<rparr>)"

definition finish_body :: "queue_state \<Rightarrow> unit \<times> queue_state" where
  "finish_body st = ((), st\<lparr>in_progress := None\<rparr>)"

definition advance_block_body :: "queue_state \<Rightarrow> int \<times> queue_state" where
  "advance_block_body st = (block st + 1, st\<lparr>block := block st + 1\<rparr>)"

definition claim_block_body :: "int \<Rightarrow> queue_state \<Rightarrow> int \<times> queue_state" where
  "claim_block_body floor_block st =
     (let b = max (block st) floor_block + 1 in (b, st\<lparr>block := b\<rparr>))"

definition set_block_body :: "int \<Rightarrow> queue_state \<Rightarrow> int \<times> queue_state" where
  "set_block_body b st = (b, st\<lparr>block := b\<rparr>)"

text \<open>\<open>add\<close> and \<open>offer\<close> resolve the reference before they take the lock.\<close>

definition with_ref :: "string \<Rightarrow> string \<Rightarrow> (submission_ref \<Rightarrow> queue_error + 'a) \<Rightarrow> queue_error + 'a" where
  "with_ref rp rv f = (case resolved_ref rp rv of Inl e \<Rightarrow> Inl (Refused e) | Inr r \<Rightarrow> f r)"

definition add :: "string \<Rightarrow> string \<Rightarrow> string option \<Rightarrow> string \<Rightarrow> string \<Rightarrow> string option
    \<Rightarrow> queue_error + ((queue_entry \<times> nat) \<times> string)" where
  "add rp rv ds src now file = with_ref rp rv (\<lambda>r. locked (add_body r ds src now) file)"

definition offer :: "string \<Rightarrow> string \<Rightarrow> string option \<Rightarrow> string \<Rightarrow> string \<Rightarrow> string option
    \<Rightarrow> queue_error + ((queue_entry \<times> nat \<times> bool) \<times> string)" where
  "offer rp rv ds src now file = with_ref rp rv (\<lambda>r. locked (offer_body r ds src now) file)"

definition put_back :: "queue_entry option \<Rightarrow> string option \<Rightarrow> queue_error + (queue_entry option \<times> string)" where
  "put_back fallback file =
     bindE (load file) (\<lambda>st. case put_back_body fallback st of
         None \<Rightarrow> Inl Bad_Field | Some (e, st') \<Rightarrow> Inr (e, save_text st'))"

definition peek :: "string option \<Rightarrow> queue_error + queue_entry option" where
  "peek file = bindE (load file) (\<lambda>st. Inr (case entries st of [] \<Rightarrow> None | e # _ \<Rightarrow> Some e))"

section \<open>The published view\<close>

definition snapshot_entry :: "nat \<Rightarrow> queue_entry \<Rightarrow> json" where
  "snapshot_entry i e = JObj [(''position'', JInt (int i + 1)), (''key'', JStr (e_key e)),
     (''repo'', JStr (e_repo e)), (''revision'', JStr (e_revision e)),
     (''commit_block'', JInt (commit_block e)), (''duel_size'', opt_json JStr (duel_size e)),
     (''skip_model_config_check'', JBool False), (''accepted_at'', JStr (accepted_at e))]"

definition snapshot :: "string \<Rightarrow> submission_ref option \<Rightarrow> int \<Rightarrow> string \<Rightarrow> queue_state \<Rightarrow> json" where
  "snapshot trk king schema now st = JObj [(''schema'', JInt schema), (''track'', JStr trk),
     (''block'', JInt (block st)), (''written_at'', JStr now), (''king'', opt_json ref_as_dict king),
     (''in_progress'', opt_json (\<lambda>p. JObj (filter (\<lambda>kv. fst kv \<in> {''event_id'', ''challenger'', ''started_at''})
        (jitems (in_progress_dict p)))) (in_progress st)),
     (''entries'', JArr (map (\<lambda>(i, e). snapshot_entry i e) (List.enumerate 0 (entries st))))]"

text \<open>\<open>Queues\<close>: one file per track.\<close>

type_synonym queue_files = "string \<Rightarrow> string option"

definition queue_of :: "string list \<Rightarrow> queue_files \<Rightarrow> string \<Rightarrow> (queue_error + queue_state) option" where
  "queue_of tracks files trk = (if trk \<in> set tracks then Some (load (files trk)) else None)"

section \<open>One operation on the file\<close>

datatype queue_op =
    Add string string "string option" string string
  | Offer string string "string option" string string
  | Remove string
  | Pop
  | Take string int string string
  | Put_Back "queue_entry option"
  | Start string submission_ref string
  | Finish
  | Advance_Block
  | Claim_Block int
  | Set_Block int

fun change :: "queue_op \<Rightarrow> queue_state \<Rightarrow> queue_error + queue_state" where
  "change (Add rp rv ds src now) st = with_ref rp rv (\<lambda>r. Inr (snd (add_body r ds src now st)))"
| "change (Offer rp rv ds src now) st = with_ref rp rv (\<lambda>r. Inr (snd (offer_body r ds src now st)))"
| "change (Remove k) st = Inr (snd (remove_body k st))"
| "change Pop st = Inr (snd (pop_body st))"
| "change (Take k b ev now) st = Inr (snd (take_body k b ev now st))"
| "change (Put_Back e) st = (case put_back_body e st of None \<Rightarrow> Inl Bad_Field | Some (_, st') \<Rightarrow> Inr st')"
| "change (Start ev r now) st = Inr (snd (start_body ev r now st))"
| "change Finish st = Inr (snd (finish_body st))"
| "change Advance_Block st = Inr (snd (advance_block_body st))"
| "change (Claim_Block b) st = Inr (snd (claim_block_body b st))"
| "change (Set_Block b) st = Inr (snd (set_block_body b st))"

definition run_op :: "queue_op \<Rightarrow> string option \<Rightarrow> string option option" where
  "run_op op file = (case bindE (load file) (change op) of Inl _ \<Rightarrow> None | Inr st \<Rightarrow> Some (Some (save_text st)))"

section \<open>What a save reads back as\<close>

definition norm_in_progress :: "in_progress_duel \<Rightarrow> in_progress_duel" where
  "norm_in_progress p = p\<lparr>ip_challenger := jsort (ip_challenger p), ip_entry := jsort (ip_entry p)\<rparr>"

definition norm_state :: "queue_state \<Rightarrow> queue_state" where
  "norm_state st = st\<lparr>in_progress := map_option norm_in_progress (in_progress st)\<rparr>"

definition wf_in_progress :: "in_progress_duel \<Rightarrow> bool" where
  "wf_in_progress p \<longleftrightarrow> wf_json (ip_challenger p) \<and> wf_json (ip_entry p)"

lemma wf_entry_dict [simp]: "wf_json (entry_dict e)"
  by (cases "duel_size e") (simp_all add: entry_dict_def)

lemma entry_of_dict: "wf_json d \<Longrightarrow> entry_of_json (jsort d) = entry_of_json d"
proof -
  assume d: "wf_json d"
  show ?thesis
    unfolding entry_of_json_def jget_jsort [OF d] as_jsort is_obj_jsort jhas_jsort ..
qed

lemma entry_of_entry_dict [simp]: "entry_of_json (entry_dict e) = Some e"
  by (simp add: entry_of_json_def entry_dict_def jget_JObj jhas_JObj)

lemma in_progress_of_dict:
  assumes "wf_in_progress p"
  shows "in_progress_of_json (jsort (in_progress_dict p)) = Some (norm_in_progress p)"
proof -
  have d: "wf_json (in_progress_dict p)"
    using assms by (simp add: wf_in_progress_def in_progress_dict_def)
  show ?thesis
    by (simp add: in_progress_of_json_def jget_jsort [OF d])
      (simp add: in_progress_dict_def jget_JObj jhas_JObj norm_in_progress_def)
qed

lemma truthy_in_progress_dict [simp]: "truthy (in_progress_dict p)"
  by (simp add: in_progress_dict_def)

lemma load_save:
  assumes "\<And>p. in_progress st = Some p \<Longrightarrow> wf_in_progress p"
  shows "load (Some (save_text st)) = Inr (norm_state st)"
proof -
  have d: "wf_json (state_dict st)"
    using assms by (cases "in_progress st")
      (auto simp: state_dict_def in_progress_dict_def wf_in_progress_def list_all_iff)
  have es: "all_some (map (entry_of_json \<circ> (jsort \<circ> entry_dict)) (entries st)) = Some (entries st)"
    using all_some_map [of "entries st" "entry_of_json \<circ> (jsort \<circ> entry_dict)" "\<lambda>e. e"]
    by (simp add: entry_of_dict)
  have same: "\<lparr>entries = entries st, in_progress = x, block = block st\<rparr> = st\<lparr>in_progress := x\<rparr>" for x
    by (cases st) simp
  have "state_of_json (jsort (state_dict st)) = Some (norm_state st)"
    using assms es
    by (cases "in_progress st")
      (simp_all add: state_of_json_def jget_or_def jget_jsort [OF d],
       simp_all add: state_dict_def jget_JObj jhas_JObj norm_state_def in_progress_of_dict same)
  moreover have "is_obj (state_dict st)" by (simp add: state_dict_def)
  ultimately show ?thesis using loads_pretty [OF d] by (simp add: load_def save_text_def)
qed

lemma save_norm [simp]: "save_text (norm_state st) = save_text st"
proof -
  have "jsort (opt_json in_progress_dict (map_option norm_in_progress x)) = jsort (opt_json in_progress_dict x)" for x
    by (cases x) (auto simp: in_progress_dict_def norm_in_progress_def simp del: jsort.simps intro!: jsort_items_cong)
  then have "jsort (state_dict (norm_state st)) = jsort (state_dict st)"
    unfolding state_dict_def norm_state_def by (intro jsort_items_cong) simp_all
  then show ?thesis unfolding save_text_def by (metis pretty_json_jsort)
qed

section \<open>The invariant\<close>

definition wf_progress :: "in_progress_duel option \<Rightarrow> bool" where
  "wf_progress x = (case x of None \<Rightarrow> True
     | Some p \<Rightarrow> wf_in_progress p \<and> (truthy (ip_entry p) \<longrightarrow> entry_of_json (ip_entry p) \<noteq> None))"

definition queue_ok :: "queue_state \<Rightarrow> bool" where
  "queue_ok st \<longleftrightarrow> distinct (map e_key (entries st)) \<and> wf_progress (in_progress st)"

definition file_ok :: "string option \<Rightarrow> bool" where
  "file_ok file \<longleftrightarrow> (\<exists>st. load file = Inr st \<and> queue_ok st)"

lemma wf_progress_simps [simp]:
  "wf_progress None"
  "wf_progress (Some \<lparr>ip_event_id = ev, ip_challenger = ref_as_dict r, ip_started_at = t, ip_entry = JNull\<rparr>)"
  "wf_progress (Some \<lparr>ip_event_id = ev, ip_challenger = ref_as_dict r, ip_started_at = t, ip_entry = entry_dict e\<rparr>)"
  by (simp_all add: wf_progress_def wf_in_progress_def)

lemma distinct_drop_key: "distinct (map e_key es) \<Longrightarrow> distinct (map e_key (drop_key k es))"
  unfolding drop_key_def by (rule filter_distinct_keys)

lemma drop_key_keys [simp]: "k \<notin> e_key ` set (drop_key k es)"
  by (auto simp: drop_key_def)

lemma queue_ok_norm: "queue_ok st \<Longrightarrow> queue_ok (norm_state st)"
proof -
  have "wf_json (jsort j) \<and> entry_of_json (jsort j) = entry_of_json j" if "wf_json j" for j
    using that by (simp add: wf_jsort entry_of_dict)
  moreover assume "queue_ok st"
  ultimately show ?thesis
    by (cases "in_progress st")
      (auto simp: queue_ok_def norm_state_def wf_progress_def norm_in_progress_def wf_in_progress_def wf_jsort)
qed

lemma file_ok_save: "queue_ok st \<Longrightarrow> file_ok (Some (save_text st))"
  using load_save [of st] queue_ok_norm [of st]
  by (auto simp: file_ok_def queue_ok_def wf_progress_def split: option.splits)

lemma offer_entries:
  "entries (snd (offer_body r ds src now st)) =
     (if key r \<in> e_key ` set (entries st) then entries st else entries st @ [new_entry r ds src now (block st)])"
proof -
  have "filter (\<lambda>i. e_key (entries st ! i) = key r) [0..<length (entries st)] = []
      \<longleftrightarrow> key r \<notin> e_key ` set (entries st)"
    by (force simp: filter_empty_conv in_set_conv_nth)
  then show ?thesis by (simp add: offer_body_def Let_def)
qed

lemma offer_rest: "snd (offer_body r ds src now st) = st\<lparr>entries := entries (snd (offer_body r ds src now st))\<rparr>"
  by (simp add: offer_body_def Let_def)

lemma change_ok: "queue_ok st \<Longrightarrow> change op st = Inr st' \<Longrightarrow> queue_ok st'"
proof (induction op st rule: change.induct)
  case (2 rp rv ds src now st)
  then obtain r where st': "st' = snd (offer_body r ds src now st)"
    by (auto simp: with_ref_def split: sum.splits)
  have "in_progress st' = in_progress st" unfolding st' by (subst offer_rest) simp
  then show ?case
    using 2 offer_entries [of r ds src now st] unfolding st' queue_ok_def
    by (auto simp: new_entry_def)
next
  case (6 e st)
  then show ?case
    by (auto simp: queue_ok_def put_back_body_def wf_progress_def distinct_drop_key Let_def split: option.splits if_splits)
qed (auto simp: queue_ok_def with_ref_def add_body_def new_entry_def remove_body_def pop_body_def take_body_def
    start_body_def finish_body_def advance_block_body_def claim_block_body_def set_block_body_def
    distinct_drop_key Let_def split: sum.splits option.splits list.splits)

lemma run_op_ok: "file_ok f \<Longrightarrow> run_op op f = Some f' \<Longrightarrow> file_ok f'"
  by (auto simp: run_op_def file_ok_save change_ok bindE_Inr_iff file_ok_def [of f] split: sum.splits)

interpretation queue_file: locked_file run_op file_ok
  by unfold_locales (rule run_op_ok)

lemma file_ok_missing: "file_ok None"
  by (simp add: file_ok_def load_def state_of_json_def jget_or_def jhas_JObj jget_JObj queue_ok_def)

section \<open>Facts the properties share\<close>

lemma norm_state_simps [simp]: "entries (norm_state st) = entries st" "block (norm_state st) = block st"
  by (simp_all add: norm_state_def)

lemma offer_again:
  assumes "offer_body r ds src now st = ((e, pos, q), st')" and "entries st'' = entries st'"
  shows "offer_body r ds' src' now' st'' = ((e, pos, False), st''\<lparr>entries := entries st'\<rparr>)"
proof -
  let ?w = "filter (\<lambda>i. e_key (entries st ! i) = key r) [0..<length (entries st)]"
  let ?new = "new_entry r ds src now (block st)"
  show ?thesis
  proof (cases "?w = []")
    case False
    then show ?thesis using assms by (auto simp: offer_body_def Let_def)
  next
    case True
    then have none: "\<And>i. i < length (entries st) \<Longrightarrow> e_key (entries st ! i) \<noteq> key r"
      by (auto simp: filter_empty_conv)
    have w: "filter (\<lambda>i. e_key ((entries st @ [?new]) ! i) = key r) [0..<length (entries st @ [?new])]
        = [length (entries st)]"
      by (auto simp: filter_empty_conv nth_append none new_entry_def)
    have st': "entries st' = entries st @ [?new]" and r: "e = ?new" "pos = length (entries st) + 1"
      using assms(1) True by (auto simp: offer_body_def Let_def)
    show ?thesis
      using w r by (simp add: offer_body_def Let_def assms(2) st' del: upt_Suc)
  qed
qed

lemma wf_of_ok: "queue_ok st \<Longrightarrow> in_progress st = Some p \<Longrightarrow> wf_in_progress p"
  by (simp add: queue_ok_def wf_progress_def)

lemma load_save_ok: "queue_ok st \<Longrightarrow> load (Some (save_text st)) = Inr (norm_state st)"
  using load_save wf_of_ok by blast

text \<open>The keys an operation is about; the entries of every other key it leaves in their order.\<close>

fun named_keys :: "queue_op \<Rightarrow> queue_state \<Rightarrow> string set" where
  "named_keys (Add rp rv ds src now) st = {submission_key rp rv}"
| "named_keys (Offer rp rv ds src now) st = {submission_key rp rv}"
| "named_keys (Remove k) st = {k}"
| "named_keys Pop st = (case entries st of [] \<Rightarrow> {} | e # _ \<Rightarrow> {e_key e})"
| "named_keys (Take k b ev now) st = {k}"
| "named_keys (Put_Back fb) st = (case put_back_body fb st of Some (Some e, _) \<Rightarrow> {e_key e} | _ \<Rightarrow> {})"
| "named_keys _ st = {}"

lemma filter_drop_key: "k \<in> K \<Longrightarrow> filter (\<lambda>e. e_key e \<notin> K) (drop_key k es) = filter (\<lambda>e. e_key e \<notin> K) es"
  by (induction es) (auto simp: drop_key_def)

lemma filter_drop_key1: "filter (\<lambda>e. e_key e \<noteq> k) (drop_key k es) = filter (\<lambda>e. e_key e \<noteq> k) es"
  by (simp add: drop_key_def)

lemma others_kept: "change op st = Inr st' \<Longrightarrow>
    filter (\<lambda>e. e_key e \<notin> named_keys op st) (entries st') = filter (\<lambda>e. e_key e \<notin> named_keys op st) (entries st)"
proof (induction op st rule: change.induct)
  case (2 rp rv ds src now st)
  then obtain r where r: "r = make_ref rp rv" and st': "st' = snd (offer_body r ds src now st)"
    by (auto simp: with_ref_def resolved_ref_def split: if_splits)
  then show ?case by (simp add: offer_entries new_entry_def make_ref_def)
next
  case (6 fb st)
  then show ?case
    by (auto simp: put_back_body_def Let_def filter_drop_key filter_drop_key1 split: option.splits if_splits)
qed (auto simp: with_ref_def resolved_ref_def make_ref_def add_body_def new_entry_def remove_body_def pop_body_def take_body_def
    start_body_def finish_body_def advance_block_body_def claim_block_body_def set_block_body_def filter_drop_key1
    Let_def split: option.splits list.splits if_splits)

section \<open>Properties\<close>

text \<open>C5. However the operations of many processes interleave, raise or are killed on one queue
  file, starting with no file: the file always loads, no submission waits twice, and every change
  a caller was told of is in it.\<close>

theorem queue_file_safe:
  assumes "lock_reach run_op None s"
  shows "(\<exists>st. load (shared s) = Inr st \<and> distinct (map e_key (entries st)))
    \<and> replay run_op (committed s) None = Some (shared s)"
  using queue_file.shared_inv [OF file_ok_missing assms] lock_serializable [OF assms]
  by (auto simp: file_ok_def queue_ok_def)

definition block_one :: queue_state where
  "block_one = \<lparr>entries = [], in_progress = None, block = 1\<rparr>"

lemma advance_missing: "run_op Advance_Block None = Some (Some (save_text block_one))"
  by (simp add: run_op_def load_def state_of_json_def jget_or_def jhas_JObj jget_JObj advance_block_body_def block_one_def)

lemma reach_block_one:
  "lock_reach run_op None \<lparr>shared = Some (save_text block_one), holder = None, committed = [Advance_Block]\<rparr>"
proof -
  let ?s = "\<lparr>shared = None, holder = Some (7 :: nat, Advance_Block, None), committed = []\<rparr>"
  have "lock_reach run_op None ?s"
    using lock_next [OF lock_init acquire, of None run_op 7 Advance_Block] by simp
  from lock_next [OF this save_change, of 7 Advance_Block None] advance_missing
  show ?thesis by simp
qed

theorem queue_file_safe_witness:
  "\<exists>st. load (Some (save_text block_one)) = Inr st \<and> distinct (map e_key (entries st))"
  using queue_file_safe [OF reach_block_one] by simp

text \<open>A submission offered twice - a retried request - keeps its entry and its place: the second
  offer answers with the first one's entry and position, says it was already waiting, and leaves
  the file as it was, to the byte.\<close>

theorem offer_idempotent:
  assumes "load file = Inr st" and "queue_ok st"
    and "offer rp rv ds src now file = Inr ((e, pos, queued), out)"
  shows "offer rp rv ds' src' now' (Some out) = Inr ((e, pos, False), out)"
proof -
  obtain r where r: "resolved_ref rp rv = Inr r"
    using assms(3) by (auto simp: offer_def with_ref_def split: sum.splits)
  obtain st' where st': "offer_body r ds src now st = ((e, pos, queued), st')" "out = save_text st'"
    using assms(1,3) r by (cases "offer_body r ds src now st") (auto simp: offer_def with_ref_def locked_def)
  have "change (Offer rp rv ds src now) st = Inr st'" using r st' by (simp add: with_ref_def)
  then have "queue_ok st'" using assms(2) change_ok by blast
  then have "load (Some out) = Inr (norm_state st')" using st'(2) load_save_ok by simp
  moreover have "offer_body r ds' src' now' (norm_state st') = ((e, pos, False), norm_state st')"
    using offer_again [OF st'(1), of "norm_state st'"] by (simp add: norm_state_def)
  ultimately show ?thesis using r st'(2) by (simp add: offer_def with_ref_def locked_def)
qed

theorem offer_idempotent_witness:
  "\<exists>e out. offer sample_repo sample_sha None [] ''t0'' None = Inr ((e, 1, True), out)
     \<and> offer sample_repo sample_sha None [] ''t1'' (Some out) = Inr ((e, 1, False), out)"
proof -
  obtain st where st: "load None = Inr st" "queue_ok st" "entries st = []"
    using file_ok_missing
    by (auto simp: file_ok_def load_def state_of_json_def jget_or_def jhas_JObj jget_JObj)
  then obtain e out where "offer sample_repo sample_sha None [] ''t0'' None = Inr ((e, 1, True), out)"
    by (simp add: offer_def with_ref_def sample_resolved locked_def offer_body_def)
  with offer_idempotent [OF st(1,2) this] show ?thesis by blast
qed

text \<open>C16. A duel taken and never finished - the daemon was killed, or its king changed - goes back as
  it was: put back from the file the take saved, its entry is at the head with the fields it had
  when it was queued, nothing is in progress, the others wait in their order, and the block
  counter keeps the block the take moved it to.\<close>

theorem take_put_back:
  assumes "load file = Inr st" and "queue_ok st" and "e \<in> set (entries st)"
    and "locked (take_body (e_key e) b ev now) file = Inr (taken, out)"
  shows "taken = Some e
    \<and> (\<exists>out'. put_back fallback (Some out) = Inr (Some e, out')
         \<and> load (Some out') = Inr (st\<lparr>entries := e # drop_key (e_key e) (entries st),
              in_progress := None, block := max (block st) b\<rparr>))"
proof -
  have uniq: "e' = e" if "e' \<in> set (entries st)" "e_key e' = e_key e" for e'
    using assms(2,3) that by (auto simp: queue_ok_def distinct_map dest: inj_onD)
  have find: "List.find (\<lambda>x. e_key x = e_key e) (entries st) = Some e"
  proof (cases "List.find (\<lambda>x. e_key x = e_key e) (entries st)")
    case None
    then show ?thesis using assms(3) by (auto simp: find_None_iff)
  next
    case (Some x)
    then show ?thesis using uniq by (auto simp: find_Some_iff in_set_conv_nth)
  qed
  let ?st1 = "snd (take_body (e_key e) b ev now st)"
  have out: "taken = Some e" "out = save_text ?st1"
  proof -
    have "fst (take_body (e_key e) b ev now st) = Some e" by (simp add: take_body_def find)
    then have "locked (take_body (e_key e) b ev now) file = Inr (Some e, save_text ?st1)"
      unfolding locked_def assms(1) by (simp add: case_prod_unfold Let_def)
    then show "taken = Some e" and "out = save_text ?st1" using assms(4) by simp_all
  qed
  have "change (Take (e_key e) b ev now) st = Inr ?st1" by simp
  then have ok1: "queue_ok ?st1" using assms(2) change_ok by blast
  let ?st2 = "st\<lparr>entries := e # drop_key (e_key e) (entries st), in_progress := None, block := max (block st) b\<rparr>"
  have "put_back_body fallback (norm_state ?st1) = Some (Some e, ?st2)"
    by (simp add: take_body_def find norm_state_def norm_in_progress_def put_back_body_def entry_of_dict drop_key_def)
      (simp add: entry_dict_def)
  then have pb: "put_back fallback (Some out) = Inr (Some e, save_text ?st2)"
    using load_save_ok [OF ok1] out by (simp add: put_back_def)
  have "load (Some (save_text ?st2)) = Inr (norm_state ?st2)" by (rule load_save) simp
  moreover have "norm_state ?st2 = ?st2" by (simp add: norm_state_def)
  ultimately show ?thesis using pb out by simp
qed

definition one_waiting :: queue_state where
  "one_waiting = \<lparr>entries = [new_entry (make_ref sample_repo sample_sha) None [] ''t0'' 4], in_progress = None, block = 4\<rparr>"

lemma one_waiting_ok: "queue_ok one_waiting"
  by (simp add: queue_ok_def one_waiting_def)

theorem take_put_back_witness:
  "\<exists>e out out'. locked (take_body (submission_key sample_repo sample_sha) 9 ''ev'' ''t1'') (Some (save_text one_waiting))
      = Inr (Some e, out)
    \<and> put_back None (Some out) = Inr (Some e, out')
    \<and> load (Some out') = Inr (one_waiting\<lparr>block := 9\<rparr>)"
proof -
  let ?e = "new_entry (make_ref sample_repo sample_sha) None [] ''t0'' 4"
  have k: "e_key ?e = submission_key sample_repo sample_sha" by (simp add: new_entry_def make_ref_def)
  have f: "load (Some (save_text one_waiting)) = Inr one_waiting"
    using load_save_ok [OF one_waiting_ok] by (simp add: norm_state_def one_waiting_def)
  have m: "?e \<in> set (entries one_waiting)" by (simp add: one_waiting_def)
  obtain t out where t: "locked (take_body (e_key ?e) 9 ''ev'' ''t1'') (Some (save_text one_waiting)) = Inr (t, out)"
    using f by (simp add: locked_def case_prod_unfold Let_def)
  have "one_waiting\<lparr>entries := ?e # drop_key (e_key ?e) (entries one_waiting), in_progress := None,
      block := max (block one_waiting) 9\<rparr> = one_waiting\<lparr>block := 9\<rparr>"
    by (simp add: one_waiting_def drop_key_def)
  with take_put_back [OF f one_waiting_ok m t, of None] t show ?thesis unfolding k by metis
qed

text \<open>C18. Only an operation on an entry's own key moves it: every operation leaves the entries of the
  other keys in place and in order, and only an explicit \<open>set_block\<close> can lower the block counter;
  a claimed block is past both the counter and the head's.\<close>

theorem queue_fifo:
  assumes "change op st = Inr st'"
  shows "filter (\<lambda>e. e_key e \<notin> named_keys op st) (entries st') = filter (\<lambda>e. e_key e \<notin> named_keys op st) (entries st)
    \<and> ((\<forall>b. op \<noteq> Set_Block b) \<longrightarrow> block st \<le> block st')
    \<and> (\<forall>b. op = Claim_Block b \<longrightarrow> block st < block st' \<and> b < block st')"
proof -
  have "block st \<le> block st'" if "\<And>b. op \<noteq> Set_Block b"
    using assms that
    by (cases op) (auto simp: with_ref_def add_body_def offer_body_def remove_body_def pop_body_def take_body_def
        put_back_body_def start_body_def finish_body_def advance_block_body_def claim_block_body_def Let_def
        split: sum.splits option.splits list.splits if_splits)
  then show ?thesis using others_kept [OF assms] assms
    by (auto simp: claim_block_body_def Let_def)
qed

theorem queue_fifo_witness: "block block_one < block (snd (claim_block_body 5 block_one))"
  using queue_fifo [of "Claim_Block 5" block_one "snd (claim_block_body 5 block_one)"] by simp

text \<open>C19. Saving and loading are inverse: what a process saves is what the next one loads, up to the
  order of the keys inside the two dicts an in-progress duel carries.\<close>

theorem queue_roundtrip:
  assumes "queue_ok st"
  shows "load (Some (save_text st)) = Inr (norm_state st) \<and> save_text (norm_state st) = save_text st"
  using load_save_ok [OF assms] by simp

theorem queue_roundtrip_witness: "load (Some (save_text block_one)) = Inr (norm_state block_one)"
  using queue_roundtrip [of block_one] by (simp add: queue_ok_def block_one_def)

end
