(* ===== verification/Py.thy ===== *)
theory Py
  imports Json_Pretty
begin

text \<open>
  Python's built-in operations on JSON values, where the program applies them to documents it has
  not checked yet: equality with numbers compared by value, membership, iteration, \<open>str\<close>,
  \<open>str.strip\<close> and \<open>isspace\<close>, \<open>posixpath.normpath\<close>. \<open>None\<close> is a raise.
\<close>

fun num_of :: "json \<Rightarrow> rat option" where
  "num_of (JBool b) = Some (if b then 1 else 0)"
| "num_of (JInt i) = Some (of_int i)"
| "num_of (JFloat q) = Some q"
| "num_of _ = None"

lemma size_member: "x \<in> set xs \<Longrightarrow> f x < Suc (size_list f xs)"
  by (induction xs) auto

lemma size_item: "kv \<in> set kvs \<Longrightarrow> size (snd kv) < Suc (size_list (\<lambda>p. Suc (size (snd p))) kvs)"
  using size_member [of kv kvs "\<lambda>p. Suc (size (snd p))"] by simp

text \<open>\<open>a == b\<close>; dicts compare by their lookups, whatever the order.\<close>

function (sequential) py_eq :: "json \<Rightarrow> json \<Rightarrow> bool" where
  "py_eq (JArr xs) b = (case b of JArr ys \<Rightarrow> length xs = length ys \<and> list_all (\<lambda>(x, y). py_eq x y) (zip xs ys) | _ \<Rightarrow> False)"
| "py_eq (JObj kvs) b = (case b of
     JObj lvs \<Rightarrow> length kvs = length lvs
       \<and> list_all (\<lambda>kv. case map_of lvs (fst kv) of None \<Rightarrow> False | Some v \<Rightarrow> py_eq (snd kv) v) kvs
   | _ \<Rightarrow> False)"
| "py_eq a b = (case (num_of a, num_of b) of (Some x, Some y) \<Rightarrow> x = y | _ \<Rightarrow> a = b)"
  by pat_completeness auto

termination py_eq
proof (relation "measure (\<lambda>p. size (fst p))", goal_cases)
  case (2 xs b ys z a c)
  then have "a \<in> set xs" by (metis set_zip_leftD)
  with size_member [of a xs size] show ?case by simp
next
  case (3 kvs b lvs kv v)
  have "(\<lambda>p :: string \<times> json. Suc (size (snd p))) = size_prod (\<lambda>x. 0) size" by (auto simp: fun_eq_iff)
  with 3 show ?case using size_item [of kv kvs] by simp
qed simp

lemma py_eq_refl:
  assumes "wf_json j"
  shows "py_eq j j"
  using assms
proof (induction j)
  case (JArr xs)
  then show ?case by (auto simp: list_all_iff zip_same in_set_zip)
next
  case (JObj kvs)
  then show ?case by (auto simp: list_all_iff map_of_is_SomeI)
qed simp_all

text \<open>\<open>set(xs)\<close>, by first occurrence.\<close>

definition py_set :: "json list \<Rightarrow> json list" where
  "py_set xs = foldl (\<lambda>acc x. if list_ex (py_eq x) acc then acc else acc @ [x]) [] xs"

definition hashable :: "json \<Rightarrow> bool" where
  "hashable v \<longleftrightarrow> \<not> is_list v \<and> \<not> is_obj v"

definition is_sub :: "string \<Rightarrow> string \<Rightarrow> bool" where
  "is_sub p s \<longleftrightarrow> (\<exists>i\<in>set [0..<length s + 1]. startswith (drop i s) p)"

text \<open>\<open>v in c\<close> and \<open>for x in c\<close>.\<close>

fun py_in :: "json \<Rightarrow> json \<Rightarrow> bool option" where
  "py_in v (JObj kvs) = (if hashable v then Some (\<exists>k\<in>set (map fst kvs). v = JStr k) else None)"
| "py_in v (JArr xs) = Some (list_ex (py_eq v) xs)"
| "py_in v (JStr s) = (case v of JStr p \<Rightarrow> Some (is_sub p s) | _ \<Rightarrow> None)"
| "py_in v _ = None"

fun py_iter :: "json \<Rightarrow> json list option" where
  "py_iter (JObj kvs) = Some (map (JStr \<circ> fst) kvs)"
| "py_iter (JArr xs) = Some xs"
| "py_iter (JStr s) = Some (map (\<lambda>c. JStr [c]) s)"
| "py_iter _ = None"

text \<open>\<open>str(v)\<close>; the text of a list or a dict is only ever part of a message.\<close>

fun py_str :: "json \<Rightarrow> string" where
  "py_str JNull = ''None''"
| "py_str (JBool b) = (if b then ''True'' else ''False'')"
| "py_str (JInt i) = str_of_int i"
| "py_str (JFloat q) = float_repr q"
| "py_str (JStr s) = s"
| "py_str v = line_json v"

definition or_empty :: "json \<Rightarrow> json" where
  "or_empty v = (if truthy v then v else JObj [])"

definition py_space :: "char \<Rightarrow> bool" where
  "py_space c \<longleftrightarrow> (9 \<le> code c \<and> code c \<le> 13) \<or> (28 \<le> code c \<and> code c \<le> 32) \<or> code c = 133 \<or> code c = 160"

definition strip :: "string \<Rightarrow> string" where
  "strip s = rev (dropWhile py_space (rev (dropWhile py_space s)))"

text \<open>\<open>int(s)\<close> of what \<open>isdigit\<close> accepts: the superscripts raise.\<close>

definition int_of_isdigit :: "string \<Rightarrow> nat option" where
  "int_of_isdigit s = (if list_all ascii_digit s then Some (nat_of_digits s) else None)"

text \<open>\<open>posixpath.normpath\<close>.\<close>

fun norm_comps :: "bool \<Rightarrow> string list \<Rightarrow> string list \<Rightarrow> string list" where
  "norm_comps ab acc [] = rev acc"
| "norm_comps ab acc (c # cs) =
     (if c = [] \<or> c = ''.'' then norm_comps ab acc cs
      else if c \<noteq> ''..'' \<or> (\<not> ab \<and> acc = []) \<or> (acc \<noteq> [] \<and> hd acc = ''..'')
      then norm_comps ab (c # acc) cs
      else norm_comps ab (tl acc) cs)"

definition normpath :: "string \<Rightarrow> string" where
  "normpath p =
     (if p = [] then ''.''
      else let slashes = (if startswith p ''//'' \<and> \<not> startswith p ''///'' then ''//''
                          else if startswith p ''/'' then ''/'' else []);
               out = slashes @ join ''/'' (norm_comps (slashes \<noteq> []) [] (split_on (CHR ''/'') p))
           in if out = [] then ''.'' else out)"

lemma or_empty_obj [simp]: "is_obj v \<Longrightarrow> is_obj (or_empty v)"
  by (simp add: or_empty_def)

lemma truthy_or_empty: "\<not> truthy v \<Longrightarrow> jget (or_empty v) k = JNull"
  by (simp add: or_empty_def jget_def)

lemma jget_or_empty [simp]: "is_obj (or_empty v) \<Longrightarrow> jget (or_empty v) k = jget v k"
  by (cases v) (auto simp: or_empty_def jget_def)

end
