(* ===== verification/Contract.thy ===== *)
theory Contract
  imports Py Regex Sha256
begin

text \<open>
  \<open>spec.py\<close>: the contract. \<open>validate_spec\<close> lists every problem of a document by its path, in the
  code's order; \<open>None\<close> is a document it raises on (a list where it calls \<open>.get\<close>, an unhashable
  value looked up in a set). The accessors of \<open>Spec\<close> read the raw document; \<open>None\<close> is a raise.
  What an accepted contract guarantees is proved at the end.
\<close>

section \<open>Patterns and constants\<close>

definition id_char :: "char \<Rightarrow> bool" where
  "id_char c \<longleftrightarrow> lower_az c \<or> ascii_digit c \<or> c = CHR ''_''"

definition SKILL_ID_RE :: rx where "SKILL_ID_RE = Cat (Cls lower_az) (Star (Cls id_char))"
definition SKILL_CODE_RE :: rx where "SKILL_CODE_RE = Rep 2 (Cls lower_az)"
definition TRACK_ID_RE :: rx where "TRACK_ID_RE = Cat (Cls lower_az) (Star (Cls id_char))"
definition TRACK_CODE_RE :: rx where "TRACK_CODE_RE = Rep 2 (Cls lower_az)"
definition BENCHMARK_ID_RE :: rx where "BENCHMARK_ID_RE = Cat (Cls lower_az) (Star (Cls id_char))"
definition HEX64_RE :: rx where "HEX64_RE = Rep 64 (Cls hex_lower)"
definition IMAGE_DIGEST_RE :: rx where "IMAGE_DIGEST_RE = Cat (Lit ''sha256:'') (Rep 64 (Cls hex_lower))"

definition slug_char :: "char \<Rightarrow> bool" where
  "slug_char c \<longleftrightarrow> lower_az c \<or> ascii_digit c"

definition SLUG_RE :: rx where
  "SLUG_RE = Cat (Plus (Cls slug_char)) (Star (Cat (Lit ''-'') (Plus (Cls slug_char))))"

definition ACTION_TYPES :: "string list" where "ACTION_TYPES = [''qpos'', ''ee'']"
definition PROTOCOLS :: "string list" where "PROTOCOLS = [''different_initial_state'', ''same_initial_state'']"
definition DEMO_VIEWS :: "string list" where "DEMO_VIEWS = [''sensorimotor'']"
definition PROMPT_SOURCES :: "string list" where "PROMPT_SOURCES = [''materialized'']"
definition BENCHMARK_API_VERSION :: int where "BENCHMARK_API_VERSION = 1"

definition BUDGETS :: "string list" where
  "BUDGETS = [''policy_start_seconds'', ''act_timeout_s'', ''materialize_wall_seconds'',
     ''unit_wall_seconds'', ''policy_budget_seconds'', ''side_wall_seconds'', ''duel_wall_seconds'']"

definition SANDBOX_RESERVED_PATHS :: "string list" where
  "SANDBOX_RESERVED_PATHS = [''/proc'', ''/sys'', ''/dev'', ''/submission'', ''/run/icil'']"

section \<open>Value checks\<close>

fun positive_int :: "json \<Rightarrow> bool" where
  "positive_int (JInt i) \<longleftrightarrow> 0 < i" | "positive_int _ \<longleftrightarrow> False"

fun positive_number :: "json \<Rightarrow> bool" where
  "positive_number (JInt i) \<longleftrightarrow> 0 < i" | "positive_number (JFloat q) \<longleftrightarrow> 0 < q" | "positive_number _ \<longleftrightarrow> False"

fun is_number :: "json \<Rightarrow> bool" where
  "is_number (JInt i) \<longleftrightarrow> True" | "is_number (JFloat q) \<longleftrightarrow> True" | "is_number _ \<longleftrightarrow> False"

fun is_text :: "json \<Rightarrow> bool" where
  "is_text (JStr s) \<longleftrightarrow> s \<noteq> []" | "is_text _ \<longleftrightarrow> False"

text \<open>\<open>isinstance(v, (int, float)) and lo <= v <= hi\<close>: a bool is an int.\<close>

definition in_range :: "json \<Rightarrow> rat \<Rightarrow> rat \<Rightarrow> bool" where
  "in_range v lo hi = (case num_of v of None \<Rightarrow> False | Some q \<Rightarrow> lo \<le> q \<and> q \<le> hi)"

definition str_in :: "json \<Rightarrow> string list \<Rightarrow> bool" where
  "str_in v ss = (case v of JStr s \<Rightarrow> s \<in> set ss | _ \<Rightarrow> False)"

definition text_matches :: "rx \<Rightarrow> json \<Rightarrow> bool" where
  "text_matches r v = (case v of JStr s \<Rightarrow> rx_match_dollar r s | _ \<Rightarrow> False)"

text \<open>\<open>_non_root\<close>: \<open>None\<close> where \<open>int(name)\<close> raises.\<close>

fun non_root_parts :: "string list \<Rightarrow> bool option" where
  "non_root_parts [] = Some True"
| "non_root_parts (part # ps) =
     (let name = strip part in
      if name = [] \<or> name = ''root'' then Some False
      else if py_isdigit name then
        (case int_of_isdigit name of None \<Rightarrow> None
         | Some n \<Rightarrow> if n = 0 then Some False else non_root_parts ps)
      else non_root_parts ps)"

definition non_root :: "json \<Rightarrow> bool option" where
  "non_root v = (case v of
       JStr s \<Rightarrow> (if s = [] then Some False
                  else let parts = split_on (CHR '':'') s
                       in if length parts > 2 then Some False else non_root_parts parts)
     | _ \<Rightarrow> Some False)"

definition tmpfs_path :: "json \<Rightarrow> bool" where
  "tmpfs_path v = (case v of
       JStr s \<Rightarrow> startswith s ''/'' \<and> \<not> startswith s ''//'' \<and> normpath s = s
                  \<and> CHR '':'' \<notin> set s \<and> CHR '','' \<notin> set s \<and> \<not> list_ex py_space s
     | _ \<Rightarrow> False)"

definition tmpfs_reserved :: "string \<Rightarrow> bool" where
  "tmpfs_reserved p \<longleftrightarrow> p = ''/'' \<or> list_ex (\<lambda>r. p = r \<or> startswith p (r @ ''/'')) SANDBOX_RESERVED_PATHS"

section \<open>Checks as lists of failures\<close>

definition need :: "string \<Rightarrow> bool \<Rightarrow> string list" where
  "need path cond = (if cond then [] else [path])"

text \<open>Failures of parts in order; a part that raises raises all.\<close>

definition all_parts :: "string list option list \<Rightarrow> string list option" where
  "all_parts parts = (if list_ex (\<lambda>p. p = None) parts then None else Some (concat (map the parts)))"

abbreviation ok :: "string list \<Rightarrow> string list option" where "ok \<equiv> Some"

definition environment_errors :: "string \<Rightarrow> json \<Rightarrow> string list option" where
  "environment_errors at_path env =
     (let emb = jget env ''embodiment''; cams = jget env ''cameras''; types = jget env ''action_types'';
          dims = jget env ''action_dims''; ts = (case types of JArr xs \<Rightarrow> xs | _ \<Rightarrow> [])
      in if is_obj dims \<and> \<not> list_all hashable ts then None
         else ok (need (at_path @ ''.embodiment [left arm, right arm, distance|null]'')
               (case emb of JArr [a, b, d] \<Rightarrow> is_text a \<and> is_text b \<and> (d = JNull \<or> is_number d) | _ \<Rightarrow> False)
           @ need (at_path @ ''.cameras non-empty list of names'')
               (case cams of JArr cs \<Rightarrow> cs \<noteq> [] \<and> list_all is_text cs | _ \<Rightarrow> False)
           @ need (at_path @ ''.action_types non-empty subset of ['' @ [CHR 0x27] @ ''qpos'' @ [CHR 0x27] @ '', ''
                @ [CHR 0x27] @ ''ee'' @ [CHR 0x27] @ '']'')
               (case types of JArr xs \<Rightarrow> xs \<noteq> [] \<and> list_all (\<lambda>t. str_in t ACTION_TYPES) xs | _ \<Rightarrow> False)
           @ need (at_path @ ''.action_dims mapping'') (is_obj dims)
           @ concat (map (\<lambda>t. need (at_path @ ''.action_dims.'' @ py_str t @ ''>0'')
                (is_obj dims \<and> (case t of JStr s \<Rightarrow> positive_int (jget dims s) | _ \<Rightarrow> False))) ts)))"

section \<open>Benchmarks and skills\<close>

definition benchmark_errors :: "string \<times> json \<Rightarrow> string list" where
  "benchmark_errors ne = (let name = fst ne; e = snd ne; p = ''benchmarks.'' @ name in
     if startswith name ''_'' then []
     else need (p @ '' id'') (rx_match_dollar BENCHMARK_ID_RE name)
       @ (if \<not> is_obj e then [p @ '': mapping'']
          else need (p @ ''.distribution'') (is_text (jget e ''distribution''))
            @ need (p @ ''.api_version == 1'') (py_eq (jget e ''api_version'') (JInt BENCHMARK_API_VERSION))
            @ need (p @ ''.version str|null'') (jget e ''version'' = JNull \<or> is_text (jget e ''version''))
            @ need (p @ ''.wheel_sha256 hex64|null'')
                (jget e ''wheel_sha256'' = JNull \<or> text_matches HEX64_RE (jget e ''wheel_sha256''))))"

text \<open>The skills loop carries the codes seen so far; \<open>code not in codes\<close> raises on a list or a dict.\<close>

fun skills_errors :: "json \<Rightarrow> string list \<Rightarrow> items \<Rightarrow> string list option" where
  "skills_errors benchmarks codes [] = ok []"
| "skills_errors benchmarks codes ((sid, s) # rest) =
     (let p = ''skills.'' @ sid; here = need (p @ '' id'') (rx_match_dollar SKILL_ID_RE sid) in
      if \<not> is_obj s then all_parts [ok here, ok [p @ '': mapping''], skills_errors benchmarks codes rest]
      else let cd = jget s ''code''; bench = jget s ''benchmark''; env = jget s ''environment'' in
        if \<not> hashable cd then None
        else all_parts [ok here,
          ok (need (p @ ''.code'') (text_matches SKILL_CODE_RE cd)
            @ need (p @ ''.code unique'') (\<not> (\<exists>c\<in>set codes. cd = JStr c))
            @ concat (map (\<lambda>k. need (p @ ''.'' @ k) (is_text (jget s k))) [''title'', ''blurb'', ''suite''])
            @ need (p @ ''.category'') (jget s ''category'' = JNull \<or> is_text (jget s ''category''))),
          (if is_str bench then map_option (\<lambda>b. need (p @ ''.benchmark declared'') b) (py_in bench benchmarks)
           else ok [p @ ''.benchmark declared'']),
          ok (need (p @ ''.max_steps'') (positive_int (jget s ''max_steps''))
            @ need (p @ ''.environment'') (is_obj env)),
          environment_errors (p @ ''.environment'') (if is_obj env then env else JObj []),
          ok (concat (map (\<lambda>k. need (p @ ''.'' @ k @ '' removed'') (\<not> jhas s k))
            [''architecture'', ''simulator'', ''tasks'', ''perturbations''])),
          skills_errors benchmarks (codes @ [py_str cd]) rest])"

section \<open>Duels and tracks\<close>

definition size_errors :: "string \<Rightarrow> string \<times> json \<Rightarrow> string list" where
  "size_errors p ne = (if \<not> is_obj (snd ne) then [p @ fst ne @ '' is an object'']
     else need (p @ fst ne @ ''.units_per_skill>=1'') (positive_int (jget (snd ne) ''units_per_skill'')))"

definition duel_errors :: "json \<Rightarrow> string list option" where
  "duel_errors duel =
     (let sizes = or_empty (jget duel ''sizes'') in
      if \<not> is_obj duel \<or> \<not> is_obj sizes then None
      else all_parts [map_option (need ''duel.default_size in sizes'') (py_in (jget duel ''default_size'') sizes),
        ok (concat (map (size_errors ''duel.sizes.'') (jitems sizes))
          @ need ''duel.score_margin in [0,100]'' (in_range (jget duel ''score_margin'') 0 100)
          @ need ''duel.max_void_fraction in [0,1]'' (in_range (jget duel ''max_void_fraction'') 0 1))])"

definition claimed_of :: "json \<Rightarrow> json list option" where
  "claimed_of t = (let ts = jget t ''skills'' in if truthy ts then py_iter ts else Some [])"

definition track_skill_errors :: "string \<Rightarrow> json \<Rightarrow> json list \<Rightarrow> string list option" where
  "track_skill_errors p skills sids =
     all_parts (map (\<lambda>sid. map_option (need (p @ ''.skills.'' @ py_str sid @ '' exists'')) (py_in sid skills)) sids)"

definition same_names :: "json \<Rightarrow> json \<Rightarrow> bool" where
  "same_names a b \<longleftrightarrow> set (map fst (jitems a)) = set (map fst (jitems b))"

definition track_size_errors :: "string \<Rightarrow> json \<Rightarrow> json \<Rightarrow> string list option" where
  "track_size_errors p own sizes =
     (if own = JNull then ok []
      else if truthy own \<and> \<not> is_obj own then None
      else ok (need (p @ ''.sizes names match duel.sizes'') (is_obj own \<and> same_names own sizes)
        @ concat (map (size_errors (p @ ''.sizes.'')) (jitems own))))"

definition override_errors :: "string \<Rightarrow> json \<Rightarrow> string list" where
  "override_errors p t =
     (if jhas t ''score_margin'' then need (p @ ''.score_margin in [0,100]'') (in_range (jget t ''score_margin'') 0 100) else [])
     @ (if jhas t ''max_void_fraction'' then need (p @ ''.max_void_fraction in [0,1]'') (in_range (jget t ''max_void_fraction'') 0 1) else [])"

text \<open>One track, given the slugs and codes of the tracks before it.\<close>

definition track_errors :: "json \<Rightarrow> json \<Rightarrow> string list \<Rightarrow> string list \<Rightarrow> string \<Rightarrow> json \<Rightarrow> string list option" where
  "track_errors skills sizes slugs cds tid t =
     (let p = ''tracks.'' @ tid; cd = jget t ''code''; slug = jget_or t ''slug'' (JStr []);
          demo = or_empty (jget t ''demonstration''); own = jget t ''sizes''; ts = jget t ''skills'';
          disjoint = jget t ''prompt_instance_disjoint'' in
      if \<not> hashable cd \<or> \<not> hashable slug \<or> \<not> is_obj demo then None
      else all_parts [
        ok (need (p @ ''.id == key'') (jget t ''id'' = JStr tid)
          @ need (p @ ''.code'') (text_matches TRACK_CODE_RE cd)
          @ need (p @ ''.code unique'') (\<not> (\<exists>c\<in>set cds. cd = JStr c))
          @ need (p @ ''.slug'') (rx_match_dollar SLUG_RE (py_str slug))
          @ need (p @ ''.slug unique'') (\<not> (\<exists>s\<in>set slugs. jget t ''slug'' = JStr s))
          @ concat (map (\<lambda>k. need (p @ ''.'' @ k) (is_text (jget t k))) [''short'', ''title'', ''blurb''])
          @ need (p @ ''.k_demos==1'') (py_eq (jget t ''k_demos'') (JInt 1))
          @ need (p @ ''.language==none'') (jget t ''language'' = JStr ''none'')
          @ need (p @ ''.protocol'') (str_in (jget t ''protocol'') PROTOCOLS)
          @ need (p @ ''.prompts'') (str_in (jget t ''prompts'') PROMPT_SOURCES)
          @ need (p @ ''.prompt_instance_disjoint'') (is_bool disjoint)
          @ need (p @ ''.prompt_instance_disjoint matches protocol'')
              (py_eq disjoint (JBool (jget t ''protocol'' = JStr ''different_initial_state'')))
          @ need (p @ ''.demonstration.view'') (str_in (jget demo ''view'') DEMO_VIEWS)
          @ need (p @ ''.demonstration.modalities has video'')
              (case jget demo ''modalities'' of JArr ms \<Rightarrow> JStr ''video'' \<in> set ms | _ \<Rightarrow> False)
          @ need (p @ ''.demonstration.withheld'') (is_list (jget demo ''withheld''))
          @ need (p @ ''.demonstration.withheld is empty'') (jget demo ''withheld'' = JArr [])
          @ need (p @ ''.skills non-empty'') (is_list ts \<and> truthy ts)),
        (case claimed_of t of None \<Rightarrow> None | Some sids \<Rightarrow> track_skill_errors p skills sids),
        track_size_errors p own sizes,
        map_option (need (p @ ''.default_size in sizes''))
          (py_in (jget t ''default_size'') (if own \<noteq> JNull then own else sizes)),
        ok (override_errors p t)])"

text \<open>The tracks loop: slugs, codes and claimed skills so far. A track that is no mapping adds none.\<close>

fun tracks_errors :: "json \<Rightarrow> json \<Rightarrow> string list \<Rightarrow> string list \<Rightarrow> json list \<Rightarrow> items
    \<Rightarrow> (string list \<times> json list) option" where
  "tracks_errors skills sizes slugs cds claimed [] = Some ([], claimed)"
| "tracks_errors skills sizes slugs cds claimed ((tid, t) # rest) =
     (let here = need (''tracks.'' @ tid @ '' id'') (rx_match_dollar TRACK_ID_RE tid) in
      if \<not> is_obj t
      then map_option (\<lambda>(es, cl). (here @ [''tracks.'' @ tid @ '': mapping''] @ es, cl))
             (tracks_errors skills sizes slugs cds claimed rest)
      else case (track_errors skills sizes slugs cds tid t, claimed_of t) of
          (Some own, Some sids) \<Rightarrow>
            map_option (\<lambda>(es, cl). (here @ own @ es, cl))
              (tracks_errors skills sizes (slugs @ [py_str (jget t ''slug'')]) (cds @ [py_str (jget t ''code'')])
                 (claimed @ sids) rest)
        | _ \<Rightarrow> None)"

text \<open>\<open>sorted\<close> of values of one kind; of several kinds it raises. Only equality of the two sides matters.\<close>

definition sortable :: "json list \<Rightarrow> bool" where
  "sortable xs \<longleftrightarrow> length xs \<le> 1 \<or> list_all is_str xs \<or> list_all (\<lambda>x. num_of x \<noteq> None) xs"

definition partition_errors :: "json \<Rightarrow> json list \<Rightarrow> string list option" where
  "partition_errors skills claimed =
     (case py_iter skills of
        None \<Rightarrow> None
      | Some ks \<Rightarrow>
          if \<not> list_all hashable claimed \<or> \<not> sortable (py_set claimed) \<or> \<not> sortable ks then None
          else ok (need ''tracks partition the skills''
                (length (py_set claimed) = length ks \<and> list_all (\<lambda>k. list_ex (py_eq k) claimed) ks
                  \<and> list_all (\<lambda>c. list_ex (py_eq c) ks) claimed)
            @ need ''tracks claim no skill twice'' (length claimed = length (py_set claimed))))"

section \<open>The rest\<close>

definition baseline_errors :: "json \<Rightarrow> json \<Rightarrow> string list" where
  "baseline_errors baselines tracks =
     need ''baselines'' (is_obj baselines)
     @ concat (map (\<lambda>tid.
         (let entry = jget baselines tid in
          need (''baselines.'' @ tid) (is_obj baselines \<and> jhas baselines tid)
          @ need (''baselines.'' @ tid @ '' null or {repo, revision}'')
              (entry = JNull \<or> is_obj entry \<and> is_text (jget entry ''repo''))))
         (map fst (jitems tracks)))"

definition budget_errors :: "json \<Rightarrow> string list option" where
  "budget_errors budgets =
     (if \<not> is_obj budgets then None
      else let pol = jget budgets ''policy_budget_seconds''; unt = jget budgets ''unit_wall_seconds'' in
        ok (concat (map (\<lambda>k. need (''budgets.'' @ k @ ''>0'') (positive_number (jget budgets k))) BUDGETS)
          @ need ''budgets.policy_budget_seconds<unit_wall_seconds''
              (\<not> (positive_number pol \<and> positive_number unt) \<or> the (num_of pol) < the (num_of unt))))"

definition tmpfs_paths :: "json \<Rightarrow> string list option" where
  "tmpfs_paths v = (case v of
       JArr xs \<Rightarrow> if xs \<noteq> [] \<and> list_all tmpfs_path xs then Some (map (the \<circ> as_str) xs) else None
     | _ \<Rightarrow> None)"

definition sandbox_errors :: "json \<Rightarrow> string list option" where
  "sandbox_errors sandbox =
     (if \<not> is_obj sandbox then None
      else let p = ''submission.sandbox.''; paths = tmpfs_paths (jget sandbox ''tmpfs'');
               bytes = jget sandbox ''tmpfs_bytes''; memory = jget sandbox ''memory_bytes''
        in all_parts [
          ok (need (p @ ''network == none'') (jget sandbox ''network'' = JStr ''none'')
            @ need (p @ ''read_only_root'') (jget sandbox ''read_only_root'' = JBool True)
            @ need (p @ ''tmpfs non-empty list of absolute paths'') (paths \<noteq> None)
            @ (case paths of None \<Rightarrow> [] | Some ps \<Rightarrow>
                 need (p @ ''tmpfs paths distinct'') (distinct ps)
                 @ need (p @ ''tmpfs not / and not at or under '' @ join '', '' SANDBOX_RESERVED_PATHS)
                     (\<not> list_ex tmpfs_reserved ps))
            @ need (p @ ''tmpfs_exec bool'') (is_bool (jget sandbox ''tmpfs_exec''))
            @ need (p @ ''tmpfs_bytes x len(tmpfs) in 1..memory_bytes'')
                (positive_int bytes \<and> positive_number memory
                 \<and> the (num_of bytes) * of_nat (case paths of None \<Rightarrow> 1 | Some ps \<Rightarrow> length ps) \<le> the (num_of memory))),
          map_option (need (p @ ''user non-root'')) (non_root (jget sandbox ''user'')),
          ok (concat (map (\<lambda>k. need (p @ k @ ''>0'') (positive_number (jget sandbox k)))
            [''gpus'', ''memory_bytes'', ''cpus'', ''pids'']))])"

definition submission_errors :: "json \<Rightarrow> string list option" where
  "submission_errors sub =
     (let image = or_empty (jget sub ''base_image''); digest = jget image ''digest'' in
      if \<not> is_obj sub \<or> \<not> is_obj image then None
      else all_parts [
        ok (need ''submission.manifest'' (is_text (jget sub ''manifest''))
          @ need ''submission.manifest_api:int'' (positive_int (jget sub ''manifest_api''))
          @ need ''submission.policy_protocol:int'' (positive_int (jget sub ''policy_protocol''))
          @ need ''submission.max_repo_bytes'' (positive_int (jget sub ''max_repo_bytes''))
          @ need ''submission.base_image.name'' (is_text (jget image ''name''))
          @ need ''submission.base_image.digest sha256:<hex>|null'' (digest = JNull \<or> text_matches IMAGE_DIGEST_RE digest)),
        sandbox_errors (or_empty (jget sub ''sandbox''))])"

definition tail_errors :: "json \<Rightarrow> string list option" where
  "tail_errors doc =
     (let media = or_empty (jget doc ''media''); video = or_empty (jget media ''video'');
          store = or_empty (jget doc ''store''); live = or_empty (jget doc ''live'') in
      if \<not> is_obj media \<or> \<not> is_obj video \<or> \<not> is_obj store \<or> \<not> is_obj live then None
      else ok (need ''media.video.format'' (is_text (jget video ''format''))
        @ need ''store.schema:int'' (positive_int (jget store ''schema''))
        @ need ''store.index_lines_per_part>=1'' (positive_int (jget store ''index_lines_per_part''))
        @ need ''store.media_bucket_hex in 1..4''
            (list_ex (\<lambda>n. py_eq (jget store ''media_bucket_hex'') (JInt n)) [1, 2, 3, 4])
        @ need ''live.schema:int'' (positive_int (jget live ''schema''))
        @ need ''live.path'' (case jget live ''path'' of JStr s \<Rightarrow> startswith s ''/'' | _ \<Rightarrow> False)
        @ need ''live.max_frame_bytes'' (positive_int (jget live ''max_frame_bytes''))))"

definition validate_spec :: "json \<Rightarrow> string list option" where
  "validate_spec doc =
     (let benchmarks = or_empty (jget doc ''benchmarks''); skills = or_empty (jget doc ''skills'');
          duel = or_empty (jget doc ''duel''); sizes = or_empty (jget duel ''sizes'');
          tracks = or_empty (jget doc ''tracks'') in
      if \<not> is_obj doc then None
      else case tracks_errors skills sizes [] [] [] (jitems tracks) of
        None \<Rightarrow> None
      | Some (tracks_es, claimed) \<Rightarrow> all_parts [
          ok (need ''spec_version:int'' (positive_int (jget doc ''spec_version''))
            @ need ''track removed (v3); use tracks'' (\<not> jhas doc ''track'')
            @ concat (map (\<lambda>g. need (g @ '' removed (v7); submissions are code, see submission'') (\<not> jhas doc g)) [''model'', ''pools''])
            @ need ''benchmarks non-empty'' (is_obj benchmarks \<and> truthy benchmarks)
            @ concat (map benchmark_errors (jitems benchmarks))
            @ need ''skills non-empty'' (is_obj skills \<and> truthy skills)),
          skills_errors benchmarks [] (jitems skills),
          duel_errors duel,
          ok (need ''tracks non-empty'' (is_obj tracks \<and> truthy tracks)),
          ok tracks_es,
          partition_errors skills claimed,
          ok (baseline_errors (jget doc ''baselines'') tracks),
          budget_errors (or_empty (jget doc ''budgets'')),
          submission_errors (or_empty (jget doc ''submission'')),
          tail_errors doc])"

section \<open>The accessors of a contract\<close>

record contract =
  raw :: json
  fingerprint :: string

text \<open>\<open>load_spec_file\<close>: an unreadable text, a raise and a list of problems are all refusals.\<close>

datatype spec_error = Not_Json | Raised | Invalid_Spec "string list"

definition load_spec_text :: "string \<Rightarrow> spec_error + contract" where
  "load_spec_text text =
     (case loads text of None \<Rightarrow> Inl Not_Json
      | Some doc \<Rightarrow> (case validate_spec doc of None \<Rightarrow> Inl Raised
          | Some es \<Rightarrow> if es \<noteq> [] then Inl (Invalid_Spec es)
                        else Inr \<lparr>raw = doc, fingerprint = sha256_hex (canonical_json doc)\<rparr>))"

definition spec_section :: "contract \<Rightarrow> string \<Rightarrow> json" where
  "spec_section sp name = jget (raw sp) name"

definition spec_version :: "contract \<Rightarrow> int option" where
  "spec_version sp = as_int (spec_section sp ''spec_version'')"

definition spec_tracks :: "contract \<Rightarrow> string list" where
  "spec_tracks sp = map fst (jitems (spec_section sp ''tracks''))"

definition track :: "contract \<Rightarrow> string \<Rightarrow> json option" where
  "track sp t = key_of (spec_section sp ''tracks'') t"

definition sole_track :: "contract \<Rightarrow> string option" where
  "sole_track sp = (case spec_tracks sp of [t] \<Rightarrow> Some t | _ \<Rightarrow> None)"

definition track_title :: "contract \<Rightarrow> string \<Rightarrow> string option" where
  "track_title sp t = map_option py_str (Option.bind (track sp t) (\<lambda>d. key_of d ''title''))"

definition skills :: "contract \<Rightarrow> string \<Rightarrow> string list option" where
  "skills sp t = Option.bind (track sp t) (\<lambda>d. Option.bind (key_of d ''skills'')
     (\<lambda>v. Option.bind (as_list v) (\<lambda>xs. all_some (map as_str xs))))"

fun first_track :: "contract \<Rightarrow> string \<Rightarrow> string list \<Rightarrow> string option" where
  "first_track sp skill [] = None"
| "first_track sp skill (t # ts) =
     (case Option.bind (track sp t) (\<lambda>d. Option.bind (key_of d ''skills'') (py_in (JStr skill))) of
        None \<Rightarrow> None
      | Some found \<Rightarrow> if found then Some t else first_track sp skill ts)"

definition track_of :: "contract \<Rightarrow> string \<Rightarrow> string option" where
  "track_of sp skill = first_track sp skill (spec_tracks sp)"

definition demonstration :: "contract \<Rightarrow> string \<Rightarrow> json option" where
  "demonstration sp t = Option.bind (track sp t) (\<lambda>d. key_of d ''demonstration'')"

definition demo_view :: "contract \<Rightarrow> string \<Rightarrow> string option" where
  "demo_view sp t = map_option py_str (Option.bind (demonstration sp t) (\<lambda>d. key_of d ''view''))"

definition protocol :: "contract \<Rightarrow> string \<Rightarrow> string option" where
  "protocol sp t = map_option py_str (Option.bind (track sp t) (\<lambda>d. key_of d ''protocol''))"

definition all_skills :: "contract \<Rightarrow> string list" where
  "all_skills sp = map fst (jitems (spec_section sp ''skills''))"

definition skill :: "contract \<Rightarrow> string \<Rightarrow> json option" where
  "skill sp s = key_of (spec_section sp ''skills'') s"

definition skill_text :: "contract \<Rightarrow> string \<Rightarrow> string \<Rightarrow> string option" where
  "skill_text sp field s = map_option py_str (Option.bind (skill sp s) (\<lambda>d. key_of d field))"

definition skill_code :: "contract \<Rightarrow> string \<Rightarrow> string option" where
  "skill_code sp s = skill_text sp ''code'' s"

definition skill_title :: "contract \<Rightarrow> string \<Rightarrow> string option" where
  "skill_title sp s = skill_text sp ''title'' s"

definition benchmark_of :: "contract \<Rightarrow> string \<Rightarrow> string option" where
  "benchmark_of sp s = skill_text sp ''benchmark'' s"

definition suite :: "contract \<Rightarrow> string \<Rightarrow> string option" where
  "suite sp s = skill_text sp ''suite'' s"

definition category :: "contract \<Rightarrow> string \<Rightarrow> string option option" where
  "category sp s = map_option (\<lambda>d. if jget d ''category'' = JNull then None else Some (py_str (jget d ''category'')))
     (skill sp s)"

definition max_steps :: "contract \<Rightarrow> string \<Rightarrow> int option" where
  "max_steps sp s = Option.bind (skill sp s) (\<lambda>d. Option.bind (key_of d ''max_steps'') as_int)"

fun first_skill :: "contract \<Rightarrow> string \<Rightarrow> string list \<Rightarrow> string option" where
  "first_skill sp cd [] = None"
| "first_skill sp cd (s # ss) =
     (case skill_code sp s of None \<Rightarrow> None | Some c \<Rightarrow> if c = cd then Some s else first_skill sp cd ss)"

definition skill_for_code :: "contract \<Rightarrow> string \<Rightarrow> string option" where
  "skill_for_code sp cd = first_skill sp cd (all_skills sp)"

definition benchmarks_of :: "contract \<Rightarrow> string \<Rightarrow> string list option" where
  "benchmarks_of sp t = Option.bind (skills sp t) (\<lambda>ss.
     map_option (\<lambda>bs. map fst (dict_of (map (\<lambda>b. (b, ())) bs))) (all_some (map (benchmark_of sp) ss)))"

definition benchmark_pins :: "contract \<Rightarrow> items" where
  "benchmark_pins sp = filter (\<lambda>kv. \<not> startswith (fst kv) ''_'' \<and> is_obj (snd kv)) (jitems (spec_section sp ''benchmarks''))"

definition benchmark_pin :: "contract \<Rightarrow> string \<Rightarrow> json option" where
  "benchmark_pin sp name = map_of (benchmark_pins sp) name"

definition duel_of :: "contract \<Rightarrow> string \<Rightarrow> string \<Rightarrow> json option" where
  "duel_of sp t k = Option.bind (track sp t) (\<lambda>d.
     if jget d k = JNull then key_of (spec_section sp ''duel'') k else Some (jget d k))"

definition sizes :: "contract \<Rightarrow> string \<Rightarrow> string list option" where
  "sizes sp t = map_option (\<lambda>v. map fst (jitems v)) (duel_of sp t ''sizes'')"

definition default_size :: "contract \<Rightarrow> string \<Rightarrow> string option" where
  "default_size sp t = map_option py_str (Option.bind (track sp t) (\<lambda>d. key_of d ''default_size''))"

definition size_of :: "contract \<Rightarrow> string \<Rightarrow> string option \<Rightarrow> string option" where
  "size_of sp t sz = Option.bind (sizes sp t) (\<lambda>names.
     case sz of Some s \<Rightarrow> (if s \<in> set names then Some s else default_size sp t) | None \<Rightarrow> default_size sp t)"

definition units_per_skill :: "contract \<Rightarrow> string \<Rightarrow> string option \<Rightarrow> nat option" where
  "units_per_skill sp t sz = Option.bind (duel_of sp t ''sizes'') (\<lambda>v. Option.bind (size_of sp t sz) (\<lambda>s.
     Option.bind (key_of v s) (\<lambda>e. Option.bind (key_of e ''units_per_skill'') (\<lambda>n. map_option nat (as_int n)))))"

definition units_per_side :: "contract \<Rightarrow> string \<Rightarrow> string option \<Rightarrow> nat option" where
  "units_per_side sp t sz = Option.bind (units_per_skill sp t sz) (\<lambda>n. map_option (\<lambda>ss. n * length ss) (skills sp t))"

text \<open>\<open>float(v)\<close>.\<close>

fun to_float :: "json \<Rightarrow> rat option" where
  "to_float (JInt i) = Some (fl64 (of_int i))"
| "to_float v = num_of v"

definition margin_of :: "contract \<Rightarrow> string \<Rightarrow> rat option" where
  "margin_of sp t = Option.bind (duel_of sp t ''score_margin'') (\<lambda>v. to_float v)"

definition max_void_fraction :: "contract \<Rightarrow> string \<Rightarrow> rat option" where
  "max_void_fraction sp t = Option.bind (duel_of sp t ''max_void_fraction'') (\<lambda>v. to_float v)"

definition video_format :: "contract \<Rightarrow> string option" where
  "video_format sp = map_option py_str (Option.bind (key_of (spec_section sp ''media'') ''video'') (\<lambda>v. key_of v ''format''))"

definition baseline :: "contract \<Rightarrow> string \<Rightarrow> json option" where
  "baseline sp t = (let entry = jget (or_empty (spec_section sp ''baselines'')) t
     in if is_obj entry then Some entry else None)"

section \<open>What an accepted contract guarantees\<close>

lemma need_Nil [simp]: "need p c = [] \<longleftrightarrow> c"
  by (simp add: need_def)

lemma all_parts_Nil: "all_parts parts = Some [] \<longleftrightarrow> (\<forall>p\<in>set parts. p = Some [])"
proof (cases "list_ex (\<lambda>p. p = None) parts")
  case False
  then show ?thesis by (auto simp: all_parts_def list_ex_iff) (metis option.collapse)
qed (auto simp: all_parts_def list_ex_iff)

lemma tracks_step:
  assumes "tracks_errors sks szs slugs cds claimed ((tid, t) # ts) = Some ([], cl)"
  shows "is_obj t" and "track_errors sks szs slugs cds tid t = Some []"
    and "\<exists>sids. claimed_of t = Some sids \<and>
      tracks_errors sks szs (slugs @ [py_str (jget t ''slug'')]) (cds @ [py_str (jget t ''code'')]) (claimed @ sids) ts
      = Some ([], cl)"
proof -
  let ?own = "track_errors sks szs slugs cds tid t"
  have eq: "(if \<not> is_obj t
      then map_option (\<lambda>(es, cl). (need (''tracks.'' @ tid @ '' id'') (rx_match_dollar TRACK_ID_RE tid)
             @ [''tracks.'' @ tid @ '': mapping''] @ es, cl)) (tracks_errors sks szs slugs cds claimed ts)
      else case (?own, claimed_of t) of
          (Some own, Some sids) \<Rightarrow>
            map_option (\<lambda>(es, cl). (need (''tracks.'' @ tid @ '' id'') (rx_match_dollar TRACK_ID_RE tid) @ own @ es, cl))
              (tracks_errors sks szs (slugs @ [py_str (jget t ''slug'')]) (cds @ [py_str (jget t ''code'')]) (claimed @ sids) ts)
        | _ \<Rightarrow> None) = Some ([], cl)"
    using assms by (simp only: tracks_errors.simps Let_def)
  show obj: "is_obj t"
  proof (rule ccontr)
    assume "\<not> is_obj t"
    with eq show False by (cases "tracks_errors sks szs slugs cds claimed ts") auto
  qed
  obtain own sids where o: "?own = Some own" "claimed_of t = Some sids"
    using eq obj by (cases ?own; cases "claimed_of t") simp_all
  show "?own = Some []"
    and "\<exists>sids. claimed_of t = Some sids \<and>
      tracks_errors sks szs (slugs @ [py_str (jget t ''slug'')]) (cds @ [py_str (jget t ''code'')]) (claimed @ sids) ts
      = Some ([], cl)"
    using eq obj o by auto
qed

lemma tracks_errors_Nil:
  "tracks_errors sks szs slugs cds claimed ts = Some ([], cl) \<Longrightarrow>
   (\<forall>tid t. (tid, t) \<in> set ts \<longrightarrow> is_obj t \<and> (\<exists>slugs cds. track_errors sks szs slugs cds tid t = Some []) \<and> claimed_of t \<noteq> None)
   \<and> cl = claimed @ concat (map (the \<circ> claimed_of \<circ> snd) ts)"
proof (induction ts arbitrary: slugs cds claimed)
  case (Cons x ts)
  obtain tid t where x: "x = (tid, t)" by (cases x)
  note s = tracks_step [OF Cons.prems [unfolded x]]
  from s(3) obtain sids where c: "claimed_of t = Some sids"
    and rest: "tracks_errors sks szs (slugs @ [py_str (jget t ''slug'')]) (cds @ [py_str (jget t ''code'')]) (claimed @ sids) ts
      = Some ([], cl)" by blast
  show ?case using Cons.IH [OF rest] s(1,2) c unfolding x by auto
qed simp

text \<open>The parts of an accepted document.\<close>

lemma accepted_parts:
  assumes "validate_spec doc = Some []"
  shows "\<exists>claimed. is_obj doc
    \<and> tracks_errors (or_empty (jget doc ''skills'')) (or_empty (jget (or_empty (jget doc ''duel'')) ''sizes'')) [] [] []
        (jitems (or_empty (jget doc ''tracks''))) = Some ([], claimed)
    \<and> is_obj (or_empty (jget doc ''skills'')) \<and> is_obj (or_empty (jget doc ''tracks''))
    \<and> truthy (or_empty (jget doc ''tracks''))
    \<and> skills_errors (or_empty (jget doc ''benchmarks'')) [] (jitems (or_empty (jget doc ''skills''))) = Some []
    \<and> duel_errors (or_empty (jget doc ''duel'')) = Some []
    \<and> partition_errors (or_empty (jget doc ''skills'')) claimed = Some []
    \<and> budget_errors (or_empty (jget doc ''budgets'')) = Some []
    \<and> submission_errors (or_empty (jget doc ''submission'')) = Some []
    \<and> tail_errors doc = Some []"
  using assms by (simp add: validate_spec_def Let_def all_parts_Nil split: if_splits option.splits prod.splits)

lemma py_eq_str [simp]: "py_eq (JStr a) v \<longleftrightarrow> v = JStr a"
  by (cases v) auto

lemma length_py_set: "length (foldl (\<lambda>acc x. if list_ex (py_eq x) acc then acc else acc @ [x]) acc xs) \<le> length acc + length xs"
proof (induction xs arbitrary: acc)
  case (Cons x xs)
  show ?case using Cons.IH [of acc] Cons.IH [of "acc @ [x]"] by simp
qed simp

lemma py_set_distinct:
  assumes "list_all is_str xs" and "length xs = length (py_set xs)"
  shows "distinct xs"
proof -
  have "distinct xs \<and> set xs \<inter> set acc = {}"
    if "list_all is_str xs"
      "length acc + length xs = length (foldl (\<lambda>acc x. if list_ex (py_eq x) acc then acc else acc @ [x]) acc xs)" for acc xs
    using that
  proof (induction xs arbitrary: acc)
    case (Cons x xs)
    have new: "\<not> list_ex (py_eq x) acc"
    proof
      assume "list_ex (py_eq x) acc"
      with Cons.prems(2) length_py_set [of acc xs] show False by simp
    qed
    obtain s where x: "x = JStr s" using Cons.prems(1) by (cases x) auto
    from Cons.IH [of "acc @ [x]"] Cons.prems new have "distinct xs \<and> set xs \<inter> set (acc @ [x]) = {}" by simp
    moreover have "x \<notin> set acc" using new x by (auto simp: list_ex_iff)
    ultimately show ?case by auto
  qed simp
  from this [OF assms(1), of "[]"] assms(2) show ?thesis by (simp add: py_set_def)
qed

lemma track_accepted:
  assumes "track_errors sks szs slugs cds tid t = Some []" and "is_obj sks"
  shows "\<exists>ss. jget t ''skills'' = JArr (map JStr ss) \<and> ss \<noteq> [] \<and> set ss \<subseteq> set (map fst (jitems sks))"
    and "track_size_errors p (jget t ''sizes'') szs \<noteq> None"
    and "jget t ''sizes'' \<noteq> JNull \<Longrightarrow> track_size_errors (''tracks.'' @ tid) (jget t ''sizes'') szs = Some []"
    and "py_in (jget t ''default_size'') (if jget t ''sizes'' \<noteq> JNull then jget t ''sizes'' else szs) = Some True"
    and "override_errors (''tracks.'' @ tid) t = []"
proof -
  note parts = assms(1) [unfolded track_errors_def Let_def]
  have sq: "is_list (jget t ''skills'') \<and> truthy (jget t ''skills'')"
    and sk: "(case claimed_of t of None \<Rightarrow> None | Some sids \<Rightarrow> track_skill_errors (''tracks.'' @ tid) sks sids) = Some []"
    and sz: "track_size_errors (''tracks.'' @ tid) (jget t ''sizes'') szs = Some []"
    and df: "map_option (need (''tracks.'' @ tid @ ''.default_size in sizes''))
        (py_in (jget t ''default_size'') (if jget t ''sizes'' \<noteq> JNull then jget t ''sizes'' else szs)) = Some []"
    and ov: "override_errors (''tracks.'' @ tid) t = []"
    using parts by (simp_all add: all_parts_Nil split: if_splits)
  from sq obtain xs where xs: "jget t ''skills'' = JArr xs" "xs \<noteq> []" by (cases "jget t ''skills''") auto
  have ex: "\<exists>s. x = JStr s \<and> s \<in> set (map fst (jitems sks))" if "x \<in> set xs" for x
  proof -
    have "map_option (need (''tracks.'' @ tid @ ''.skills.'' @ py_str x @ '' exists'')) (py_in x sks) = Some []"
      using sk xs that by (auto simp: claimed_of_def track_skill_errors_def all_parts_Nil)
    then have "py_in x sks = Some True" by (cases "py_in x sks") auto
    then show ?thesis using assms(2) by (cases sks) (auto split: if_splits)
  qed
  define ss where "ss = map (\<lambda>x. the (as_str x)) xs"
  have "map JStr ss = xs" unfolding ss_def map_map by (rule map_idI) (use ex in fastforce)
  moreover have "set ss \<subseteq> set (map fst (jitems sks))"
  proof
    fix s assume "s \<in> set ss"
    then obtain x where "x \<in> set xs" "s = the (as_str x)" unfolding ss_def by auto
    with ex [of x] show "s \<in> set (map fst (jitems sks))" by force
  qed
  ultimately show "\<exists>ss. jget t ''skills'' = JArr (map JStr ss) \<and> ss \<noteq> [] \<and> set ss \<subseteq> set (map fst (jitems sks))"
    using xs by (intro exI [of _ ss]) auto
  show "track_size_errors p (jget t ''sizes'') szs \<noteq> None"
    using sz by (auto simp: track_size_errors_def split: if_splits)
  show "track_size_errors (''tracks.'' @ tid) (jget t ''sizes'') szs = Some []" using sz .
  show "py_in (jget t ''default_size'') (if jget t ''sizes'' \<noteq> JNull then jget t ''sizes'' else szs) = Some True"
    using df by (cases "py_in (jget t ''default_size'') (if jget t ''sizes'' \<noteq> JNull then jget t ''sizes'' else szs)") auto
  show "override_errors (''tracks.'' @ tid) t = []" using ov .
qed

lemma is_obj_key: "is_obj v \<Longrightarrow> k \<in> set (map fst (jitems v)) \<longleftrightarrow> key_of v k \<noteq> None"
  by (simp add: key_of_def map_of_eq_None_iff)

lemma key_of_jget: "key_of v k \<noteq> None \<Longrightarrow> key_of v k = Some (jget v k)"
  by (auto simp: key_of_def jget_def)

lemma key_of_nonnull: "jget v k \<noteq> JNull \<Longrightarrow> key_of v k = Some (jget v k)"
  by (auto simp: key_of_def jget_def split: option.splits)

lemma size_errors_Nil: "size_errors p ne = [] \<longleftrightarrow> is_obj (snd ne) \<and> positive_int (jget (snd ne) ''units_per_skill'')"
  by (simp add: size_errors_def)

lemma positive_intE: "positive_int v \<Longrightarrow> \<exists>i. v = JInt i \<and> 0 < i"
  by (cases v) auto

lemma or_empty_truthy: "truthy v \<Longrightarrow> or_empty v = v"
  by (simp add: or_empty_def)

lemma jget_or_empty_any: "truthy v \<or> \<not> is_obj v \<Longrightarrow> jget (or_empty v) k = jget v k"
  by (cases v) (auto simp: or_empty_def jget_def)

lemma jget_or_empty' [simp]: "jget (or_empty v) k = jget v k"
  by (cases v) (auto simp: or_empty_def jget_def)

lemma jitems_or_empty [simp]: "jitems (or_empty v) = jitems v"
  by (cases v) (auto simp: or_empty_def)

text \<open>A track of an accepted contract, with what its duels need.\<close>

lemma accepted_track:
  assumes "validate_spec (raw sp) = Some []" and "t \<in> set (spec_tracks sp)"
  obtains d where "track sp t = Some d" and "is_obj d"
    and "\<exists>slugs cds. track_errors (or_empty (jget (raw sp) ''skills'')) (or_empty (jget (jget (raw sp) ''duel'') ''sizes''))
        slugs cds t d = Some []"
proof -
  obtain claimed where te: "tracks_errors (or_empty (jget (raw sp) ''skills''))
      (or_empty (jget (jget (raw sp) ''duel'') ''sizes'')) [] [] [] (jitems (jget (raw sp) ''tracks'')) = Some ([], claimed)"
    using accepted_parts [OF assms(1)] by auto
  obtain d where d: "map_of (jitems (jget (raw sp) ''tracks'')) t = Some d"
    using assms(2) by (auto simp: spec_tracks_def spec_section_def dest: weak_map_of_SomeI)
  then have "(t, d) \<in> set (jitems (jget (raw sp) ''tracks''))" by (rule map_of_SomeD)
  with tracks_errors_Nil [OF te] d that show ?thesis
    by (simp add: track_def key_of_def spec_section_def)
qed

lemma all_some_strs [simp]: "all_some (map (as_str \<circ> JStr) ss) = Some ss"
  by (induction ss) simp_all

lemma accepted_skills:
  assumes "validate_spec (raw sp) = Some []" and "t \<in> set (spec_tracks sp)"
  obtains ss where "skills sp t = Some ss" and "ss \<noteq> []" and "set ss \<subseteq> set (all_skills sp)"
proof -
  obtain d where d: "track sp t = Some d" "\<exists>slugs cds. track_errors (or_empty (jget (raw sp) ''skills''))
      (or_empty (jget (jget (raw sp) ''duel'') ''sizes'')) slugs cds t d = Some []"
    using accepted_track [OF assms] by metis
  have "is_obj (or_empty (jget (raw sp) ''skills''))" using accepted_parts [OF assms(1)] by auto
  with d(2) track_accepted(1) obtain ss where ss: "jget d ''skills'' = JArr (map JStr ss)" "ss \<noteq> []"
      "set ss \<subseteq> set (map fst (jitems (jget (raw sp) ''skills'')))"
    by (metis jitems_or_empty)
  have "skills sp t = Some ss"
    using d(1) key_of_nonnull [of d "''skills''"] ss(1) by (simp add: skills_def)
  with ss that show ?thesis by (simp add: all_skills_def spec_section_def)
qed

lemma py_in_dict: "is_obj v \<Longrightarrow> py_in x v = Some True \<Longrightarrow> \<exists>s. x = JStr s \<and> s \<in> set (map fst (jitems v))"
  by (cases v) (auto split: if_splits)

text \<open>The sizes a track's duels choose from: its own, or the competition's.\<close>

lemma accepted_sizes:
  assumes "validate_spec (raw sp) = Some []" and "t \<in> set (spec_tracks sp)"
  obtains v where "duel_of sp t ''sizes'' = Some v" and "is_obj v"
    and "\<And>ne. ne \<in> set (jitems v) \<Longrightarrow> positive_int (jget (snd ne) ''units_per_skill'')"
    and "\<exists>s. default_size sp t = Some s \<and> s \<in> set (map fst (jitems v))"
proof -
  let ?szs = "or_empty (jget (jget (raw sp) ''duel'') ''sizes'')"
  obtain d slugs cds where d: "track sp t = Some d" and te: "track_errors (or_empty (jget (raw sp) ''skills'')) ?szs slugs cds t d = Some []"
    using accepted_track [OF assms] by metis
  have sk: "is_obj (or_empty (jget (raw sp) ''skills''))" and de: "duel_errors (or_empty (jget (raw sp) ''duel'')) = Some []"
    using accepted_parts [OF assms(1)] by auto
  from de have szs: "is_obj ?szs" and ent: "concat (map (size_errors ''duel.sizes.'') (jitems ?szs)) = []"
    by (auto simp: duel_errors_def Let_def all_parts_Nil split: if_splits)
  let ?own = "jget d ''sizes''"
  define v where "v = (if ?own \<noteq> JNull then ?own else ?szs)"
  note own = track_accepted(3) [OF te sk]
  have v: "is_obj v \<and> (\<forall>ne\<in>set (jitems v). positive_int (jget (snd ne) ''units_per_skill''))"
  proof (cases "?own = JNull")
    case True
    then show ?thesis using szs ent by (auto simp: v_def size_errors_Nil)
  next
    case False
    from own [OF this] have "is_obj ?own" and "concat (map (size_errors (''tracks.'' @ t @ ''.sizes.'')) (jitems ?own)) = []"
      using False by (auto simp: track_size_errors_def split: if_splits)
    then show ?thesis using False by (auto simp: v_def size_errors_Nil)
  qed
  have "py_in (jget d ''default_size'') v = Some True"
    using track_accepted(4) [OF te sk] by (simp add: v_def)
  with v obtain s where s: "jget d ''default_size'' = JStr s" "s \<in> set (map fst (jitems v))"
    using py_in_dict by blast
  have "default_size sp t = Some s"
    using d s(1) key_of_nonnull [of d "''default_size''"] by (simp add: default_size_def)
  moreover have "duel_of sp t ''sizes'' = Some v"
  proof (cases "?own = JNull")
    case True
    then have "v = ?szs" by (simp add: v_def)
    with s(2) have ne: "jitems (jget (jget (raw sp) ''duel'') ''sizes'') \<noteq> []" by auto
    then have "truthy (jget (jget (raw sp) ''duel'') ''sizes'')" by (cases "jget (jget (raw sp) ''duel'') ''sizes''") auto
    with \<open>v = ?szs\<close> have "v = jget (jget (raw sp) ''duel'') ''sizes''" by (simp add: or_empty_truthy)
    have "jget (jget (raw sp) ''duel'') ''sizes'' \<noteq> JNull" using ne by auto
    from key_of_nonnull [OF this] \<open>v = jget _ _\<close> True d show ?thesis by (simp add: duel_of_def spec_section_def)
  next
    case False
    then show ?thesis using d by (simp add: duel_of_def v_def)
  qed
  ultimately show ?thesis using that v s(2) by blast
qed

lemma accepted_units:
  assumes "validate_spec (raw sp) = Some []" and "t \<in> set (spec_tracks sp)"
  shows "\<exists>n. units_per_skill sp t sz = Some n \<and> 1 \<le> n"
proof -
  obtain v s where v: "duel_of sp t ''sizes'' = Some v" "is_obj v"
      "\<And>ne. ne \<in> set (jitems v) \<Longrightarrow> positive_int (jget (snd ne) ''units_per_skill'')"
    and s: "default_size sp t = Some s" "s \<in> set (map fst (jitems v))"
    using accepted_sizes [OF assms] by metis
  obtain z where z: "size_of sp t sz = Some z" "z \<in> set (map fst (jitems v))"
  proof -
    define z where "z = (case sz of Some a \<Rightarrow> if a \<in> set (map fst (jitems v)) then a else s | None \<Rightarrow> s)"
    have "size_of sp t sz = Some z" using v(1) s(1) by (auto simp: z_def size_of_def sizes_def split: option.splits)
    moreover have "z \<in> set (map fst (jitems v))" using s(2) by (auto simp: z_def split: option.splits)
    ultimately show ?thesis using that by blast
  qed
  from z(2) obtain e where e: "map_of (jitems v) z = Some e" by (auto dest: weak_map_of_SomeI)
  then have "(z, e) \<in> set (jitems v)" by (rule map_of_SomeD)
  with v(3) obtain i where i: "jget e ''units_per_skill'' = JInt i" "0 < i" using positive_intE by fastforce
  then have "units_per_skill sp t sz = Some (nat i)"
    using v(1) z(1) e key_of_nonnull [of e "''units_per_skill''"] by (simp add: units_per_skill_def key_of_def)
  then show ?thesis using i by auto
qed

lemma accepted_ranges:
  assumes "validate_spec (raw sp) = Some []" and "t \<in> set (spec_tracks sp)"
    and key: "(k, hi) \<in> {(''score_margin'', 100), (''max_void_fraction'', 1)}"
  shows "\<exists>q. Option.bind (duel_of sp t k) to_float = Some q \<and> 0 \<le> q \<and> q \<le> of_int hi"
proof -
  obtain d slugs cds where d: "track sp t = Some d" and te: "track_errors (or_empty (jget (raw sp) ''skills''))
      (or_empty (jget (jget (raw sp) ''duel'') ''sizes'')) slugs cds t d = Some []"
    using accepted_track [OF assms(1,2)] by metis
  have sk: "is_obj (or_empty (jget (raw sp) ''skills''))" and de: "duel_errors (or_empty (jget (raw sp) ''duel'')) = Some []"
    using accepted_parts [OF assms(1)] by auto
  from de key have dr: "in_range (jget (jget (raw sp) ''duel'') k) 0 (of_int hi)"
    by (auto simp: duel_errors_def Let_def all_parts_Nil split: if_splits)
  from track_accepted(5) [OF te sk] key have tr: "jhas d k \<Longrightarrow> in_range (jget d k) 0 (of_int hi)"
    by (auto simp: override_errors_def split: if_splits)
  have float: "\<exists>q. to_float v = Some q \<and> 0 \<le> q \<and> q \<le> of_int hi" if "in_range v 0 (of_int hi)" for v
  proof (cases v)
    case (JInt i)
    then have "0 \<le> i" "i \<le> hi" using that by (simp_all add: in_range_def)
    moreover have "hi < 2 ^ 53" using key by auto
    ultimately show ?thesis using JInt by (simp add: fl64_of_int)
  qed (use that in \<open>auto simp: in_range_def split: option.splits\<close>)
  show ?thesis
  proof (cases "jget d k = JNull")
    case True
    have "jget (jget (raw sp) ''duel'') k \<noteq> JNull" using dr by (auto simp: in_range_def)
    then have "duel_of sp t k = Some (jget (jget (raw sp) ''duel'') k)"
      using True d key_of_nonnull by (simp add: duel_of_def spec_section_def)
    then show ?thesis using float [OF dr] by simp
  next
    case False
    then have "jhas d k" using jget_notin by blast
    then show ?thesis using float [OF tr] False d by (simp add: duel_of_def)
  qed
qed

section \<open>The skills of the tracks\<close>

lemma distinct_concat_unique:
  "distinct (concat (map f xs)) \<Longrightarrow> a \<in> set xs \<Longrightarrow> b \<in> set xs \<Longrightarrow> x \<in> set (f a) \<Longrightarrow> x \<in> set (f b) \<Longrightarrow> a = b"
  by (induction xs) auto

lemma distinct_concat_part: "distinct (concat (map f xs)) \<Longrightarrow> a \<in> set xs \<Longrightarrow> distinct (f a)"
  by (induction xs) auto

text \<open>The items of an accepted contract's tracks, each with the skills it claims.\<close>

lemma accepted_claims:
  assumes "validate_spec doc = Some []"
  shows "\<exists>f. (\<forall>td\<in>set (jitems (jget doc ''tracks'')). jget (snd td) ''skills'' = JArr (map JStr (f td)))
    \<and> distinct (concat (map f (jitems (jget doc ''tracks''))))
    \<and> set (concat (map f (jitems (jget doc ''tracks'')))) = set (map fst (jitems (jget doc ''skills'')))"
proof -
  let ?ts = "jitems (jget doc ''tracks'')" and ?sk = "or_empty (jget doc ''skills'')"
  obtain claimed where te: "tracks_errors ?sk (or_empty (jget (jget doc ''duel'') ''sizes'')) [] [] [] ?ts = Some ([], claimed)"
    and sk: "is_obj ?sk" and pe: "partition_errors ?sk claimed = Some []"
    using accepted_parts [OF assms] by auto
  note tr = tracks_errors_Nil [OF te]
  define f where "f td = (SOME ss. jget (snd td) ''skills'' = JArr (map JStr ss) \<and> ss \<noteq> []
      \<and> set ss \<subseteq> set (map fst (jitems ?sk)))" for td :: "string \<times> json"
  have f: "jget (snd td) ''skills'' = JArr (map JStr (f td)) \<and> f td \<noteq> []" if td: "td \<in> set ?ts" for td
  proof -
    have "(fst td, snd td) \<in> set ?ts" using td by simp
    with tr obtain slugs cds where "track_errors ?sk (or_empty (jget (jget doc ''duel'') ''sizes'')) slugs cds (fst td) (snd td) = Some []"
      by blast
    from someI_ex [OF track_accepted(1) [OF this sk]] show ?thesis unfolding f_def by blast
  qed
  have "map (the \<circ> claimed_of \<circ> snd) ?ts = map (\<lambda>td. map JStr (f td)) ?ts"
    using f by (auto simp: claimed_of_def)
  then have cl: "claimed = map JStr (concat (map f ?ts))"
    using tr by (simp only: map_concat map_map append_Nil) (simp add: comp_def)
  obtain kvs where kvs: "?sk = JObj kvs" using sk by (cases ?sk) auto
  then have "jitems (jget doc ''skills'') = kvs" by (metis jitems.simps(1) jitems_or_empty)
  moreover have strs: "list_all is_str claimed" by (simp add: cl list_all_iff)
  have "length claimed = length (py_set claimed)"
    and "list_all (\<lambda>k. list_ex (py_eq k) claimed) (map (JStr \<circ> fst) kvs)"
    and "list_all (\<lambda>c. list_ex (py_eq c) (map (JStr \<circ> fst) kvs)) claimed"
    using pe kvs by (auto simp: partition_errors_def split: if_splits)
  with py_set_distinct [OF strs] have "distinct claimed"
    and "set (map fst kvs) \<subseteq> set (concat (map f ?ts))" and "set (concat (map f ?ts)) \<subseteq> set (map fst kvs)"
    unfolding cl by (auto simp: list_all_iff list_ex_iff image_iff)
  ultimately show ?thesis using f unfolding cl by (intro exI [of _ f]) (auto simp: distinct_map)
qed

lemma first_track_found:
  assumes "\<And>u. u \<in> set us \<Longrightarrow> \<exists>d. track sp u = Some d \<and> key_of d ''skills'' = Some (JArr (map JStr (g u)))"
    and "t \<in> set us" and "s \<in> set (g t)" and "\<And>u. u \<in> set us \<Longrightarrow> s \<in> set (g u) \<Longrightarrow> u = t"
  shows "first_track sp s us = Some t"
  using assms
proof (induction us)
  case (Cons u us)
  obtain d where d: "track sp u = Some d" "key_of d ''skills'' = Some (JArr (map JStr (g u)))"
    using Cons.prems(1) [of u] by auto
  have "py_in (JStr s) (JArr (map JStr (g u))) = Some (s \<in> set (g u))"
    by (auto simp: list_ex_iff)
  then have step: "first_track sp s (u # us) = (if s \<in> set (g u) then Some u else first_track sp s us)"
    using d by simp
  show ?case
  proof (cases "s \<in> set (g u)")
    case True
    moreover from True have "u = t" using Cons.prems(4) [of u] by simp
    ultimately show ?thesis using step by (simp only: if_True)
  next
    case False
    then have "t \<in> set us" using Cons.prems(2,3) by auto
    from Cons.IH [OF Cons.prems(1) this Cons.prems(3,4)] False show ?thesis using step by simp
  qed
qed simp

lemma track_item: "distinct (spec_tracks sp) \<Longrightarrow> (t, d) \<in> set (jitems (spec_section sp ''tracks'')) \<Longrightarrow> track sp t = Some d"
  by (simp add: spec_tracks_def track_def key_of_def)

section \<open>An accepted contract\<close>

definition sample_contract :: json where
  "sample_contract =
    JObj [(''spec_version'', JInt 7), (''tracks'', (JObj [(''fa'', (JObj [(''id'', JStr ''fa''), (''code'',
    JStr ''fa''), (''slug'', JStr ''fa''), (''short'', JStr ''s''), (''title'', JStr ''t''), (''blurb'',
    JStr ''b''), (''k_demos'', JInt 1), (''language'', JStr ''none''), (''demonstration'', JObj [(''view'',
    JStr ''sensorimotor''), (''modalities'', JArr [JStr ''video'']), (''withheld'', JArr [])]),
    (''protocol'', JStr ''same_initial_state''), (''prompt_instance_disjoint'', JBool False), (''prompts'',
    JStr ''materialized''), (''skills'', JArr [JStr ''pick'']), (''default_size'', JStr ''smoke'')]))])),
    (''benchmarks'', JObj [(''rt'', JObj [(''distribution'', JStr ''d''), (''api_version'', JInt 1),
    (''version'', JNull), (''wheel_sha256'', JNull)])]), (''skills'', (JObj [(''pick'', (JObj [(''code'',
    JStr ''pk''), (''title'', JStr ''t''), (''blurb'', JStr ''b''), (''benchmark'', JStr ''rt''),
    (''suite'', JStr ''s''), (''category'', JNull), (''max_steps'', JInt 5), (''environment'', JObj
    [(''embodiment'', JArr [JStr ''l'', JStr ''r'', JNull]), (''cameras'', JArr [JStr ''c'']),
    (''action_types'', JArr [JStr ''qpos'']), (''action_dims'', JObj [(''qpos'', JInt 16)])])]))])),
    (''duel'', (JObj [(''default_size'', JStr ''smoke''), (''sizes'', JObj [(''smoke'', JObj
    [(''units_per_skill'', JInt 2)])]), (''score_margin'', JInt 3), (''max_void_fraction'', JFloat
    (1/2))])), (''budgets'', JObj [(''policy_start_seconds'', JInt 1), (''act_timeout_s'', JInt 1),
    (''materialize_wall_seconds'', JInt 1), (''unit_wall_seconds'', JInt 3), (''policy_budget_seconds'',
    JInt 2), (''side_wall_seconds'', JInt 9), (''duel_wall_seconds'', JInt 9)]), (''submission'', (JObj
    [(''manifest'', JStr ''m''), (''manifest_api'', JInt 1), (''policy_protocol'', JInt 1),
    (''max_repo_bytes'', JInt 9), (''base_image'', JObj [(''name'', JStr ''b''), (''digest'', JNull)]),
    (''sandbox'', JObj [(''network'', JStr ''none''), (''read_only_root'', JBool True), (''tmpfs'', JArr
    [JStr ''/tmp'']), (''tmpfs_exec'', JBool True), (''tmpfs_bytes'', JInt 2), (''user'', JStr
    ''1000:1000''), (''gpus'', JInt 1), (''memory_bytes'', JInt 4), (''cpus'', JInt 1), (''pids'', JInt
    1)])])), (''media'', JObj [(''video'', JObj [(''format'', JStr ''mp4'')])]), (''store'', JObj
    [(''schema'', JInt 4), (''index_lines_per_part'', JInt 2), (''media_bucket_hex'', JInt 2)]), (''live'',
    JObj [(''schema'', JInt 4), (''path'', JStr ''/live''), (''max_frame_bytes'', JInt 9)]), (''baselines'',
    JObj [(''fa'', JNull)])]"

definition sample_spec :: contract where
  "sample_spec = \<lparr>raw = sample_contract, fingerprint = []\<rparr>"

lemma sample_accepted: "validate_spec (raw sample_spec) = Some []"
  unfolding sample_spec_def contract.simps by code_simp

lemma sample_spec_tracks: "spec_tracks sample_spec = [''fa'']"
  by (simp add: spec_tracks_def spec_section_def sample_spec_def sample_contract_def jget_JObj)

lemma sample_spec_skills: "all_skills sample_spec = [''pick'']"
  by (simp add: all_skills_def spec_section_def sample_spec_def sample_contract_def jget_JObj)

section \<open>Properties\<close>



text \<open>C12. In a contract that passes validation every skill is scored in exactly one track, which is
  the one \<open>track_of\<close> answers: no skill sits in the contract affecting nothing, and none is scored
  twice.\<close>

theorem skill_in_one_track:
  assumes "validate_spec (raw sp) = Some []" and "distinct (spec_tracks sp)" and "s \<in> set (all_skills sp)"
  shows "\<exists>t ss. track_of sp s = Some t \<and> t \<in> set (spec_tracks sp) \<and> skills sp t = Some ss \<and> s \<in> set ss
    \<and> (\<forall>u us. u \<in> set (spec_tracks sp) \<and> skills sp u = Some us \<and> s \<in> set us \<longrightarrow> u = t)"
proof -
  let ?ts = "jitems (spec_section sp ''tracks'')"
  obtain f where f: "\<And>td. td \<in> set ?ts \<Longrightarrow> jget (snd td) ''skills'' = JArr (map JStr (f td))"
    and dist: "distinct (concat (map f ?ts))" and cover: "set (concat (map f ?ts)) = set (all_skills sp)"
    using accepted_claims [OF assms(1)] unfolding spec_section_def all_skills_def by blast
  define g where "g u = f (u, the (track sp u))" for u
  have tr: "\<exists>d. (u, d) \<in> set ?ts \<and> track sp u = Some d \<and> key_of d ''skills'' = Some (JArr (map JStr (g u)))"
    if u: "u \<in> set (spec_tracks sp)" for u
  proof -
    obtain d where d: "(u, d) \<in> set ?ts" using u by (auto simp: spec_tracks_def)
    then have "track sp u = Some d" using track_item assms(2) by blast
    with d f [OF d] key_of_nonnull [of d "''skills''"] show ?thesis by (auto simp: g_def)
  qed
  have sk: "skills sp u = Some (g u)" if "u \<in> set (spec_tracks sp)" for u
    using tr [OF that] by (auto simp: skills_def)
  have "s \<in> set (concat (map f ?ts))" unfolding cover by (rule assms(3))
  then obtain td where td: "td \<in> set ?ts" "s \<in> set (f td)" by auto
  let ?t = "fst td"
  have t: "?t \<in> set (spec_tracks sp)" and "track sp ?t = Some (snd td)"
    using td(1) track_item [OF assms(2), of ?t "snd td"] by (auto simp: spec_tracks_def)
  then have gt: "s \<in> set (g ?t)" using td(2) by (simp add: g_def)
  have uniq: "u = ?t" if u: "u \<in> set (spec_tracks sp)" "s \<in> set (g u)" for u
  proof -
    obtain d where "(u, d) \<in> set ?ts" "track sp u = Some d" using tr [OF u(1)] by blast
    with u(2) distinct_concat_unique [OF dist _ td(1) _ td(2), of "(u, d)"] show ?thesis by (auto simp: g_def)
  qed
  have "track_of sp s = Some ?t"
    unfolding track_of_def
  proof (rule first_track_found [where g = g])
    show "\<exists>d. track sp u = Some d \<and> key_of d ''skills'' = Some (JArr (map JStr (g u)))"
      if "u \<in> set (spec_tracks sp)" for u using tr [OF that] by blast
    show "?t \<in> set (spec_tracks sp)" by (rule t)
    show "s \<in> set (g ?t)" by (rule gt)
    show "u = ?t" if "u \<in> set (spec_tracks sp)" "s \<in> set (g u)" for u using that by (rule uniq)
  qed
  moreover have "u = ?t" if "u \<in> set (spec_tracks sp)" "skills sp u = Some us" "s \<in> set us" for u us
    using uniq [OF that(1)] sk [OF that(1)] that(2,3) by simp
  ultimately show ?thesis using t gt sk [OF t] by blast
qed

theorem skill_in_one_track_witness: "\<exists>t. track_of sample_spec ''pick'' = Some t \<and> t \<in> {''fa''}"
  using skill_in_one_track [OF sample_accepted, of "''pick''"] by (auto simp: sample_spec_tracks sample_spec_skills)

lemma non_root_parts_True: "non_root_parts ps = Some True \<Longrightarrow> part \<in> set ps \<Longrightarrow>
    strip part \<noteq> [] \<and> strip part \<noteq> ''root'' \<and> (list_all ascii_digit (strip part) \<longrightarrow> nat_of_digits (strip part) \<noteq> 0)"
proof (induction ps)
  case (Cons p ps)
  have digits: "py_isdigit n" if "list_all ascii_digit n" "n \<noteq> []" for n
    using that by (auto simp: py_isdigit_def py_isdigit_char_def list_all_iff)
  show ?case
    using Cons digits [of "strip p"] by (auto simp: Let_def int_of_isdigit_def split: if_splits option.splits)
qed simp

lemma submission_clean:
  "validate_spec (raw sp) = Some [] \<Longrightarrow> submission_errors (or_empty (spec_section sp ''submission'')) = Some []"
  using accepted_parts [of "raw sp"] by (auto simp: spec_section_def)

lemma sandbox_clean:
  assumes "validate_spec (raw sp) = Some []"
  shows "sandbox_errors (or_empty (jget (spec_section sp ''submission'') ''sandbox'')) = Some []"
  using submission_clean [OF assms] by (auto simp: submission_errors_def Let_def all_parts_Nil split: if_splits)

lemma sandbox_safe:
  assumes "validate_spec (raw sp) = Some []" and "sandbox = jget (spec_section sp ''submission'') ''sandbox''"
  shows "jget sandbox ''network'' = JStr ''none'' \<and> jget sandbox ''read_only_root'' = JBool True
    \<and> (\<exists>u. jget sandbox ''user'' = JStr u \<and> (\<forall>part\<in>set (split_on (CHR '':'') u).
          strip part \<noteq> [] \<and> strip part \<noteq> ''root'' \<and> (list_all ascii_digit (strip part) \<longrightarrow> nat_of_digits (strip part) \<noteq> 0)))
    \<and> (\<exists>ps b m. tmpfs_paths (jget sandbox ''tmpfs'') = Some ps \<and> ps \<noteq> [] \<and> distinct ps
        \<and> (\<forall>p\<in>set ps. startswith p ''/'' \<and> p \<noteq> ''/'' \<and> \<not> tmpfs_reserved p \<and> CHR '':'' \<notin> set p)
        \<and> num_of (jget sandbox ''tmpfs_bytes'') = Some b \<and> num_of (jget sandbox ''memory_bytes'') = Some m
        \<and> b * of_nat (length ps) \<le> m)"
proof -
  have se: "sandbox_errors (or_empty sandbox) = Some []"
    unfolding assms(2) by (rule sandbox_clean [OF assms(1)])
  let ?u = "jget sandbox ''user''" and ?t = "jget sandbox ''tmpfs''"
  from se have "map_option (need ''submission.sandbox.user non-root'') (non_root ?u) = Some []"
    and parts: "jget sandbox ''network'' = JStr ''none''" "jget sandbox ''read_only_root'' = JBool True"
    and tm: "tmpfs_paths ?t \<noteq> None" "\<And>ps. tmpfs_paths ?t = Some ps \<Longrightarrow> distinct ps \<and> \<not> list_ex tmpfs_reserved ps"
    and mem: "positive_int (jget sandbox ''tmpfs_bytes'')" "positive_number (jget sandbox ''memory_bytes'')"
      "the (num_of (jget sandbox ''tmpfs_bytes'')) * of_nat (case tmpfs_paths ?t of None \<Rightarrow> 1 | Some ps \<Rightarrow> length ps)
         \<le> the (num_of (jget sandbox ''memory_bytes''))"
    by (auto simp: sandbox_errors_def Let_def all_parts_Nil split: if_splits option.splits)
  then have nr: "non_root ?u = Some True" by (cases "non_root ?u") auto
  then obtain u where u: "?u = JStr u" "non_root_parts (split_on (CHR '':'') u) = Some True"
    by (cases ?u) (auto simp: non_root_def Let_def split: if_splits)
  obtain ps where ps: "tmpfs_paths ?t = Some ps" using tm(1) by blast
  then obtain xs where xs: "?t = JArr xs" "xs \<noteq> []" "list_all tmpfs_path xs" "ps = map (the \<circ> as_str) xs"
    by (cases ?t) (auto simp: tmpfs_paths_def split: if_splits)
  have abs_paths: "startswith p ''/'' \<and> CHR '':'' \<notin> set p" if "p \<in> set ps" for p
  proof -
    from that xs(4) obtain x where x: "x \<in> set xs" "p = the (as_str x)" by auto
    with xs(3) show ?thesis by (cases x) (auto simp: list_all_iff tmpfs_path_def)
  qed
  have "\<exists>b m. num_of (jget sandbox ''tmpfs_bytes'') = Some b \<and> num_of (jget sandbox ''memory_bytes'') = Some m
      \<and> b * of_nat (length ps) \<le> m"
    using mem ps by (cases "jget sandbox ''tmpfs_bytes''"; cases "jget sandbox ''memory_bytes''") auto
  moreover have "\<forall>p\<in>set ps. startswith p ''/'' \<and> p \<noteq> ''/'' \<and> \<not> tmpfs_reserved p \<and> CHR '':'' \<notin> set p"
    using tm(2) [OF ps] abs_paths by (auto simp: list_ex_iff tmpfs_reserved_def)
  moreover have "ps \<noteq> []" using xs by simp
  ultimately show ?thesis
    using parts u non_root_parts_True [OF u(2)] ps tm(2) [OF ps] by blast
qed

text \<open>C13. A contract that passes validation runs a submission in a sandbox: no network, a read-only
  root, a user and group that are neither root nor numerically zero, and writable mounts that are
  distinct, absolute, none of them at or under a path the container needs, and together within the
  memory limit.\<close>

theorem accepted_sandbox:
  assumes "validate_spec (raw sp) = Some []" and "sandbox = jget (spec_section sp ''submission'') ''sandbox''"
  shows "jget sandbox ''network'' = JStr ''none'' \<and> jget sandbox ''read_only_root'' = JBool True
    \<and> (\<exists>u. jget sandbox ''user'' = JStr u \<and> (\<forall>part\<in>set (split_on (CHR '':'') u).
          strip part \<noteq> [] \<and> strip part \<noteq> ''root'' \<and> (list_all ascii_digit (strip part) \<longrightarrow> nat_of_digits (strip part) \<noteq> 0)))
    \<and> (\<exists>ps b m. tmpfs_paths (jget sandbox ''tmpfs'') = Some ps \<and> ps \<noteq> [] \<and> distinct ps
        \<and> (\<forall>p\<in>set ps. startswith p ''/'' \<and> p \<noteq> ''/'' \<and> \<not> tmpfs_reserved p \<and> CHR '':'' \<notin> set p)
        \<and> num_of (jget sandbox ''tmpfs_bytes'') = Some b \<and> num_of (jget sandbox ''memory_bytes'') = Some m
        \<and> b * of_nat (length ps) \<le> m)"
  by (rule sandbox_safe [OF assms])

theorem accepted_sandbox_witness:
  "jget (jget (spec_section sample_spec ''submission'') ''sandbox'') ''network'' = JStr ''none''"
  using accepted_sandbox [OF sample_accepted refl] by blast

end
