(* ===== verification/Records.thy ===== *)
theory Records
  imports Score Ids Py
begin

text \<open>
  \<open>store/records.py\<close>: the constructors of what is published. A record is the index's line, an
  event is the record without its sequence number and with what the duel ran; a unit starts as an
  unscored verdict and is filled in by the duel. \<open>now_iso\<close> is an argument where it is used.
\<close>

definition ref_dict :: "submission_ref option \<Rightarrow> json" where
  "ref_dict r = opt_json ref_as_dict r"

definition no_tally :: json where
  "no_tally = JObj [(''wins'', JInt 0), (''losses'', JInt 0), (''ties'', JInt 0), (''decided'', JInt 0), (''void'', JInt 0)]"

definition scores_json :: "scores option \<Rightarrow> json" where
  "scores_json s = opt_json (\<lambda>ps. JObj (map (\<lambda>p. (fst p, opt_float (snd p))) ps)) s"

text \<open>The arguments of \<open>index_record\<close>, by name.\<close>

record record_args =
  a_schema :: int
  a_event_id :: string
  a_kind :: string
  a_track :: string
  a_block :: int
  a_finished_at :: string
  a_king :: "submission_ref option"
  a_challenger :: "submission_ref option"
  a_king_scores :: "scores option"
  a_challenger_scores :: "scores option"
  a_score_margin :: rat
  a_dethroned :: bool
  a_new_king :: "submission_ref option"
  a_tally :: json
  a_media_count :: nat
  a_duel_size :: "string option"
  a_duel_id :: "string option"

definition index_record :: "record_args \<Rightarrow> json" where
  "index_record a = (let t = (if truthy (a_tally a) then a_tally a else no_tally) in
     JObj [(''schema'', JInt (a_schema a)), (''seq'', JInt 0), (''event_id'', JStr (a_event_id a)),
       (''kind'', JStr (a_kind a)), (''track'', JStr (a_track a)), (''block'', JInt (a_block a)),
       (''finished_at'', JStr (a_finished_at a)), (''duel_size'', opt_json JStr (a_duel_size a)),
       (''duel_id'', opt_json JStr (a_duel_id a)), (''king'', ref_dict (a_king a)),
       (''challenger'', ref_dict (a_challenger a)), (''king_scores'', scores_json (a_king_scores a)),
       (''challenger_scores'', scores_json (a_challenger_scores a)), (''score_margin'', JFloat (a_score_margin a)),
       (''dethroned'', JBool (a_dethroned a)), (''new_king'', ref_dict (a_new_king a)),
       (''wins'', jget t ''wins''), (''losses'', jget t ''losses''), (''ties'', jget t ''ties''),
       (''decided'', jget t ''decided''), (''void'', jget t ''void''), (''media_count'', JInt (int (a_media_count a)))])"

text \<open>\<open>round(x, 3)\<close>.\<close>

definition round3 :: "rat \<Rightarrow> rat" where
  "round3 x = fl64 (of_int (rne (x * 1000)) / 1000)"

definition duel_event :: "json \<Rightarrow> int \<Rightarrow> string \<Rightarrow> json list \<Rightarrow> nat \<Rightarrow> string \<Rightarrow> rat \<Rightarrow> json \<Rightarrow> json list
    \<Rightarrow> json \<Rightarrow> json list \<Rightarrow> json" where
  "duel_event record spec_version spec_fingerprint units n_per_skill started_at wall sides notes demonstration prompts =
     jupdate (jdel record ''seq'')
       [(''spec_version'', JInt spec_version), (''spec_fingerprint'', JStr spec_fingerprint),
        (''units_per_skill'', JInt (int n_per_skill)), (''started_at'', JStr started_at),
        (''wall_seconds'', JFloat (round3 wall)), (''sides'', or_empty sides),
        (''demonstration'', or_empty demonstration), (''prompts'', JArr prompts),
        (''units'', JArr units), (''notes'', JArr notes)]"

definition unit_verdict_from_unit :: "json \<Rightarrow> json \<Rightarrow> json" where
  "unit_verdict_from_unit u view =
     JObj [(''unit_id'', jget u ''unit_id''), (''skill'', jget u ''skill''), (''index'', jget u ''index''),
       (''task'', jget u ''task''), (''task_label'', jget_or u ''task_label'' (jget u ''task'')),
       (''instance'', jget u ''instance''), (''seed'', jget u ''seed''),
       (''instance_params'', or_empty (jget u ''instance_params'')),
       (''prompt'', JObj [(''demo_id'', jget u ''demo''), (''steps'', JInt 0), (''chunks'', JInt 0),
          (''view'', view), (''sha256'', JNull)]),
       (''demo_video'', JNull), (''king_video'', JNull), (''challenger_video'', JNull),
       (''king_success'', JNull), (''challenger_success'', JNull), (''outcome'', JStr ''tie''),
       (''king_progress'', JNull), (''challenger_progress'', JNull), (''king_metric'', JNull),
       (''challenger_metric'', JNull), (''king_steps'', JNull), (''challenger_steps'', JNull),
       (''king_error'', JNull), (''challenger_error'', JNull), (''void'', JBool False)]"

definition unit_tally :: "json list \<Rightarrow> json" where
  "unit_tally units =
     (let count = (\<lambda>(w, l, t, v) u.
            if truthy (jget u ''void'') then (w, l, t, v + 1)
            else if jget u ''outcome'' = JStr ''challenger'' then (w + 1, l, t, v)
            else if jget u ''outcome'' = JStr ''king'' then (w, l + 1, t, v)
            else (w, l, t + 1, v));
          (w, l, t, v) = foldl count (0, 0, 0, 0) units
      in JObj [(''wins'', JInt w), (''losses'', JInt l), (''ties'', JInt t), (''decided'', JInt (w + l)), (''void'', JInt v)])"

definition unit_media :: "json \<Rightarrow> string list" where
  "unit_media u = List.map_filter (\<lambda>k. case jget u k of JStr s \<Rightarrow> if s \<noteq> [] then Some s else None | _ \<Rightarrow> None)
     [''demo_video'', ''king_video'', ''challenger_video'']"

definition media_shas :: "json list \<Rightarrow> string list" where
  "media_shas units = sort (remdups (concat (map unit_media units)))"

definition empty_skill_scores :: "string list \<Rightarrow> scores" where
  "empty_skill_scores skills = upd ''average'' None (foldl (\<lambda>d s. upd s None d) [] skills)"

text \<open>What the duel writes to a row's \<open>outcome\<close> makes the record's tally the score's.\<close>

definition outcome_matches :: "json \<Rightarrow> bool" where
  "outcome_matches u \<longleftrightarrow> truthy (jget u ''void'')
     \<or> jget u ''outcome'' = JStr (paired_outcome (side_success u ''king'') (side_success u ''challenger''))"

lemma fold_unit_tally:
  assumes "list_all outcome_matches us"
  shows "foldl (\<lambda>(w, l, t, v) u.
            if truthy (jget u ''void'') then (w, l, t, v + 1)
            else if jget u ''outcome'' = JStr ''challenger'' then (w + 1, l, t, v)
            else if jget u ''outcome'' = JStr ''king'' then (w, l + 1, t, v)
            else (w, l, t + 1, v)) (w, l, t, v :: int) us
    = (w + int (wins_of us ''challenger''), l + int (wins_of us ''king''), t + int (wins_of us ''tie''), v + int (voids_of us))"
  using assms
proof (induction us arbitrary: w l t v)
  case (Cons u us)
  then show ?case
    using paired_outcome_cases [of "side_success u ''king''" "side_success u ''challenger''"]
    unfolding foldl_Cons by (auto simp: outcome_matches_def wins_of_def voids_of_def)
qed (simp add: wins_of_def voids_of_def)

lemma unit_tally_tally: "list_all outcome_matches us \<Longrightarrow> unit_tally us = tally_as_dict (tally_of us)"
  by (simp add: unit_tally_def fold_unit_tally tally_of_def fold_tally tally_as_dict_def Let_def)

end
