(* ===== verification/Store.thy ===== *)
theory Store
  imports Contract Ids File_Lock
begin

text \<open>
  \<open>store/writer.py\<close>: the signed, append-only store of one root directory. The directory is a list
  of files, each a path under the root and its text; a rewrite replaces a file in one step, as
  \<open>atomic_write_text\<close> does, and the index append adds one line to the end of a part. What is
  written is ASCII; a line with another byte is read as one that does not decode. The signer and
  its verifier (\<open>nacl\<close>) are arguments.
\<close>

section \<open>Files\<close>

type_synonym files = "(string \<times> string) list"

definition read_file :: "files \<Rightarrow> string \<Rightarrow> string option" where
  "read_file fs p = map_of fs p"

definition put :: "string \<Rightarrow> string \<Rightarrow> files \<Rightarrow> files" where
  "put p text fs = upd p text fs"

record store =
  disk :: files
  touched :: "string list"

text \<open>\<open>atomic_write_json\<close>, \<open>read_json\<close> (\<open>JNull\<close> is a file that is not there or does not parse).\<close>

definition write_json :: "string \<Rightarrow> json \<Rightarrow> store \<Rightarrow> store" where
  "write_json p obj st = st\<lparr>disk := put p (pretty_json obj) (disk st)\<rparr>"

definition read_json :: "string \<Rightarrow> store \<Rightarrow> json" where
  "read_json p st = (case read_file (disk st) p of None \<Rightarrow> JNull
     | Some text \<Rightarrow> (case loads text of None \<Rightarrow> JNull | Some v \<Rightarrow> v))"

definition touch :: "string \<Rightarrow> store \<Rightarrow> store" where
  "touch p st = st\<lparr>touched := (if p \<in> set (touched st) then touched st else touched st @ [p])\<rparr>"

definition drain_touched :: "store \<Rightarrow> string list \<times> store" where
  "drain_touched st = (sort (touched st), st\<lparr>touched := []\<rparr>)"

section \<open>Paths\<close>

definition track_dir :: "string \<Rightarrow> string" where
  "track_dir trk = ''tracks/'' @ trk"

definition index_part_path :: "string \<Rightarrow> nat \<Rightarrow> string" where
  "index_part_path trk part = track_dir trk @ ''/index-'' @ zpad 4 part @ ''.jsonl''"

definition head_path :: "string \<Rightarrow> string" where
  "head_path trk = track_dir trk @ ''/head.json''"

definition queue_path :: "string \<Rightarrow> string" where
  "queue_path trk = track_dir trk @ ''/queue.json''"

definition event_path :: "string \<Rightarrow> string \<Rightarrow> string" where
  "event_path trk ev = ''events/'' @ trk @ ''/'' @ ev @ ''.json''"

definition media_path :: "nat \<Rightarrow> string \<Rightarrow> string \<Rightarrow> string" where
  "media_path bucket_hex sha ext = ''media/'' @ take bucket_hex sha @ ''/'' @ sha @ ''.'' @ ext"

section \<open>The crown\<close>

definition CROWNING :: "string list" where
  "CROWNING = [''duel'', ''genesis'', ''succession'']"

definition king_after :: "json \<Rightarrow> json \<Rightarrow> json" where
  "king_after record previous =
     (let kind = jget record ''kind'' in
      if truthy (jget record ''new_king'') \<and> str_in kind CROWNING then jget record ''new_king''
      else if kind = JStr ''genesis'' \<or> kind = JStr ''succession'' then jget record ''king''
      else if kind = JStr ''vacancy'' then JNull
      else if kind = JStr ''duel'' then
        (if truthy (jget record ''dethroned'') then jget record ''new_king'' else jget record ''king'')
      else previous)"

section \<open>Heads and the manifest\<close>

definition head_dict :: "int \<Rightarrow> int \<Rightarrow> string \<Rightarrow> int \<Rightarrow> string \<Rightarrow> json \<Rightarrow> json" where
  "head_dict schema seq ev blk finished king =
     JObj [(''schema'', JInt schema), (''seq'', JInt seq), (''event_id'', JStr ev), (''block'', JInt blk),
       (''finished_at'', JStr finished), (''king'', king)]"

definition head :: "string \<Rightarrow> store \<Rightarrow> json" where
  "head trk st = read_json (head_path trk) st"

definition write_head :: "int \<Rightarrow> string \<Rightarrow> int \<Rightarrow> string \<Rightarrow> int \<Rightarrow> string \<Rightarrow> json \<Rightarrow> store \<Rightarrow> store" where
  "write_head schema trk seq ev blk finished king st =
     touch (head_path trk) (write_json (head_path trk) (head_dict schema seq ev blk finished king) st)"

definition store_schema :: "contract \<Rightarrow> int option" where
  "store_schema sp = as_int (jget (spec_section sp ''store'') ''schema'')"

definition init_heads :: "int \<Rightarrow> string list \<Rightarrow> store \<Rightarrow> store" where
  "init_heads schema trks st = foldl (\<lambda>st trk.
     if read_file (disk st) (head_path trk) = None then write_head schema trk 0 [] 0 [] JNull st else st) st trks"

definition init_store :: "contract \<Rightarrow> string \<Rightarrow> store \<Rightarrow> (json \<times> store) option" where
  "init_store sp validator_key st =
     (case (store_schema sp, spec_version sp) of
        (Some schema, Some ver) \<Rightarrow>
          (let manifest = JObj [(''schema'', JInt schema), (''validator_key'', JStr validator_key),
                 (''spec_version'', JInt ver), (''spec_fingerprint'', JStr (fingerprint sp)),
                 (''tracks'', JArr (map JStr (spec_tracks sp)))]
           in Some (manifest, init_heads schema (spec_tracks sp)
                (touch ''manifest.json'' (write_json ''manifest.json'' manifest st))))
      | _ \<Rightarrow> None)"

section \<open>The index\<close>

text \<open>The signer of a store: its public key and its signature (hexadecimal) of a text.\<close>

record signer =
  verify_key :: string
  sign :: "string \<Rightarrow> string"

type_synonym verifier = "string \<Rightarrow> string \<Rightarrow> string \<Rightarrow> bool"

text \<open>\<open>index_parts\<close>: the parts there are, from 0 up; there are no more than files.\<close>

fun parts_from :: "nat \<Rightarrow> files \<Rightarrow> string \<Rightarrow> nat \<Rightarrow> nat list" where
  "parts_from 0 fs trk part = []"
| "parts_from (Suc fuel) fs trk part =
     (if read_file fs (index_part_path trk part) = None then [] else part # parts_from fuel fs trk (Suc part))"

definition index_parts :: "files \<Rightarrow> string \<Rightarrow> nat list" where
  "index_parts fs trk = parts_from (Suc (length fs)) fs trk 0"

definition ascii :: "string \<Rightarrow> bool" where
  "ascii s \<longleftrightarrow> list_all (\<lambda>c. code c < 128) s"

definition is_signed_line :: "verifier \<Rightarrow> string \<Rightarrow> string \<Rightarrow> bool" where
  "is_signed_line verify vk line =
     (let (body, tab, sig) = partition_at TAB line in ascii line \<and> tab \<and> verify vk body sig)"

definition repaired :: "verifier \<Rightarrow> string \<Rightarrow> string \<Rightarrow> string" where
  "repaired verify vk data =
     (if data = [] \<or> last data = NL then data
      else let (kept, _, tail) = rpartition_at NL data in
        if is_signed_line verify vk tail then data @ [NL]
        else take (if kept \<noteq> [] then length kept + 1 else 0) data)"

definition repair_tail :: "verifier \<Rightarrow> string \<Rightarrow> string \<Rightarrow> files \<Rightarrow> files" where
  "repair_tail verify vk trk fs =
     (case index_parts fs trk of [] \<Rightarrow> fs
      | parts \<Rightarrow> (let p = index_part_path trk (last parts); data = (case read_file fs p of None \<Rightarrow> [] | Some t \<Rightarrow> t)
          in if repaired verify vk data = data then fs else put p (repaired verify vk data) fs))"

definition body_of :: "string \<Rightarrow> string" where
  "body_of line = fst (partition_at TAB line)"

text \<open>One line of the index as \<open>last_record\<close> reads it.\<close>

definition record_of_line :: "string \<Rightarrow> json option" where
  "record_of_line line =
     (if line = [] \<or> \<not> ascii (body_of line) then None
      else case loads (body_of line) of None \<Rightarrow> None
        | Some r \<Rightarrow> if is_obj r \<and> as_int (jget r ''seq'') \<noteq> None then Some r else None)"

fun first_some :: "('a \<Rightarrow> 'b option) \<Rightarrow> 'a list \<Rightarrow> 'b option" where
  "first_some f [] = None"
| "first_some f (x # xs) = (case f x of None \<Rightarrow> first_some f xs | Some y \<Rightarrow> Some y)"

definition part_text :: "files \<Rightarrow> string \<Rightarrow> nat \<Rightarrow> string" where
  "part_text fs trk part = (case read_file fs (index_part_path trk part) of None \<Rightarrow> [] | Some t \<Rightarrow> t)"

definition last_record :: "files \<Rightarrow> string \<Rightarrow> json option" where
  "last_record fs trk =
     first_some (\<lambda>part. first_some record_of_line (rev (split_on NL (part_text fs trk part))))
       (rev (index_parts fs trk))"

definition next_seq :: "files \<Rightarrow> string \<Rightarrow> int" where
  "next_seq fs trk = (case last_record fs trk of None \<Rightarrow> 1 | Some r \<Rightarrow> the (as_int (jget r ''seq'')) + 1)"

definition lines_per_part :: "contract \<Rightarrow> int" where
  "lines_per_part sp = max 1 (case as_int (jget (spec_section sp ''store'') ''index_lines_per_part'') of None \<Rightarrow> 1 | Some n \<Rightarrow> n)"

definition part_of :: "contract \<Rightarrow> int \<Rightarrow> nat" where
  "part_of sp seq = nat ((seq - 1) div lines_per_part sp)"

datatype append_error = No_Signer | No_Event string | Bad_Record

definition index_line :: "signer \<Rightarrow> json \<Rightarrow> string" where
  "index_line sg record = canonical_json record @ [TAB] @ sign sg (canonical_json record) @ [NL]"

text \<open>\<open>append\<close>: a missing field is found before the line is written, or after it and before the head.\<close>

definition append_record :: "contract \<Rightarrow> verifier \<Rightarrow> signer option \<Rightarrow> string \<Rightarrow> json \<Rightarrow> store
    \<Rightarrow> (append_error + int) \<times> store" where
  "append_record sp verify sgo trk rec st =
     (case sgo of None \<Rightarrow> (Inl No_Signer, st)
      | Some sg \<Rightarrow>
        if \<not> jhas rec ''event_id'' then (Inl Bad_Record, st)
        else let evp = event_path trk (py_str (jget rec ''event_id'')) in
        case read_file (disk st) evp of None \<Rightarrow> (Inl (No_Event evp), st)
        | Some ev \<Rightarrow>
          (let fs = repair_tail verify (verify_key sg) trk (disk st);
               seq = next_seq fs trk;
               record = jset (jset rec ''event_sha256'' (JStr (sha256_hex_bytes ev))) ''seq'' (JInt seq);
               path = index_part_path trk (part_of sp seq);
               old = (case read_file fs path of None \<Rightarrow> [] | Some t \<Rightarrow> t);
               st1 = touch path (st\<lparr>disk := put path (old @ index_line sg record) fs\<rparr>);
               king = king_after record (jget (head trk st1) ''king'')
           in case (store_schema sp, as_int (jget record ''block''), jhas record ''finished_at'') of
                (Some schema, Some blk, True) \<Rightarrow>
                  (Inr seq, write_head schema trk seq (py_str (jget record ''event_id'')) blk
                     (py_str (jget record ''finished_at'')) king st1)
              | _ \<Rightarrow> (Inl Bad_Record, st1)))"

text \<open>\<open>iter_index\<close>: every line that parses, ordered by its sequence number; \<open>None\<close> where the sort
  raises on a line that is no dict or whose \<open>seq\<close> is no integer.\<close>

definition parsed_lines :: "string \<Rightarrow> json list" where
  "parsed_lines text = List.map_filter (\<lambda>raw. if strip raw = [] then None else loads (body_of raw)) (split_on NL text)"

definition seq_key :: "json \<Rightarrow> int" where
  "seq_key r = (case as_int (jget r ''seq'') of None \<Rightarrow> 0 | Some n \<Rightarrow> n)"

definition sortable_record :: "json \<Rightarrow> bool" where
  "sortable_record r \<longleftrightarrow> is_obj r \<and> (jhas r ''seq'' \<longrightarrow> as_int (jget r ''seq'') \<noteq> None)"

definition iter_index :: "files \<Rightarrow> string \<Rightarrow> json list option" where
  "iter_index fs trk =
     (let rs = concat (map (\<lambda>p. parsed_lines (part_text fs trk p)) (index_parts fs trk))
      in if list_all sortable_record rs then Some (sort_key seq_key rs) else None)"

definition rebuild_head :: "contract \<Rightarrow> verifier \<Rightarrow> string \<Rightarrow> string \<Rightarrow> store \<Rightarrow> (append_error + json) \<times> store" where
  "rebuild_head sp verify vk trk st =
     (let st1 = st\<lparr>disk := repair_tail verify vk trk (disk st)\<rparr> in
      case iter_index (disk st1) trk of None \<Rightarrow> (Inl Bad_Record, st1)
      | Some [] \<Rightarrow> (Inr JNull, st1)
      | Some rs \<Rightarrow>
          (let king = foldl (\<lambda>k r. king_after r k) JNull rs; r = last rs in
           case (store_schema sp, as_int (jget r ''seq''), as_int (jget r ''block''),
                 jhas r ''event_id'' \<and> jhas r ''finished_at'') of
             (Some schema, Some seq, Some blk, True) \<Rightarrow>
               (let st2 = write_head schema trk seq (py_str (jget r ''event_id'')) blk (py_str (jget r ''finished_at'')) king st1
                in (Inr (head trk st2), st2))
           | _ \<Rightarrow> (Inl Bad_Record, st1)))"

section \<open>Events, the published queue, media\<close>

definition write_event :: "string \<Rightarrow> json \<Rightarrow> store \<Rightarrow> store" where
  "write_event trk event st =
     (let p = event_path trk (py_str (jget event ''event_id'')) in touch p (write_json p event st))"

definition read_event :: "string \<Rightarrow> string \<Rightarrow> store \<Rightarrow> json" where
  "read_event trk ev st = read_json (event_path trk ev) st"

definition write_queue :: "string \<Rightarrow> json \<Rightarrow> store \<Rightarrow> store" where
  "write_queue trk snap st = touch (queue_path trk) (write_json (queue_path trk) snap st)"

definition put_media :: "nat \<Rightarrow> string \<Rightarrow> string \<Rightarrow> store \<Rightarrow> string \<times> store" where
  "put_media bucket_hex content ext st =
     (let sha = sha256_hex_bytes content; dst = media_path bucket_hex sha ext;
          st1 = (if read_file (disk st) dst = None then st\<lparr>disk := put dst content (disk st)\<rparr> else st)
      in (sha, touch dst st1))"

definition has_media :: "nat \<Rightarrow> string \<Rightarrow> string \<Rightarrow> store \<Rightarrow> bool" where
  "has_media bucket_hex sha ext st \<longleftrightarrow> read_file (disk st) (media_path bucket_hex sha ext) \<noteq> None"

end
