(* ===== verification/Store_Log.thy ===== *)
theory Store_Log
  imports Store
begin

text \<open>
  The index of one track as what it means: a list of records (\<open>log_on\<close>), rendered one signed
  line each into parts of a fixed number of lines. The writer's operations are refined to
  operations on that list: an append adds one record, a crash in the middle of one leaves the
  list as it was or with the record added, and the head is a function of the list.
\<close>

section \<open>Records and their lines\<close>

definition record_ok :: "nat \<Rightarrow> json \<Rightarrow> bool" where
  "record_ok i r \<longleftrightarrow> wf_json r \<and> is_obj r \<and> jget r ''seq'' = JInt (int i + 1)"

definition records_ok :: "json list \<Rightarrow> bool" where
  "records_ok rs \<longleftrightarrow> (\<forall>i<length rs. record_ok i (rs ! i))"

text \<open>What is relied on of the signature scheme: ed25519 signatures are 64 bytes, and a signature
  verifies under its own key.\<close>

definition sound_signer :: "verifier \<Rightarrow> signer \<Rightarrow> bool" where
  "sound_signer verify sg \<longleftrightarrow>
     (\<forall>m. verify (verify_key sg) m (sign sg m)) \<and> (\<forall>m. list_all hex_lower (sign sg m))
     \<and> (\<forall>m s. verify (verify_key sg) m s \<longrightarrow> length s = 128)"

definition signed_text :: "signer \<Rightarrow> json \<Rightarrow> string" where
  "signed_text sg r = canonical_json r @ [TAB] @ sign sg (canonical_json r)"

lemma index_line_text: "index_line sg r = signed_text sg r @ [NL]"
  by (simp add: index_line_def signed_text_def)

lemma sound_length: "sound_signer verify sg \<Longrightarrow> length (sign sg m) = 128"
  by (auto simp: sound_signer_def)

lemma hex_plain: "hex_lower c \<Longrightarrow> plain c"
  by (auto simp: hex_lower_def plain_def ascii_digit_def)

lemma sound_avoids: "sound_signer verify sg \<Longrightarrow> \<not> plain c \<Longrightarrow> c \<notin> set (sign sg m)"
  unfolding sound_signer_def list_all_iff using hex_plain by blast

lemma control_not_plain [simp]: "\<not> plain NL" "\<not> plain TAB"
  by (simp_all add: plain_def code_def)

lemma NL_not_signed: "sound_signer verify sg \<Longrightarrow> wf_json r \<Longrightarrow> NL \<notin> set (signed_text sg r)"
  using canon.render_avoids [of r NL] sound_avoids [of verify sg NL] by (simp add: signed_text_def)

lemma TAB_not_canonical: "wf_json r \<Longrightarrow> TAB \<notin> set (canonical_json r)"
  by (rule canon.render_avoids) simp_all

lemma partition_signed: "wf_json r \<Longrightarrow>
    partition_at TAB (signed_text sg r) = (canonical_json r, True, sign sg (canonical_json r))"
  unfolding signed_text_def append.simps by (rule partition_at_split [OF TAB_not_canonical])

lemma body_signed: "wf_json r \<Longrightarrow> body_of (signed_text sg r) = canonical_json r"
  by (simp add: body_of_def partition_signed)

lemma plain_ascii: "list_all plain s \<Longrightarrow> ascii s"
  by (auto simp: ascii_def plain_def list_all_iff)

lemma ascii_canonical: "wf_json r \<Longrightarrow> ascii (canonical_json r)"
  by (rule plain_ascii [OF canon.render_plain])

lemma ascii_signed: "sound_signer verify sg \<Longrightarrow> wf_json r \<Longrightarrow> ascii (signed_text sg r)"
proof -
  assume sg: "sound_signer verify sg" and r: "wf_json r"
  have "list_all plain (sign sg (canonical_json r))"
    using sg hex_plain unfolding sound_signer_def by (auto simp: list_all_iff)
  then have "ascii (sign sg (canonical_json r))" by (rule plain_ascii)
  moreover have "code TAB < 128" by (simp add: code_def)
  ultimately show ?thesis using ascii_canonical [OF r] by (simp add: signed_text_def ascii_def)
qed

lemma is_signed_signed: "sound_signer verify sg \<Longrightarrow> wf_json r \<Longrightarrow> is_signed_line verify (verify_key sg) (signed_text sg r)"
  using ascii_signed by (auto simp: is_signed_line_def partition_signed sound_signer_def)

lemma signed_not_Nil: "signed_text sg r \<noteq> []"
  by (simp add: signed_text_def)

lemma record_of_signed:
  assumes "record_ok i r"
  shows "record_of_line (signed_text sg r) = Some (jsort r)"
  using assms
  by (simp add: record_of_line_def signed_not_Nil body_signed record_ok_def ascii_canonical canon.loads_render jget_jsort)

text \<open>A strict prefix of a line is never taken for a signed one.\<close>

lemma torn_not_signed:
  assumes sg: "sound_signer verify sg" and r: "wf_json r"
    and p: "signed_text sg r = p @ q" and q: "q \<noteq> []"
  shows "\<not> is_signed_line verify (verify_key sg) p"
proof
  assume "is_signed_line verify (verify_key sg) p"
  then obtain b s where part: "partition_at TAB p = (b, True, s)" and v: "verify (verify_key sg) b s"
    by (auto simp: is_signed_line_def split: prod.splits)
  then have p': "p = b @ TAB # s" and b': "TAB \<notin> set b" using partition_at_join by auto
  have "canonical_json r = b \<and> sign sg (canonical_json r) = s @ q"
  proof -
    have "partition_at TAB (signed_text sg r) = (b, True, s @ q)"
      unfolding p p' append_assoc append.simps by (rule partition_at_split [OF b'])
    with partition_signed [OF r, of sg] show ?thesis by (metis Pair_inject)
  qed
  then have "length (s @ q) = 128" using sound_length [OF sg] by metis
  moreover have "length s = 128" using v sg unfolding sound_signer_def by blast
  ultimately show False using q by simp
qed

section \<open>Parts\<close>

definition chunk :: "nat \<Rightarrow> 'a list \<Rightarrow> nat \<Rightarrow> 'a list" where
  "chunk per rs p = take per (drop (p * per) rs)"

definition render_part :: "signer \<Rightarrow> nat \<Rightarrow> json list \<Rightarrow> nat \<Rightarrow> string" where
  "render_part sg per rs p = concat (map (index_line sg) (chunk per rs p))"

text \<open>The files of the index: \<open>n\<close> parts, the last of them possibly still empty.\<close>

definition log_on :: "signer \<Rightarrow> nat \<Rightarrow> string \<Rightarrow> json list \<Rightarrow> files \<Rightarrow> bool" where
  "log_on sg per trk rs fs \<longleftrightarrow> (\<exists>n. length rs \<le> n * per \<and> n \<le> length rs div per + 1
     \<and> (\<forall>p. read_file fs (index_part_path trk p) = (if p < n then Some (render_part sg per rs p) else None)))"

text \<open>The same with a line the writer did not finish at the end of the newest part.\<close>

definition torn_on :: "signer \<Rightarrow> nat \<Rightarrow> string \<Rightarrow> json list \<Rightarrow> string \<Rightarrow> files \<Rightarrow> bool" where
  "torn_on sg per trk rs tail fs \<longleftrightarrow>
     (\<forall>p. read_file fs (index_part_path trk p) =
        (if p < length rs div per + 1
         then Some (render_part sg per rs p @ (if p = length rs div per then tail else [])) else None))"

lemma index_path_inject [simp]: "index_part_path trk p = index_part_path trk q \<longleftrightarrow> p = q"
  by (simp add: index_part_path_def)

lemma parts_bounded:
  assumes "\<And>p. p < n \<Longrightarrow> read_file fs (index_part_path trk p) \<noteq> None"
  shows "n \<le> length fs"
proof -
  have "index_part_path trk ` {..<n} \<subseteq> set (map fst fs)"
    using assms by (auto simp: read_file_def map_of_eq_None_iff)
  then have "card (index_part_path trk ` {..<n}) \<le> card (set (map fst fs))" by (rule card_mono [rotated]) simp
  moreover have "card (index_part_path trk ` {..<n}) = n" by (simp add: card_image inj_on_def)
  ultimately show ?thesis using card_length [of "map fst fs"] by simp
qed

lemma parts_from_upt:
  assumes "\<And>p. read_file fs (index_part_path trk p) \<noteq> None \<longleftrightarrow> p < n"
  shows "k \<le> n \<Longrightarrow> n - k < fuel \<Longrightarrow> parts_from fuel fs trk k = [k..<n]"
proof (induction fuel arbitrary: k)
  case (Suc fuel)
  show ?case
  proof (cases "k < n")
    case True
    with Suc.IH [of "Suc k"] Suc.prems assms [of k] show ?thesis by (auto simp: upt_conv_Cons)
  next
    case False
    with assms [of k] Suc.prems show ?thesis by simp
  qed
qed simp

lemma index_parts_upt:
  assumes "\<And>p. read_file fs (index_part_path trk p) \<noteq> None \<longleftrightarrow> p < n"
  shows "index_parts fs trk = [0..<n]"
proof -
  have "n \<le> length fs" by (rule parts_bounded [of n fs trk]) (use assms in blast)
  then show ?thesis unfolding index_parts_def by (intro parts_from_upt [OF assms]) auto
qed

lemma chunk_len: "per \<noteq> 0 \<Longrightarrow> chunk per rs (length rs div per) = drop (length rs div per * per) rs"
proof -
  assume "per \<noteq> 0"
  then have "length rs - length rs div per * per \<le> per"
    by (metis less_imp_le minus_div_mult_eq_mod mod_less_divisor neq0_conv)
  then show ?thesis by (simp add: chunk_def)
qed

lemma chunk_beyond: "length rs \<le> p * per \<Longrightarrow> chunk per rs p = []"
  by (simp add: chunk_def)

lemma chunk_snoc:
  assumes "per \<noteq> 0"
  shows "chunk per (rs @ [r]) p =
    (if p = length rs div per then chunk per rs p @ [r] else chunk per rs p)"
proof -
  let ?d = "length rs div per"
  have lo: "?d * per \<le> length rs" and hi: "length rs < (?d + 1) * per"
    using assms by (simp_all add: dividend_less_div_times)
  consider "p < ?d" | "p = ?d" | "?d < p" by linarith
  then show ?thesis
  proof cases
    case 1
    then have "(p + 1) * per \<le> ?d * per" by (intro mult_le_mono1) simp
    from le_trans [OF this lo] have "p * per + per \<le> length rs" by (simp add: algebra_simps)
    with 1 show ?thesis by (simp add: chunk_def)
  next
    case 2
    then show ?thesis using lo hi by (simp add: chunk_def algebra_simps)
  next
    case 3
    then have "(?d + 1) * per \<le> p * per" by (intro mult_le_mono1) simp
    then have "length (rs @ [r]) \<le> p * per" using hi by simp
    with 3 show ?thesis by (simp add: chunk_def)
  qed
qed

lemma render_snoc:
  "per \<noteq> 0 \<Longrightarrow> render_part sg per (rs @ [r]) p =
    render_part sg per rs p @ (if p = length rs div per then index_line sg r else [])"
  by (simp add: render_part_def chunk_snoc)

section \<open>Reading the log back\<close>

lemma split_part:
  assumes "sound_signer verify sg" and "\<And>r. r \<in> set rs \<Longrightarrow> wf_json r"
  shows "split_on NL (concat (map (index_line sg) rs)) = map (signed_text sg) rs @ [[]]"
  using assms(2)
proof (induction rs)
  case (Cons r rs)
  have "NL \<notin> set (signed_text sg r)" using NL_not_signed [OF assms(1)] Cons.prems by simp
  with Cons show ?case by (simp add: index_line_text split_on_append_sep)
qed simp

lemma records_ok_wf: "records_ok rs \<Longrightarrow> r \<in> set rs \<Longrightarrow> wf_json r \<and> is_obj r"
  by (auto simp: records_ok_def record_ok_def in_set_conv_nth)

lemma records_ok_snoc: "records_ok (rs @ [r]) \<longleftrightarrow> records_ok rs \<and> record_ok (length rs) r"
  unfolding records_ok_def by (auto simp: nth_append less_Suc_eq)

lemma set_chunk: "r \<in> set (chunk per rs p) \<Longrightarrow> r \<in> set rs"
  unfolding chunk_def by (meson in_set_dropD in_set_takeD)

lemma split_render:
  assumes "sound_signer verify sg" and "records_ok rs"
  shows "split_on NL (render_part sg per rs p) = map (signed_text sg) (chunk per rs p) @ [[]]"
  unfolding render_part_def
  by (rule split_part [OF assms(1)]) (rule records_ok_wf [OF assms(2) set_chunk, THEN conjunct1])

lemma record_of_Nil [simp]: "record_of_line [] = None"
  by (simp add: record_of_line_def)

lemma first_some_append: "first_some f (xs @ ys) = (case first_some f xs of None \<Rightarrow> first_some f ys | Some y \<Rightarrow> Some y)"
  by (induction xs) (auto split: option.splits)

lemma rev_map_last: "xs \<noteq> [] \<Longrightarrow> rev (map f xs) = f (last xs) # rev (map f (butlast xs))"
  by (induction xs rule: rev_induct) auto

lemma last_of_part:
  assumes "sound_signer verify sg" and "records_ok rs" and "chunk per rs p \<noteq> []"
  shows "first_some record_of_line (rev (split_on NL (render_part sg per rs p))) = Some (jsort (last (chunk per rs p)))"
proof -
  let ?c = "chunk per rs p"
  have "last ?c \<in> set rs" by (rule set_chunk [OF last_in_set [OF assms(3)]])
  then obtain i where "i < length rs" "rs ! i = last ?c" by (auto simp: in_set_conv_nth)
  with assms(2) have "record_ok i (last ?c)" by (auto simp: records_ok_def)
  then have "record_of_line (signed_text sg (last ?c)) = Some (jsort (last ?c))" by (rule record_of_signed)
  then show ?thesis by (simp add: split_render [OF assms(1,2)] rev_map_last [OF assms(3)])
qed

lemma first_some_None: "(\<And>x. x \<in> set xs \<Longrightarrow> f x = None) \<Longrightarrow> first_some f xs = None"
  by (induction xs) auto

lemma index_parts_log:
  assumes "\<And>p. read_file fs (index_part_path trk p) = (if p < n then Some (t p) else None)"
  shows "index_parts fs trk = [0..<n]"
  by (rule index_parts_upt) (simp add: assms)

lemma chunk_empty_iff: "chunk per rs p = [] \<longleftrightarrow> per = 0 \<or> length rs \<le> p * per"
  by (auto simp: chunk_def)

lemma last_chunk:
  assumes "per \<noteq> 0" and "p * per < length rs" and "length rs \<le> (p + 1) * per"
  shows "last (chunk per rs p) = last rs"
  using assms by (simp add: chunk_def last_drop algebra_simps)

lemma last_record_log:
  assumes sg: "sound_signer verify sg" and ok: "records_ok rs" and per: "per \<noteq> 0" and log: "log_on sg per trk rs fs"
  shows "last_record fs trk = (if rs = [] then None else Some (jsort (last rs)))"
proof -
  obtain n where n: "length rs \<le> n * per" "n \<le> length rs div per + 1"
    and files: "\<And>p. read_file fs (index_part_path trk p) = (if p < n then Some (render_part sg per rs p) else None)"
    using log by (auto simp: log_on_def)
  let ?f = "\<lambda>p. first_some record_of_line (rev (split_on NL (part_text fs trk p)))"
  have lr: "last_record fs trk = first_some ?f (rev [0..<n])"
    by (simp only: last_record_def index_parts_log [OF files])
  have ptext: "part_text fs trk p = render_part sg per rs p" if "p < n" for p
    using that by (simp add: part_text_def files)
  have empty: "?f p = None" if "p < n" "length rs \<le> p * per" for p
    using that by (simp add: ptext render_part_def chunk_beyond)
  show ?thesis
  proof (cases "rs = []")
    case True
    have "first_some ?f (rev [0..<n]) = None"
      by (rule first_some_None) (use True empty in simp)
    with True show ?thesis unfolding lr by simp
  next
    case False
    let ?k = "(length rs - 1) div per"
    have pos: "0 < length rs" using False by simp
    have "?k * per \<le> length rs - 1" by (rule div_times_less_eq_dividend)
    then have k1: "?k * per < length rs" using pos by linarith
    have "length rs - 1 < per + ?k * per" using per by (intro dividend_less_div_times) simp
    then have "length rs \<le> (?k + 1) * per" using pos by simp
    note k = k1 this
    have kn: "?k < n"
    proof (rule ccontr)
      assume "\<not> ?k < n"
      then have "n * per \<le> ?k * per" by (intro mult_le_mono1) simp
      with n k show False by simp
    qed
    have "[0..<n] = [0..<?k] @ ?k # [Suc ?k..<n]"
      using upt_add_eq_append [of 0 ?k "n - ?k"] upt_conv_Cons [OF kn] kn by simp
    then have "rev [0..<n] = rev [Suc ?k..<n] @ ?k # rev [0..<?k]" by simp
    moreover have "first_some ?f (rev [Suc ?k..<n]) = None"
    proof (rule first_some_None)
      fix p assume p: "p \<in> set (rev [Suc ?k..<n])"
      then have "(?k + 1) * per \<le> p * per" by (intro mult_le_mono1) simp
      with k p show "?f p = None" by (intro empty) auto
    qed
    moreover have "?f ?k = Some (jsort (last rs))"
      using last_of_part [OF sg ok, of per ?k] k per kn ptext last_chunk [OF per k] by (simp add: chunk_empty_iff)
    ultimately show ?thesis unfolding lr using False by (simp add: first_some_append)
  qed
qed

lemma next_seq_log:
  assumes "sound_signer verify sg" and "records_ok rs" and "per \<noteq> 0" and "log_on sg per trk rs fs"
  shows "next_seq fs trk = int (length rs) + 1"
proof (cases "rs = []")
  case False
  then have "record_ok (length rs - 1) (last rs)"
    using assms(2) by (simp add: records_ok_def last_conv_nth)
  moreover have "int (length rs - 1) + 1 = int (length rs)" using False by (cases rs) simp_all
  ultimately show ?thesis using False
    by (simp add: next_seq_def last_record_log [OF assms] record_ok_def jget_jsort)
qed (simp add: next_seq_def last_record_log [OF assms])

section \<open>Repair\<close>

lemma last_lines: "xs \<noteq> [] \<Longrightarrow> last (concat (map (index_line sg) xs)) = NL"
  by (induction xs rule: rev_induct) (simp_all add: index_line_text)

lemma render_last: "render_part sg per rs p = [] \<or> last (render_part sg per rs p) = NL"
  using last_lines [of "chunk per rs p" sg] by (cases "chunk per rs p = []") (simp_all add: render_part_def)

lemma render_butlast: "render_part sg per rs p \<noteq> [] \<Longrightarrow> butlast (render_part sg per rs p) \<noteq> []"
proof -
  assume "render_part sg per rs p \<noteq> []"
  then obtain r cs where "chunk per rs p = r # cs" by (cases "chunk per rs p") (auto simp: render_part_def)
  then have "render_part sg per rs p = signed_text sg r @ NL # concat (map (index_line sg) cs)"
    by (simp add: render_part_def index_line_text)
  then show ?thesis using signed_not_Nil [of sg r] by (simp add: butlast_append)
qed

lemma repair_tail_parts:
  assumes "index_parts fs trk = ps" and "ps \<noteq> []" and "read_file fs (index_part_path trk (last ps)) = Some data"
  shows "repair_tail verify vk trk fs =
    (if repaired verify vk data = data then fs else put (index_part_path trk (last ps)) (repaired verify vk data) fs)"
  using assms by (cases ps) (simp_all add: repair_tail_def Let_def)

lemma repair_log: "log_on sg per trk rs fs \<Longrightarrow> repair_tail verify vk trk fs = fs"
proof -
  assume "log_on sg per trk rs fs"
  then obtain n where files: "\<And>p. read_file fs (index_part_path trk p) = (if p < n then Some (render_part sg per rs p) else None)"
    by (auto simp: log_on_def)
  show ?thesis
  proof (cases n)
    case 0
    then show ?thesis by (simp add: repair_tail_def index_parts_log [OF files])
  next
    case (Suc m)
    have "repaired verify vk (render_part sg per rs m) = render_part sg per rs m"
      using render_last [of sg per rs m] by (auto simp: repaired_def)
    then show ?thesis
      using repair_tail_parts [OF index_parts_log [OF files], of "render_part sg per rs m" verify vk] files [of m] Suc by simp
  qed
qed

lemma read_put [simp]: "read_file (put p t fs) q = (if q = p then Some t else read_file fs q)"
  by (simp add: read_file_def put_def)

text \<open>What a repair makes of a part whose last line was not finished.\<close>

lemma repaired_torn:
  assumes sg: "sound_signer verify sg" and r: "wf_json r" and t: "signed_text sg r = tail @ q" and tail: "tail \<noteq> []"
  shows "repaired verify (verify_key sg) (render_part sg per rs p @ tail)
    = (if q = [] then render_part sg per rs p @ index_line sg r else render_part sg per rs p)"
proof -
  let ?d = "render_part sg per rs p @ tail"
  have nl: "NL \<notin> set tail" using NL_not_signed [OF sg r] by (simp add: t)
  then have l: "last ?d \<noteq> NL" using tail by (metis last_append last_in_set)
  have parts: "rpartition_at NL ?d = (if render_part sg per rs p = [] then ([], False, tail)
      else (butlast (render_part sg per rs p), True, tail))"
  proof (cases "render_part sg per rs p = []")
    case False
    then have "render_part sg per rs p = butlast (render_part sg per rs p) @ [NL]"
      using render_last [of sg per rs p] append_butlast_last_id by metis
    then have d: "?d = butlast (render_part sg per rs p) @ NL # tail"
      by (metis append.assoc append_Cons append_Nil)
    show ?thesis unfolding d using False by (simp add: rpartition_at_split [OF nl])
  qed (use nl in \<open>simp add: rpartition_at_def\<close>)
  show ?thesis
  proof (cases "q = []")
    case True
    then have "is_signed_line verify (verify_key sg) tail" using is_signed_signed [OF sg r] t by simp
    then show ?thesis using tail l parts True t by (simp add: repaired_def index_line_text)
  next
    case False
    then have "\<not> is_signed_line verify (verify_key sg) tail" using torn_not_signed [OF sg r t] by simp
    moreover have "render_part sg per rs p \<noteq> [] \<Longrightarrow> length (butlast (render_part sg per rs p)) + 1 = length (render_part sg per rs p)"
      by (cases "render_part sg per rs p" rule: rev_cases) auto
    ultimately show ?thesis
      using tail l parts False render_butlast [of sg per rs p] by (cases "render_part sg per rs p = []") (simp_all add: repaired_def)
  qed
qed

section \<open>The crown along the log\<close>

definition kings :: "json list \<Rightarrow> json" where
  "kings rs = foldl (\<lambda>k r. king_after r k) JNull rs"

lemma kings_snoc [simp]: "kings (rs @ [r]) = king_after r (kings rs)"
  by (simp add: kings_def)

lemma str_in_jsort [simp]: "str_in (jsort v) ss = str_in v ss"
  by (cases v) (auto simp: str_in_def)

lemma jsort_is_str [simp]: "jsort v = JStr s \<longleftrightarrow> v = JStr s"
  by (cases v) auto

lemma king_after_jsort:
  assumes "wf_json r"
  shows "king_after (jsort r) (jsort k) = jsort (king_after r k)"
  using assms by (simp add: king_after_def Let_def jget_jsort)

lemma jsort_king_after: "wf_json r \<Longrightarrow> jsort (king_after r (jsort k)) = jsort (king_after r k)"
  by (simp add: king_after_def Let_def)

lemma wf_jget: "wf_json r \<Longrightarrow> wf_json (jget r k)"
proof (cases r)
  case (JObj kvs)
  assume "wf_json r"
  with JObj show ?thesis by (auto simp: jget_def list_all_iff split: option.splits dest!: map_of_SomeD)
qed (simp_all add: jget_def)

lemma wf_king_after: "wf_json r \<Longrightarrow> wf_json k \<Longrightarrow> wf_json (king_after r k)"
  by (simp add: king_after_def Let_def wf_jget)

lemma wf_kings: "(\<And>r. r \<in> set rs \<Longrightarrow> wf_json r) \<Longrightarrow> wf_json (kings rs)"
  by (induction rs rule: rev_induct) (simp_all add: kings_def wf_king_after)

text \<open>The kinds whose records say who holds the crown after them, whoever held it before.\<close>

definition deciding :: "json \<Rightarrow> bool" where
  "deciding r \<longleftrightarrow> str_in (jget r ''kind'') [''duel'', ''genesis'', ''succession'', ''vacancy'']"

lemma king_after_deciding: "deciding r \<Longrightarrow> king_after r a = king_after r b"
  by (auto simp: king_after_def deciding_def str_in_def CROWNING_def Let_def split: json.splits)

lemma king_after_other: "\<not> deciding r \<Longrightarrow> king_after r k = k"
  by (auto simp: king_after_def deciding_def str_in_def CROWNING_def Let_def split: json.splits)

text \<open>The fields the head repeats, with the types the constructors of records give them.\<close>

definition fields_ok :: "json \<Rightarrow> bool" where
  "fields_ok r \<longleftrightarrow> is_str (jget r ''event_id'') \<and> is_str (jget r ''finished_at'') \<and> (\<exists>b. jget r ''block'' = JInt b)"

definition head_of :: "int \<Rightarrow> json list \<Rightarrow> json" where
  "head_of schema rs = jsort (if rs = [] then head_dict schema 0 [] 0 [] JNull
     else head_dict schema (int (length rs)) (py_str (jget (last rs) ''event_id''))
            (the (as_int (jget (last rs) ''block''))) (py_str (jget (last rs) ''finished_at'')) (kings rs))"

lemma wf_head_dict: "wf_json k \<Longrightarrow> wf_json (head_dict a b c d e k)"
  by (simp add: head_dict_def)

lemma head_write_head:
  assumes "wf_json k"
  shows "head trk (write_head schema trk seq ev blk fin k st) = jsort (head_dict schema seq ev blk fin k)"
  using loads_pretty [OF wf_head_dict [OF assms]]
  by (simp add: head_def write_head_def touch_def write_json_def read_json_def)

lemma head_dict_jsort: "jsort (head_dict a b c d e (jsort k)) = jsort (head_dict a b c d e k)"
  unfolding head_dict_def by (rule jsort_items_cong) simp_all

lemma jget_head_of: "(\<And>r. r \<in> set rs \<Longrightarrow> wf_json r) \<Longrightarrow> jget (head_of schema rs) ''king'' = jsort (kings rs)"
  by (simp add: head_of_def jget_jsort wf_head_dict wf_kings) (simp add: head_dict_def jget_JObj kings_def)

section \<open>Appending\<close>

lemma wf_json_jset: "wf_json d \<Longrightarrow> wf_json v \<Longrightarrow> wf_json (jset d k v)"
proof -
  assume d: "wf_json d" and v: "wf_json v"
  have "distinct (map fst (jitems d)) \<and> list_all (\<lambda>kv. wf_json (snd kv)) (jitems d)"
    using d by (cases d) auto
  moreover have "list_all (\<lambda>kv. wf_json (snd kv)) (upd k v kvs)" if "list_all (\<lambda>kv. wf_json (snd kv)) kvs" for kvs
    using that v by (induction kvs rule: upd.induct) auto
  ultimately show ?thesis by (simp add: jset_def distinct_upd)
qed

lemma is_obj_jset [simp]: "is_obj (jset d k v)"
  by (simp add: jset_def)

lemma paths_differ [simp]:
  "index_part_path trk p \<noteq> head_path t" "head_path t \<noteq> index_part_path trk p"
  "event_path trk ev \<noteq> index_part_path t p" "event_path trk ev \<noteq> head_path t"
  "index_part_path t p \<noteq> event_path trk ev" "head_path t \<noteq> event_path trk ev"
proof -
  have "last (index_part_path trk p) = CHR ''l''" and "last (head_path t) = CHR ''n''"
    by (simp_all add: index_part_path_def head_path_def)
  then show "index_part_path trk p \<noteq> head_path t" and "head_path t \<noteq> index_part_path trk p" by auto
  have "hd (event_path trk ev) = CHR ''e''" and "hd (index_part_path t p) = CHR ''t''" and "hd (head_path t) = CHR ''t''"
    by (simp_all add: event_path_def index_part_path_def head_path_def track_dir_def)
  then show "event_path trk ev \<noteq> index_part_path t p" "event_path trk ev \<noteq> head_path t"
    "index_part_path t p \<noteq> event_path trk ev" "head_path t \<noteq> event_path trk ev" by auto
qed

lemma log_on_put:
  assumes per: "per \<noteq> 0" and log: "log_on sg per trk rs fs"
  defines "path \<equiv> index_part_path trk (length rs div per)"
  shows "log_on sg per trk (rs @ [r])
      (put path ((case read_file fs path of None \<Rightarrow> [] | Some t \<Rightarrow> t) @ index_line sg r) fs)"
    and "(case read_file fs path of None \<Rightarrow> [] | Some t \<Rightarrow> t) = render_part sg per rs (length rs div per)"
    and "\<And>tail. torn_on sg per trk rs tail
      (put path ((case read_file fs path of None \<Rightarrow> [] | Some t \<Rightarrow> t) @ tail) fs)"
proof -
  let ?d = "length rs div per"
  obtain n where n: "length rs \<le> n * per" "n \<le> ?d + 1"
    and files: "\<And>p. read_file fs (index_part_path trk p) = (if p < n then Some (render_part sg per rs p) else None)"
    using log by (auto simp: log_on_def)
  have dn: "?d \<le> n" using n(1) per by (metis div_le_mono nonzero_mult_div_cancel_right)
  have hi: "length rs < (?d + 1) * per" using per dividend_less_div_times [of per "length rs"] by simp
  show old: "(case read_file fs path of None \<Rightarrow> [] | Some t \<Rightarrow> t) = render_part sg per rs ?d"
  proof (cases "?d < n")
    case False
    then have "length rs \<le> ?d * per" using dn n(1) by simp
    with False show ?thesis by (simp add: path_def files render_part_def chunk_beyond)
  qed (simp add: path_def files)
  have keep: "read_file (put path t fs) (index_part_path trk p)
      = (if p < ?d + 1 then Some (if p = ?d then t else render_part sg per rs p) else None)" for t p
    using dn n(2) by (auto simp: path_def files)
  have "?d + 1 \<le> length (rs @ [r]) div per + 1" by (simp add: div_le_mono)
  then show "log_on sg per trk (rs @ [r]) (put path ((case read_file fs path of None \<Rightarrow> [] | Some t \<Rightarrow> t) @ index_line sg r) fs)"
    unfolding log_on_def old keep using hi
    by (intro exI [of _ "?d + 1"]) (auto simp: render_snoc [OF per])
  show "torn_on sg per trk rs tail (put path ((case read_file fs path of None \<Rightarrow> [] | Some t \<Rightarrow> t) @ tail) fs)" for tail
    unfolding torn_on_def old keep by auto
qed

lemma log_on_other: "log_on sg per trk rs fs \<Longrightarrow> (\<And>p. q \<noteq> index_part_path trk p) \<Longrightarrow> log_on sg per trk rs (put q t fs)"
proof -
  assume log: "log_on sg per trk rs fs" and "\<And>p. q \<noteq> index_part_path trk p"
  then have "index_part_path trk p \<noteq> q" for p by metis
  with log show ?thesis by (simp add: log_on_def)
qed

text \<open>The state of one track: its index, and the head the index says.\<close>

definition track_on :: "contract \<Rightarrow> signer \<Rightarrow> int \<Rightarrow> string \<Rightarrow> json list \<Rightarrow> store \<Rightarrow> bool" where
  "track_on sp sg schema trk rs st \<longleftrightarrow> records_ok rs \<and> list_all fields_ok rs
     \<and> log_on sg (nat (lines_per_part sp)) trk rs (disk st) \<and> head trk st = head_of schema rs"

lemma per_pos: "nat (lines_per_part sp) \<noteq> 0"
  by (simp add: lines_per_part_def)

lemma part_of_log: "part_of sp (int n + 1) = n div nat (lines_per_part sp)"
proof -
  have "0 < lines_per_part sp" by (simp add: lines_per_part_def)
  then have "int n div lines_per_part sp = int (n div nat (lines_per_part sp))"
    by (simp add: zdiv_int)
  then show ?thesis by (simp add: part_of_def)
qed

definition stamped :: "json \<Rightarrow> string \<Rightarrow> int \<Rightarrow> json" where
  "stamped rec ev_text seq = jset (jset rec ''event_sha256'' (JStr (sha256_hex_bytes ev_text))) ''seq'' (JInt seq)"

lemma append_record_eq:
  assumes "jhas rec ''event_id''" and "jhas rec ''finished_at''" and "jget rec ''block'' = JInt b"
    and "store_schema sp = Some schema" and "read_file (disk st) (event_path trk (py_str (jget rec ''event_id''))) = Some ev"
    and "fs = repair_tail verify (verify_key sg) trk (disk st)" and "seq = next_seq fs trk"
    and "r = stamped rec ev seq" and "path = index_part_path trk (part_of sp seq)"
    and "st1 = touch path (st\<lparr>disk := put path ((case read_file fs path of None \<Rightarrow> [] | Some t \<Rightarrow> t) @ index_line sg r) fs\<rparr>)"
  shows "append_record sp verify (Some sg) trk rec st = (Inr seq,
    write_head schema trk seq (py_str (jget r ''event_id'')) b (py_str (jget r ''finished_at''))
      (king_after r (jget (head trk st1) ''king'')) st1)"
  using assms by (simp add: append_record_def Let_def stamped_def)

lemma append_log:
  assumes sg: "sound_signer verify sg" and ok: "records_ok rs" "list_all fields_ok rs"
    and log: "log_on sg (nat (lines_per_part sp)) trk rs (repair_tail verify (verify_key sg) trk (disk st))"
    and hd: "jget (head trk st) ''king'' = jsort (kings rs) \<or> deciding rec" "wf_json (head trk st)"
    and rec: "wf_json rec" "is_obj rec" "fields_ok rec" and schema: "store_schema sp = Some schema"
    and ev: "read_file (disk st) (event_path trk (py_str (jget rec ''event_id''))) = Some ev"
  shows "\<exists>st'. append_record sp verify (Some sg) trk rec st = (Inr (int (length rs) + 1), st')
    \<and> track_on sp sg schema trk (rs @ [stamped rec ev (int (length rs) + 1)]) st'"
proof -
  let ?per = "nat (lines_per_part sp)" and ?r = "stamped rec ev (int (length rs) + 1)"
  let ?fs = "repair_tail verify (verify_key sg) trk (disk st)"
  let ?path = "index_part_path trk (length rs div ?per)"
  let ?old = "case read_file ?fs ?path of None \<Rightarrow> [] | Some t \<Rightarrow> t"
  define st1 where "st1 = touch ?path (st\<lparr>disk := put ?path (?old @ index_line sg ?r) ?fs\<rparr>)"
  have seq: "next_seq ?fs trk = int (length rs) + 1" by (rule next_seq_log [OF sg ok(1) per_pos log])
  have wf: "wf_json ?r" using rec by (simp add: stamped_def wf_json_jset)
  have rok: "records_ok (rs @ [?r])" using ok(1) wf by (simp add: records_ok_snoc record_ok_def) (simp add: stamped_def)
  have fok: "fields_ok ?r" using rec(3) by (simp add: fields_ok_def stamped_def)
  have head1: "head trk st1 = head trk st"
  proof -
    have "read_file ?fs (head_path trk) = read_file (disk st) (head_path trk)"
      by (auto simp: repair_tail_def Let_def split: list.splits)
    then show ?thesis by (simp add: st1_def head_def read_json_def touch_def)
  qed
  define k where "k = king_after ?r (jget (head trk st1) ''king'')"
  have wfk: "wf_json k" unfolding k_def head1 using wf hd(2) by (simp add: wf_king_after wf_jget)
  have jk: "jsort k = jsort (kings (rs @ [?r]))"
  proof (cases "deciding rec")
    case True
    then have "deciding ?r" by (simp add: deciding_def stamped_def)
    then show ?thesis unfolding k_def kings_snoc by (metis king_after_deciding)
  next
    case False
    then show ?thesis using hd(1) unfolding k_def head1 by (simp add: jsort_king_after [OF wf])
  qed
  have has: "jhas rec ''event_id'' \<and> jhas rec ''finished_at''"
    using rec(3) jget_notin [of rec] unfolding fields_ok_def by (metis is_str.simps(2))
  obtain b where b: "jget rec ''block'' = JInt b" using rec(3) by (auto simp: fields_ok_def)
  let ?st' = "write_head schema trk (int (length rs) + 1) (py_str (jget ?r ''event_id'')) b (py_str (jget ?r ''finished_at'')) k st1"
  have app: "append_record sp verify (Some sg) trk rec st = (Inr (int (length rs) + 1), ?st')"
    using append_record_eq [of rec b sp schema st trk ev ?fs verify sg "int (length rs) + 1" ?r ?path st1]
      has ev b schema
    by (simp add: seq part_of_log k_def st1_def)
  have "head trk ?st' = head_of schema (rs @ [?r])"
  proof -
    let ?h = "head_dict schema (int (length rs) + 1) (py_str (jget ?r ''event_id'')) b (py_str (jget ?r ''finished_at''))"
    have "jget ?r ''block'' = JInt b" by (simp add: stamped_def b)
    then have "head_of schema (rs @ [?r]) = jsort (?h (kings (rs @ [?r])))"
      by (simp add: head_of_def add.commute del: kings_snoc)
    also have "\<dots> = jsort (?h (jsort (kings (rs @ [?r]))))" by (rule head_dict_jsort [symmetric])
    also have "\<dots> = jsort (?h (jsort k))" by (simp only: jk)
    also have "\<dots> = jsort (?h k)" by (rule head_dict_jsort)
    also have "\<dots> = head trk ?st'" by (rule head_write_head [OF wfk, symmetric])
    finally show ?thesis by (rule sym)
  qed
  moreover have "log_on sg ?per trk (rs @ [?r]) (disk ?st')"
    using log_on_put(1) [OF per_pos log, of ?r]
    by (simp add: write_head_def touch_def write_json_def st1_def log_on_other)
  ultimately have "track_on sp sg schema trk (rs @ [?r]) ?st'"
    using rok ok(2) fok by (simp add: track_on_def)
  with app show ?thesis by blast
qed

section \<open>Reading the whole index\<close>

lemma strip_Nil: "strip s = [] \<longleftrightarrow> list_all py_space s"
  by (auto simp: strip_def list_all_iff dropWhile_eq_Nil_conv dest: set_dropWhileD)
    (metis dropWhile_eq_Nil_conv hd_dropWhile hd_in_set in_set_conv_decomp list.set_sel(1) set_dropWhileD)+

lemma strip_signed: "record_ok i r \<Longrightarrow> strip (signed_text sg r) \<noteq> []"
proof -
  assume "record_ok i r"
  then obtain kvs where "r = JObj kvs" by (cases r) (auto simp: record_ok_def)
  then have "CHR ''{'' \<in> set (signed_text sg r)" by (simp add: signed_text_def canonical_json_def)
  moreover have "\<not> py_space (CHR ''{'')" by (simp add: py_space_def code_def)
  ultimately show ?thesis unfolding strip_Nil list_all_iff by blast
qed

lemma record_ok_nth: "records_ok rs \<Longrightarrow> r \<in> set rs \<Longrightarrow> \<exists>i. record_ok i r"
  by (auto simp: records_ok_def in_set_conv_nth)

lemma parsed_render:
  assumes "sound_signer verify sg" and "records_ok rs"
  shows "parsed_lines (render_part sg per rs p) = map jsort (chunk per rs p)"
proof -
  let ?f = "\<lambda>raw. if strip raw = [] then None else loads (body_of raw)"
  have "?f (signed_text sg r) = Some (jsort r)" if r: "r \<in> set (chunk per rs p)" for r
  proof -
    obtain i where "record_ok i r" using record_ok_nth [OF assms(2) set_chunk [OF r]] by blast
    then show ?thesis using strip_signed [of i r sg] by (simp add: body_signed record_ok_def canon.loads_render)
  qed
  then have "List.map_filter ?f (map (signed_text sg) (chunk per rs p)) = map jsort (chunk per rs p)"
    by (induction "chunk per rs p" arbitrary: rule: list.induct) (auto simp: List.map_filter_def)
  moreover have "List.map_filter ?f [[]] = []" by (simp add: List.map_filter_def strip_def)
  ultimately show ?thesis by (simp add: parsed_lines_def split_render [OF assms] List.map_filter_def)
qed

lemma concat_chunks: "concat (map (chunk per rs) [0..<n]) = take (n * per) rs"
proof (induction n)
  case (Suc n)
  then show ?case by (simp add: chunk_def take_add add.commute [of per])
qed simp

lemma iter_index_log:
  assumes sg: "sound_signer verify sg" and ok: "records_ok rs" and log: "log_on sg per trk rs fs"
  shows "iter_index fs trk = Some (map jsort rs)"
proof -
  obtain n where n: "length rs \<le> n * per"
    and files: "\<And>p. read_file fs (index_part_path trk p) = (if p < n then Some (render_part sg per rs p) else None)"
    using log by (auto simp: log_on_def)
  have eq: "map (\<lambda>p. parsed_lines (part_text fs trk p)) [0..<n] = map (\<lambda>p. map jsort (chunk per rs p)) [0..<n]"
    by (simp add: part_text_def files parsed_render [OF sg ok])
  then have all: "concat (map (\<lambda>p. parsed_lines (part_text fs trk p)) [0..<n]) = map jsort rs"
  proof -
    have "concat (map (\<lambda>p. map jsort (chunk per rs p)) [0..<n]) = map jsort (concat (map (chunk per rs) [0..<n]))"
      by (simp add: map_concat comp_def)
    then show ?thesis unfolding eq using concat_chunks [of per rs n] n by simp
  qed
  have seqs: "seq_key (jsort (rs ! i)) = int i + 1" if "i < length rs" for i
    using ok that by (simp add: records_ok_def record_ok_def seq_key_def jget_jsort)
  have "sorted (map seq_key (map jsort rs))"
    by (auto simp: sorted_iff_nth_mono seqs)
  moreover have "list_all sortable_record (map jsort rs)"
    using ok by (auto simp: list_all_length records_ok_def record_ok_def sortable_record_def jget_jsort)
  ultimately show ?thesis
    by (simp add: iter_index_def index_parts_log [OF files] all Let_def sort_key_id_if_sorted del: map_map)
qed

lemma kings_jsort: "(\<And>r. r \<in> set rs \<Longrightarrow> wf_json r) \<Longrightarrow> foldl (\<lambda>k r. king_after r k) JNull (map jsort rs) = jsort (kings rs)"
  by (induction rs rule: rev_induct) (simp_all add: king_after_jsort kings_def)

lemma py_str_jsort: "is_str v \<Longrightarrow> jsort v = v"
  by (cases v) simp_all

lemma rebuild_head_eq:
  assumes "st1 = st\<lparr>disk := repair_tail verify vk trk (disk st)\<rparr>" and "iter_index (disk st1) trk = Some js" and "js \<noteq> []"
    and "store_schema sp = Some schema" and "as_int (jget (last js) ''seq'') = Some n" and "as_int (jget (last js) ''block'') = Some b"
    and "jhas (last js) ''event_id''" and "jhas (last js) ''finished_at''"
    and "st2 = write_head schema trk n (py_str (jget (last js) ''event_id'')) b (py_str (jget (last js) ''finished_at''))
      (foldl (\<lambda>k r. king_after r k) JNull js) st1"
  shows "rebuild_head sp verify vk trk st = (Inr (head trk st2), st2)"
  using assms by (cases js) (simp_all add: rebuild_head_def Let_def)

text \<open>\<open>rebuild_head\<close> makes the head the log says, whatever head there was.\<close>

lemma rebuild_log:
  assumes sg: "sound_signer verify sg" and ok: "records_ok rs" "list_all fields_ok rs" and ne: "rs \<noteq> []"
    and schema: "store_schema sp = Some schema"
    and log: "log_on sg (nat (lines_per_part sp)) trk rs (repair_tail verify (verify_key sg) trk (disk st))"
  shows "\<exists>st'. rebuild_head sp verify (verify_key sg) trk st = (Inr (head_of schema rs), st') \<and> track_on sp sg schema trk rs st'"
proof -
  let ?r = "last rs"
  define st1 where "st1 = st\<lparr>disk := repair_tail verify (verify_key sg) trk (disk st)\<rparr>"
  have it: "iter_index (disk st1) trk = Some (map jsort rs)"
    using iter_index_log [OF sg ok(1) log] by (simp add: st1_def)
  have wf: "\<And>r. r \<in> set rs \<Longrightarrow> wf_json r" using records_ok_wf [OF ok(1)] by blast
  have r: "wf_json ?r" "fields_ok ?r" using ne wf ok(2) by (auto simp: list_all_iff)
  have rok: "record_ok (length rs - 1) ?r" using ok(1) ne by (simp add: records_ok_def last_conv_nth)
  obtain b where b: "jget ?r ''block'' = JInt b" using r(2) by (auto simp: fields_ok_def)
  have str: "jsort (jget ?r ''event_id'') = jget ?r ''event_id''" "jsort (jget ?r ''finished_at'') = jget ?r ''finished_at''"
    using r(2) by (auto simp: fields_ok_def py_str_jsort)
  have has: "jhas ?r ''event_id'' \<and> jhas ?r ''finished_at''"
    using r(2) jget_notin [of ?r] unfolding fields_ok_def by (metis is_str.simps(2))
  have len: "int (length rs - 1) + 1 = int (length rs)" using ne by (cases rs) simp_all
  define st2 where "st2 = write_head schema trk (int (length rs)) (py_str (jget ?r ''event_id'')) b
    (py_str (jget ?r ''finished_at'')) (jsort (kings rs)) st1"
  have hd: "head trk st2 = head_of schema rs"
    using wf_jsort [OF wf_kings [OF wf]] ne b
    by (simp add: st2_def head_write_head head_dict_jsort head_of_def)
  have "rebuild_head sp verify (verify_key sg) trk st = (Inr (head trk st2), st2)"
    by (rule rebuild_head_eq [OF st1_def it _ schema])
      (use ne has b rok str len kings_jsort [OF wf] in
        \<open>simp_all add: st2_def last_map jget_jsort [OF r(1)] record_ok_def\<close>)
  moreover have "track_on sp sg schema trk rs st2"
    using ok hd log by (simp add: track_on_def st2_def write_head_def touch_def write_json_def st1_def log_on_other)
  ultimately show ?thesis using hd by auto
qed

section \<open>A crash between two bytes\<close>

lemma log_on_Suc: "per \<noteq> 0 \<Longrightarrow> torn_on sg per trk rs [] fs \<Longrightarrow> log_on sg per trk rs fs"
proof -
  assume per: "per \<noteq> 0" and torn: "torn_on sg per trk rs [] fs"
  have "length rs \<le> (length rs div per + 1) * per"
    using dividend_less_div_times [of per "length rs"] per by simp
  then show ?thesis using torn unfolding log_on_def torn_on_def by (intro exI [of _ "length rs div per + 1"]) auto
qed

lemma torn_full: "per \<noteq> 0 \<Longrightarrow> torn_on sg per trk rs (index_line sg r) fs \<Longrightarrow> log_on sg per trk (rs @ [r]) fs"
proof -
  assume per: "per \<noteq> 0" and torn: "torn_on sg per trk rs (index_line sg r) fs"
  have "length (rs @ [r]) \<le> (length rs div per + 1) * per"
    using dividend_less_div_times [of per "length rs"] per by simp
  moreover have "length rs div per + 1 \<le> length (rs @ [r]) div per + 1" by (simp add: div_le_mono)
  ultimately show ?thesis using torn unfolding log_on_def torn_on_def
    by (intro exI [of _ "length rs div per + 1"]) (auto simp: render_snoc [OF per])
qed

lemma torn_put: "torn_on sg per trk rs tail fs \<Longrightarrow>
   torn_on sg per trk rs tail' (put (index_part_path trk (length rs div per)) (render_part sg per rs (length rs div per) @ tail') fs)"
  by (auto simp: torn_on_def)

text \<open>The line being written was cut anywhere: the repair leaves the log, or the log with the record.\<close>

lemma repair_torn:
  assumes sg: "sound_signer verify sg" and r: "wf_json r" and per: "per \<noteq> 0"
    and torn: "torn_on sg per trk rs tail fs" and cut: "index_line sg r = tail @ q"
  shows "log_on sg per trk (if length q \<le> 1 then rs @ [r] else rs) (repair_tail verify (verify_key sg) trk fs)"
proof -
  let ?d = "length rs div per"
  have parts: "index_parts fs trk = [0..<?d + 1]"
    using torn unfolding torn_on_def by (intro index_parts_log) auto
  have last: "read_file fs (index_part_path trk (last [0..<?d + 1])) = Some (render_part sg per rs ?d @ tail)"
    using torn by (simp add: torn_on_def)
  note repair = repair_tail_parts [OF parts _ last, of verify "verify_key sg"]
  consider "q = []" | "tail = []" | q' where "q = q' @ [NL]" "signed_text sg r = tail @ q'" "tail \<noteq> []"
    using cut by (cases q rule: rev_cases) (auto simp: index_line_text)
  then show ?thesis
  proof cases
    case 1
    then have "log_on sg per trk (rs @ [r]) fs" using torn cut torn_full [OF per] by simp
    then show ?thesis using 1 by (simp add: repair_log)
  next
    case 2
    then have "log_on sg per trk rs fs" using torn log_on_Suc [OF per] by simp
    moreover have "1 < length q" using cut 2 signed_not_Nil [of sg r] by (cases q) (auto simp: index_line_text)
    ultimately show ?thesis by (simp add: repair_log)
  next
    case (3 q')
    have rep: "repaired verify (verify_key sg) (render_part sg per rs ?d @ tail)
        = render_part sg per rs ?d @ (if q' = [] then index_line sg r else [])"
      using repaired_torn [OF sg r 3(2,3), of per rs ?d] by simp
    have "torn_on sg per trk rs (if q' = [] then index_line sg r else []) (repair_tail verify (verify_key sg) trk fs)"
    proof (cases "repaired verify (verify_key sg) (render_part sg per rs ?d @ tail) = render_part sg per rs ?d @ tail")
      case True
      then have "tail = (if q' = [] then index_line sg r else [])" using rep by simp
      with torn True repair show ?thesis by simp
    next
      case False
      then show ?thesis using repair torn_put [OF torn] rep by simp
    qed
    then show ?thesis using 3(1) torn_full [OF per] log_on_Suc [OF per] by (cases "q' = []") auto
  qed
qed

lemma append_track:
  assumes "sound_signer verify sg" and "track_on sp sg schema trk rs st" and "store_schema sp = Some schema"
    and "wf_json rec" and "is_obj rec" and "fields_ok rec"
    and "read_file (disk st) (event_path trk (py_str (jget rec ''event_id''))) = Some ev"
  shows "\<exists>st'. append_record sp verify (Some sg) trk rec st = (Inr (int (length rs) + 1), st')
    \<and> track_on sp sg schema trk (rs @ [stamped rec ev (int (length rs) + 1)]) st'"
proof -
  have t: "records_ok rs" "list_all fields_ok rs" "log_on sg (nat (lines_per_part sp)) trk rs (disk st)"
    and h: "head trk st = head_of schema rs" using assms(2) by (simp_all add: track_on_def)
  have wf: "\<And>r. r \<in> set rs \<Longrightarrow> wf_json r" using records_ok_wf [OF t(1)] by blast
  have "wf_json (head_of schema rs)"
    unfolding head_of_def by (intro wf_jsort) (simp add: wf_head_dict wf_kings [OF wf])
  then show ?thesis
    using append_log [OF assms(1) t(1,2) _ _ _ assms(4-6,3,7)] t(3) h jget_head_of [OF wf] by (simp add: repair_log)
qed

section \<open>A store with a signer\<close>

definition sample_signer :: signer where
  "sample_signer = \<lparr>verify_key = ''k'', sign = (\<lambda>m. sha256_hex m @ sha256_hex m)\<rparr>"

definition sample_verify :: verifier where
  "sample_verify k m s \<longleftrightarrow> s = sha256_hex m @ sha256_hex m"

lemma sample_sound: "sound_signer sample_verify sample_signer"
  by (simp add: sound_signer_def sample_signer_def sample_verify_def sha.length_digest sha.digest_all_lower)

definition sample_record :: json where
  "sample_record = JObj [(''event_id'', JStr ''e''), (''kind'', JStr ''genesis''), (''block'', JInt 1),
     (''finished_at'', JStr ''t''), (''king'', JStr ''k''), (''new_king'', JStr ''k'')]"

definition sample_store :: store where
  "sample_store = write_head 4 ''fa'' 0 [] 0 [] JNull (write_event ''fa'' sample_record \<lparr>disk = [], touched = []\<rparr>)"

lemma sample_record_ok: "wf_json sample_record" "is_obj sample_record" "fields_ok sample_record"
  by (simp_all add: sample_record_def fields_ok_def jget_JObj)

lemma sample_schema: "store_schema sample_spec = Some 4"
  by (simp add: store_schema_def spec_section_def sample_spec_def sample_contract_def jget_JObj)

lemma sample_event_file:
  "read_file (disk sample_store) (event_path ''fa'' (py_str (jget sample_record ''event_id''))) = Some (pretty_json sample_record)"
  by (simp add: sample_store_def write_head_def write_event_def touch_def write_json_def Let_def)

lemma read_Nil [simp]: "read_file [] p = None"
  by (simp add: read_file_def)

lemma sample_track: "track_on sample_spec sample_signer 4 ''fa'' [] sample_store"
proof -
  have "head ''fa'' sample_store = head_of 4 []"
    unfolding sample_store_def head_of_def by (subst head_write_head) simp_all
  moreover have "log_on sample_signer (nat (lines_per_part sample_spec)) ''fa'' [] (disk sample_store)"
    unfolding log_on_def
    by (intro exI [of _ 0]) (simp add: sample_store_def write_head_def write_event_def touch_def write_json_def Let_def)
  ultimately show ?thesis by (simp add: track_on_def records_ok_def)
qed

definition sample_first :: json where
  "sample_first = stamped sample_record (pretty_json sample_record) 1"

lemma sample_one: "\<exists>st. track_on sample_spec sample_signer 4 ''fa'' [sample_first] st"
proof -
  have log: "log_on sample_signer (nat (lines_per_part sample_spec)) ''fa'' []
      (repair_tail sample_verify (verify_key sample_signer) ''fa'' (disk sample_store))"
    using sample_track repair_log unfolding track_on_def by metis
  have "head ''fa'' sample_store = head_of 4 []" using sample_track by (simp add: track_on_def)
  then have "jget (head ''fa'' sample_store) ''king'' = jsort (kings []) \<or> deciding sample_record"
    and "wf_json (head ''fa'' sample_store)"
    using jget_head_of [of "[]" 4] by (simp_all add: head_of_def wf_jsort wf_head_dict)
  from append_log [OF sample_sound _ _ log this sample_record_ok sample_schema sample_event_file]
  show ?thesis by (auto simp: sample_first_def records_ok_def)
qed

section \<open>Properties\<close>





text \<open>C17. The crown cannot be moved, lost or blanked by a record of another kind: only duel, genesis,
  succession and vacancy records say who holds it, each of those says it whatever the head said
  before (so a stale head is harmless to the next crowning record), and after any log the king is
  what its last deciding record says.\<close>

theorem crown_follows_deciding:
  "(\<forall>r k. \<not> deciding r \<longrightarrow> king_after r k = k) \<and> (\<forall>r a b. deciding r \<longrightarrow> king_after r a = king_after r b)
   \<and> (\<forall>rs. kings rs = (if filter deciding rs = [] then JNull else king_after (last (filter deciding rs)) JNull))"
proof -
  have "kings rs = (if filter deciding rs = [] then JNull else king_after (last (filter deciding rs)) JNull)" for rs
  proof (induction rs rule: rev_induct)
    case (snoc r rs)
    show ?case
    proof (cases "deciding r")
      case True
      then show ?thesis using king_after_deciding [OF True, of "kings rs" JNull] by simp
    next
      case False
      then show ?thesis using snoc by (simp add: king_after_other)
    qed
  qed (simp add: kings_def)
  then show ?thesis using king_after_deciding king_after_other by blast
qed

theorem crown_follows_deciding_witness:
  "king_after (JObj [(''kind'', JStr ''void''), (''new_king'', JStr ''x'')]) (JStr ''k'') = JStr ''k''
   \<and> king_after (JObj [(''kind'', JStr ''genesis''), (''king'', JStr ''x'')]) (JStr ''k'')
     = king_after (JObj [(''kind'', JStr ''genesis''), (''king'', JStr ''x'')]) JNull"
  using crown_follows_deciding by (simp add: deciding_def str_in_def jget_JObj)

end
