(* ===== verification/Verify.thy ===== *)
theory Verify
  imports Store_Log Records
begin

text \<open>
  \<open>store/verify.py\<close>: what a third party runs against a published store. The loop over a part's
  lines threads the report, the expected sequence number, the last record, the king and the clips
  already hashed. \<open>jsonschema\<close> is the argument \<open>check\<close>: the complaints about a document under a
  definition of the schema. A problem carries the file and the line it is about.
\<close>

section \<open>Reports\<close>

datatype problem =
    Manifest_Unreadable | Schema_Problem string | Wrong_Key | Tracks_Differ | Foreign_Entry
  | No_Final_Newline | Blank_Line | Not_Utf8 | No_Signature | Unparsable | Not_An_Object | Not_Canonical
  | Signature_Form | Bad_Signature | Wrong_Seq | Wrong_Part | Wrong_Track
  | Event_Missing | Event_Hash | Event_Unreadable | Event_Field string | Tally_Field string | Media_Count
  | Media_Missing string | Media_Content string
  | Head_Unreadable | Head_Claims | Head_Last | Head_Field string | Head_King

datatype complaint = Fingerprint_Differs | Event_Not_Signed | Queue_Unreadable

record report =
  errors :: "(string \<times> nat \<times> problem) list"
  warnings :: "(string \<times> nat \<times> complaint) list"
  n_records :: nat
  n_events :: nat
  n_media :: nat
  validator_key :: string

definition err :: "string \<times> nat \<Rightarrow> problem \<Rightarrow> report \<Rightarrow> report" where
  "err at_line p rep = rep\<lparr>errors := errors rep @ [(fst at_line, snd at_line, p)]\<rparr>"

definition warn :: "string \<times> nat \<Rightarrow> complaint \<Rightarrow> report \<Rightarrow> report" where
  "warn at_line p rep = rep\<lparr>warnings := warnings rep @ [(fst at_line, snd at_line, p)]\<rparr>"

definition err_if :: "bool \<Rightarrow> string \<times> nat \<Rightarrow> problem \<Rightarrow> report \<Rightarrow> report" where
  "err_if c at_line p rep = (if c then err at_line p rep else rep)"

type_synonym schema_check = "string \<Rightarrow> json \<Rightarrow> string list"

definition schema_errs :: "schema_check \<Rightarrow> string \<Rightarrow> json \<Rightarrow> string \<times> nat \<Rightarrow> report \<Rightarrow> report" where
  "schema_errs check def obj at_line rep = foldl (\<lambda>r m. err at_line (Schema_Problem m) r) rep (check def obj)"

section \<open>One line\<close>

definition RECORD_ONLY :: "string list" where
  "RECORD_ONLY = [''seq'', ''event_sha256'']"

definition SIGNATURE_RE :: rx where
  "SIGNATURE_RE = Rep 128 (Cls hex_lower)"

record walk =
  w_report :: report
  expected :: int
  last_rec :: "json option"
  w_king :: json
  hashed :: "(string \<times> bool) list"

definition on_report :: "(report \<Rightarrow> report) \<Rightarrow> walk \<Rightarrow> walk" where
  "on_report f w = w\<lparr>w_report := f (w_report w)\<rparr>"

text \<open>The clips an event's units name: present, and the bytes their name hashes to.\<close>

definition media_step :: "nat \<Rightarrow> string \<Rightarrow> files \<Rightarrow> string \<times> nat \<Rightarrow> walk \<Rightarrow> string \<Rightarrow> walk" where
  "media_step bucket ext fs at_line w sha =
     (case read_file fs (media_path bucket sha ext) of
        None \<Rightarrow> on_report (err at_line (Media_Missing sha)) w
      | Some content \<Rightarrow>
          (let w1 = on_report (\<lambda>r. r\<lparr>n_media := n_media r + 1\<rparr>) w;
               good = (case map_of (hashed w) sha of Some g \<Rightarrow> g | None \<Rightarrow> sha256_hex_bytes content = sha);
               w2 = w1\<lparr>hashed := (if map_of (hashed w) sha = None then (sha, good) # hashed w else hashed w)\<rparr>
           in if good then w2 else on_report (err at_line (Media_Content sha)) w2))"

definition event_fields :: "json \<Rightarrow> json \<Rightarrow> string \<times> nat \<Rightarrow> report \<Rightarrow> report" where
  "event_fields record event at_line rep =
     foldl (\<lambda>r k. err_if (\<not> py_eq (jget event k) (jget record k)) at_line (Event_Field k) r) rep
       (sort (filter (\<lambda>k. k \<notin> set RECORD_ONLY) (map fst (jitems record))))"

definition event_units :: "json \<Rightarrow> json list" where
  "event_units event = (case jget event ''units'' of JArr us \<Rightarrow> filter is_obj us | _ \<Rightarrow> [])"

definition event_report :: "schema_check \<Rightarrow> json \<Rightarrow> json \<Rightarrow> string \<times> nat \<Rightarrow> report \<Rightarrow> report" where
  "event_report check record event at_line rep =
     (let us = event_units event;
          r1 = schema_errs check ''DuelEvent'' event at_line (rep\<lparr>n_events := n_events rep + 1\<rparr>);
          r2 = event_fields record event at_line r1;
          r3 = foldl (\<lambda>r kv. err_if (\<not> py_eq (jget record (fst kv)) (snd kv)) at_line (Tally_Field (fst kv)) r) r2
                 (jitems (unit_tally us))
      in err_if (\<not> py_eq (jget record ''media_count'') (JInt (int (length (media_shas us))))) at_line Media_Count r3)"

definition event_hash :: "json \<Rightarrow> string \<Rightarrow> string \<times> nat \<Rightarrow> report \<Rightarrow> report" where
  "event_hash record data at_line rep =
     (if \<not> jhas record ''event_sha256'' then warn at_line Event_Not_Signed rep
      else err_if (jget record ''event_sha256'' \<noteq> JStr (sha256_hex_bytes data)) at_line Event_Hash rep)"

definition parse_json_bytes :: "string \<Rightarrow> json option" where
  "parse_json_bytes data = (if ascii data then loads data else None)"

definition check_event :: "schema_check \<Rightarrow> nat \<Rightarrow> string \<Rightarrow> files \<Rightarrow> string \<Rightarrow> json \<Rightarrow> string \<times> nat \<Rightarrow> walk \<Rightarrow> walk" where
  "check_event check bucket ext fs trk record at_line w =
     (case read_file fs (event_path trk (py_str (jget_or record ''event_id'' (JStr [])))) of
        None \<Rightarrow> on_report (err at_line Event_Missing) w
      | Some data \<Rightarrow>
          (let w1 = on_report (event_hash record data at_line) w in
           case parse_json_bytes data of
             None \<Rightarrow> on_report (err at_line Event_Unreadable) w1
           | Some event \<Rightarrow>
               if \<not> is_obj event then on_report (err at_line Event_Unreadable) w1
               else foldl (media_step bucket ext fs at_line) (on_report (event_report check record event at_line) w1)
                      (media_shas (event_units event))))"

text \<open>One whole line: its form, its signature, its place, and the event it signs.\<close>

record verify_args =
  va_spec :: contract
  va_check :: schema_check
  va_verify :: verifier
  va_key :: string
  va_files :: files
  va_ext :: string
  va_bucket :: nat

definition check_record :: "verify_args \<Rightarrow> string \<Rightarrow> nat \<Rightarrow> string \<Rightarrow> string \<Rightarrow> json \<Rightarrow> string \<times> nat \<Rightarrow> walk \<Rightarrow> walk" where
  "check_record a trk part body sig record at_line w =
     (let sq = jget record ''seq'';
          w1 = on_report (\<lambda>r.
            schema_errs (va_check a) ''IndexRecord'' record at_line
              (err_if (jget record ''track'' \<noteq> JStr trk) at_line Wrong_Track
                (err_if (case as_int sq of None \<Rightarrow> False | Some n \<Rightarrow> part_of (va_spec a) n \<noteq> part) at_line Wrong_Part
                  (err_if (\<not> py_eq sq (JInt (expected w))) at_line Wrong_Seq
                    (if \<not> rx_fullmatch SIGNATURE_RE sig then err at_line Signature_Form
                       (err_if (canonical_json record \<noteq> body) at_line Not_Canonical r)
                     else err_if (\<not> va_verify a (va_key a) body sig) at_line Bad_Signature
                       (err_if (canonical_json record \<noteq> body) at_line Not_Canonical r)))))) w;
          w2 = w1\<lparr>w_report := (w_report w1)\<lparr>n_records := n_records (w_report w1) + 1\<rparr>,
                  expected := (case as_int sq of None \<Rightarrow> expected w | Some n \<Rightarrow> n) + 1,
                  last_rec := Some record, w_king := king_after record (w_king w)\<rparr>
      in check_event (va_check a) (va_bucket a) (va_ext a) (va_files a) trk record at_line w2)"

definition check_line :: "verify_args \<Rightarrow> string \<Rightarrow> nat \<Rightarrow> string \<times> nat \<Rightarrow> string \<Rightarrow> walk \<Rightarrow> walk" where
  "check_line a trk part at_line lin w =
     (if lin = [] then on_report (err at_line Blank_Line) w
      else if \<not> ascii lin then on_report (err at_line Not_Utf8) w
      else if TAB \<notin> set lin then on_report (err at_line No_Signature) w
      else let (body, _, sig) = partition_at TAB lin in
        case loads body of None \<Rightarrow> on_report (err at_line Unparsable) w
        | Some JNull \<Rightarrow> on_report (err at_line Unparsable) w
        | Some record \<Rightarrow>
            if \<not> is_obj record then on_report (err at_line Not_An_Object) w
            else check_record a trk part body sig record at_line w)"

text \<open>The lines of a part, numbered from 1; the last piece is what follows the last newline.\<close>

fun check_lines :: "verify_args \<Rightarrow> string \<Rightarrow> nat \<Rightarrow> string \<Rightarrow> nat \<Rightarrow> string list \<Rightarrow> walk \<Rightarrow> walk" where
  "check_lines a trk part path n [] w = w"
| "check_lines a trk part path n [lin] w =
     (if lin = [] then w else check_line a trk part (path, n) lin (on_report (err (path, n) No_Final_Newline) w))"
| "check_lines a trk part path n (lin # lin' # rest) w =
     check_lines a trk part path (n + 1) (lin' # rest) (check_line a trk part (path, n) lin w)"

definition check_part :: "verify_args \<Rightarrow> string \<Rightarrow> walk \<Rightarrow> nat \<Rightarrow> walk" where
  "check_part a trk w part =
     (let path = index_part_path trk part
      in check_lines a trk part path 1 (split_on NL (part_text (va_files a) trk part)) w)"

definition parse_json_file :: "files \<Rightarrow> string \<Rightarrow> json option" where
  "parse_json_file fs p = (case read_file fs p of None \<Rightarrow> None | Some d \<Rightarrow> parse_json_bytes d)"

definition check_head :: "verify_args \<Rightarrow> string \<Rightarrow> walk \<Rightarrow> report \<Rightarrow> report" where
  "check_head a trk w rep =
     (let at_head = (head_path trk, 0) in
      case parse_json_file (va_files a) (head_path trk) of
        None \<Rightarrow> err at_head Head_Unreadable rep
      | Some hdoc \<Rightarrow>
          if \<not> is_obj hdoc then err at_head Head_Unreadable rep
          else let r1 = schema_errs (va_check a) ''Head'' hdoc at_head rep;
                   r2 = (case last_rec w of
                       None \<Rightarrow> err_if (\<not> (py_eq (jget hdoc ''seq'') (JInt 0) \<or> jget hdoc ''seq'' = JNull)) at_head Head_Claims r1
                     | Some l \<Rightarrow>
                         foldl (\<lambda>r k. err_if (\<not> py_eq (jget hdoc k) (jget l k)) at_head (Head_Field k) r)
                           (err_if (\<not> py_eq (jget hdoc ''seq'') (jget l ''seq'') \<or> \<not> py_eq (jget hdoc ''event_id'') (jget l ''event_id''))
                              at_head Head_Last r1)
                           [''block'', ''finished_at''])
               in err_if (\<not> py_eq (jget hdoc ''king'') (w_king w)) at_head Head_King r2)"

definition check_queue :: "verify_args \<Rightarrow> string \<Rightarrow> report \<Rightarrow> report" where
  "check_queue a trk rep =
     (case read_file (va_files a) (queue_path trk) of None \<Rightarrow> rep
      | Some d \<Rightarrow> (case parse_json_file (va_files a) (queue_path trk) of
           None \<Rightarrow> warn (queue_path trk, 0) Queue_Unreadable rep
         | Some snap \<Rightarrow> schema_errs (va_check a) ''QueueSnapshot'' snap (queue_path trk, 0) rep))"

definition start_walk :: "(string \<times> bool) list \<Rightarrow> report \<Rightarrow> walk" where
  "start_walk hs rep = \<lparr>w_report = rep, expected = 1, last_rec = None, w_king = JNull, hashed = hs\<rparr>"

definition check_track :: "verify_args \<Rightarrow> report \<times> (string \<times> bool) list \<Rightarrow> string \<Rightarrow> report \<times> (string \<times> bool) list" where
  "check_track a rh trk =
     (let w = foldl (check_part a trk) (start_walk (snd rh) (fst rh)) (index_parts (va_files a) trk)
      in (check_queue a trk (check_head a trk w (w_report w)), hashed w))"

text \<open>What lies directly under a directory of the store.\<close>

definition dir_entries :: "files \<Rightarrow> string \<Rightarrow> string list" where
  "dir_entries fs folder = sort (remdups (List.map_filter (\<lambda>pt. let p = fst pt in
     if startswith p (folder @ ''/'') then Some (fst (partition_at (CHR ''/'') (drop (length folder + 1) p))) else None) fs))"

definition check_foreign :: "contract \<Rightarrow> files \<Rightarrow> report \<Rightarrow> report" where
  "check_foreign sp fs rep =
     foldl (\<lambda>r folder. foldl (\<lambda>r e. err_if (e \<notin> set (spec_tracks sp)) (folder @ ''/'' @ e, 0) Foreign_Entry r) r (dir_entries fs folder))
       rep [''tracks'', ''events'']"

definition empty_report :: report where
  "empty_report = \<lparr>errors = [], warnings = [], n_records = 0, n_events = 0, n_media = 0, validator_key = []\<rparr>"

definition verify_store :: "verify_args \<Rightarrow> string option \<Rightarrow> report" where
  "verify_store a pinned =
     (let at_man = (''manifest.json'', 0) in
      case parse_json_file (va_files a) ''manifest.json'' of
        None \<Rightarrow> err at_man Manifest_Unreadable empty_report
      | Some man \<Rightarrow>
          if \<not> is_obj man then err at_man Manifest_Unreadable empty_report
          else let k0 = py_str (jget_or man ''validator_key'' (JStr []));
                   k = (case pinned of None \<Rightarrow> k0 | Some p \<Rightarrow> p);
                   a = a\<lparr>va_key := k\<rparr>;
                   r1 = err_if (k \<noteq> k0) at_man Wrong_Key (schema_errs (va_check a) ''Manifest'' man at_man empty_report);
                   r2 = (r1\<lparr>validator_key := k\<rparr>);
                   r3 = (if jget man ''spec_fingerprint'' \<noteq> JStr (fingerprint (va_spec a)) then warn at_man Fingerprint_Differs r2 else r2);
                   r4 = err_if (jget man ''tracks'' \<noteq> JArr (map JStr (spec_tracks (va_spec a)))) at_man Tracks_Differ r3;
                   r5 = check_foreign (va_spec a) (va_files a) r4
               in fst (foldl (check_track a) (r5, []) (spec_tracks (va_spec a))))"

section \<open>Problems are never taken back\<close>

definition clean :: "walk \<Rightarrow> bool" where
  "clean w \<longleftrightarrow> errors (w_report w) = []"

lemma err_not_clean [simp]: "errors (err l p r) \<noteq> []"
  by (simp add: err_def)

lemma err_if_clean [simp]: "errors (err_if c l p r) = [] \<longleftrightarrow> \<not> c \<and> errors r = []"
  by (simp add: err_if_def)

lemma warn_clean [simp]: "errors (warn l p r) = errors r"
  by (simp add: warn_def)

lemma on_report_report [simp]: "w_report (on_report f w) = f (w_report w)"
  by (simp add: on_report_def)

lemma foldl_keeps:
  "errors (foldl f r xs) = [] \<Longrightarrow> (\<And>r x. errors (f r x) = [] \<Longrightarrow> errors r = []) \<Longrightarrow> errors r = []"
proof (induction xs arbitrary: r)
  case (Cons x xs)
  have "errors (foldl f (f r x) xs) = []" using Cons.prems(1) by (simp only: foldl.simps)
  then have "errors (f r x) = []" by (rule Cons.IH [OF _ Cons.prems(2)])
  then show ?case by (rule Cons.prems(2))
qed simp

lemma schema_errs_keeps: "errors (schema_errs check d obj l r) = [] \<Longrightarrow> errors r = []"
  unfolding schema_errs_def by (erule foldl_keeps) simp

lemma event_fields_keeps: "errors (event_fields r ev l rep) = [] \<Longrightarrow> errors rep = []"
  unfolding event_fields_def by (erule foldl_keeps) simp

lemma event_report_keeps:
  assumes "errors (event_report check r ev l rep) = []"
  shows "errors rep = []"
proof -
  have "errors (event_fields r ev l (schema_errs check ''DuelEvent'' ev l (rep\<lparr>n_events := n_events rep + 1\<rparr>))) = []"
    using assms unfolding event_report_def Let_def err_if_clean by (elim conjE) (erule foldl_keeps, simp)
  from schema_errs_keeps [OF event_fields_keeps [OF this]] show ?thesis by simp
qed

lemma event_hash_clean: "errors (event_hash r data l rep) = [] \<longleftrightarrow>
    errors rep = [] \<and> (jhas r ''event_sha256'' \<longrightarrow> jget r ''event_sha256'' = JStr (sha256_hex_bytes data))"
  by (auto simp: event_hash_def)

lemma clean_on_report [simp]: "clean (on_report f w) \<longleftrightarrow> errors (f (w_report w)) = []"
  by (simp add: clean_def on_report_def)

lemma media_step_keeps: "clean (media_step b e fs l w sha) \<Longrightarrow> clean w"
  by (auto simp: media_step_def clean_def on_report_def Let_def split: option.splits if_splits)

lemma foldl_media_keeps: "clean (foldl (media_step b e fs l) w shas) \<Longrightarrow> clean w"
  by (induction shas arbitrary: w) (simp, auto dest: media_step_keeps)

text \<open>What the walk keeps from one line to the next, the reports aside.\<close>

definition walk_core :: "walk \<Rightarrow> int \<times> json option \<times> json" where
  "walk_core w = (expected w, last_rec w, w_king w)"

lemma on_report_core [simp]: "walk_core (on_report f w) = walk_core w"
  by (simp add: walk_core_def on_report_def)

lemma media_step_core [simp]: "walk_core (media_step b e fs l w sha) = walk_core w"
  by (simp add: media_step_def walk_core_def on_report_def Let_def split: option.splits)

lemma foldl_media_core [simp]: "walk_core (foldl (media_step b e fs l) w shas) = walk_core w"
  by (induction shas arbitrary: w) simp_all

text \<open>The event a clean record signs is there, with the hash the record names.\<close>

definition event_signed :: "files \<Rightarrow> string \<Rightarrow> json \<Rightarrow> bool" where
  "event_signed fs trk r \<longleftrightarrow> (\<exists>data. read_file fs (event_path trk (py_str (jget_or r ''event_id'' (JStr [])))) = Some data
     \<and> (jhas r ''event_sha256'' \<longrightarrow> jget r ''event_sha256'' = JStr (sha256_hex_bytes data)))"

lemma check_event_core [simp]: "walk_core (check_event c b e fs trk r l w) = walk_core w"
  by (simp add: check_event_def Let_def split: option.split)

lemma check_event_clean:
  assumes "clean (check_event c b e fs trk r l w)"
  shows "clean w \<and> event_signed fs trk r"
proof -
  from assms obtain data where data: "read_file fs (event_path trk (py_str (jget_or r ''event_id'' (JStr [])))) = Some data"
    by (cases "read_file fs (event_path trk (py_str (jget_or r ''event_id'' (JStr []))))") (simp_all add: check_event_def)
  from assms data obtain ev where ev: "parse_json_bytes data = Some ev" "is_obj ev"
    by (cases "parse_json_bytes data") (auto simp: check_event_def Let_def split: if_splits)
  have "clean (foldl (media_step b e fs l) (on_report (event_report c r ev l) (on_report (event_hash r data l) w))
      (media_shas (event_units ev)))"
    using assms data ev by (simp add: check_event_def Let_def)
  from foldl_media_keeps [OF this] have "errors (event_hash r data l (w_report w)) = []"
    by (simp, elim event_report_keeps)
  then show ?thesis using data by (auto simp: event_hash_clean event_signed_def clean_def)
qed

section \<open>A clean line is a record of the signed log\<close>

text \<open>What the signature scheme is relied on for: a text verifies under the key only if the owner of
  the key signed it, and all the owner signed are the records of its logs, one per track.\<close>

definition only_signed :: "verifier \<Rightarrow> string \<Rightarrow> string list \<Rightarrow> (string \<Rightarrow> json list) \<Rightarrow> bool" where
  "only_signed verify vk trks logs \<longleftrightarrow>
     (\<forall>m s. verify vk m s \<longrightarrow> (\<exists>t\<in>set trks. \<exists>r\<in>set (logs t). m = canonical_json r))"

definition logs_ok :: "string list \<Rightarrow> (string \<Rightarrow> json list) \<Rightarrow> bool" where
  "logs_ok trks logs \<longleftrightarrow> (\<forall>t\<in>set trks. records_ok (logs t) \<and> (\<forall>r\<in>set (logs t). jget r ''track'' = JStr t))"

text \<open>Record \<open>i\<close> of a log as the published files show it: in its part, with the event it signs.\<close>

definition shown :: "verify_args \<Rightarrow> string \<Rightarrow> nat \<Rightarrow> nat \<Rightarrow> json \<Rightarrow> bool" where
  "shown a trk part i r \<longleftrightarrow> part_of (va_spec a) (int i + 1) = part \<and> event_signed (va_files a) trk (jsort r)"

definition walked :: "json list \<Rightarrow> nat \<Rightarrow> walk \<Rightarrow> bool" where
  "walked rs k w \<longleftrightarrow> k \<le> length rs
     \<and> walk_core w = (int k + 1, if k = 0 then None else Some (jsort (rs ! (k - 1))), jsort (kings (take k rs)))"

lemma check_record_signed:
  assumes "clean (check_record a trk part body sig r l w)"
  shows "clean w \<and> canonical_json r = body \<and> va_verify a (va_key a) body sig"
  using check_event_clean [OF assms [unfolded check_record_def Let_def]]
  by (auto simp: clean_def split: if_splits dest!: schema_errs_keeps)

lemma check_record_clean:
  assumes "clean (check_record a trk part body sig r l w)" and sq: "jget r ''seq'' = JInt n"
  shows "clean w \<and> n = expected w \<and> part_of (va_spec a) n = part \<and> jget r ''track'' = JStr trk
    \<and> event_signed (va_files a) trk r
    \<and> walk_core (check_record a trk part body sig r l w) = (n + 1, Some r, king_after r (w_king w))"
proof -
  have "clean w \<and> n = expected w \<and> part_of (va_spec a) n = part \<and> jget r ''track'' = JStr trk
    \<and> event_signed (va_files a) trk r"
    using check_event_clean [OF assms(1) [unfolded check_record_def Let_def]]
    by (auto simp: clean_def sq split: if_splits dest!: schema_errs_keeps)
  then show ?thesis
    unfolding check_record_def Let_def check_event_core by (auto simp: walk_core_def sq)
qed

lemma walked_step:
  assumes w: "walked rs k w" and k: "k < length rs" and ok: "records_ok rs"
    and core: "walk_core w' = (int k + 2, Some (jsort (rs ! k)), king_after (jsort (rs ! k)) (w_king w))"
  shows "walked rs (Suc k) w'"
proof -
  have wfs: "\<And>y. y \<in> set (take k rs) \<Longrightarrow> wf_json y" and wf: "wf_json (rs ! k)"
    using records_ok_wf [OF ok] k by (auto dest: in_set_takeD)
  have "king_after (jsort (rs ! k)) (w_king w) = jsort (kings (take (Suc k) rs))"
    using w k wf wf_kings [OF wfs] by (simp add: walked_def walk_core_def take_Suc_conv_app_nth king_after_jsort)
  then show ?thesis using core k by (simp add: walked_def)
qed

lemma check_line_parts:
  assumes cl: "clean (check_line a trk part l lin w)"
  obtains body sig r where "partition_at TAB lin = (body, True, sig)" "loads body = Some r" "is_obj r"
    "check_line a trk part l lin w = check_record a trk part body sig r l w"
proof -
  obtain body sig where part: "partition_at TAB lin = (body, True, sig)" and lin: "lin \<noteq> []" "ascii lin" "TAB \<in> set lin"
    using cl by (cases "partition_at TAB lin") (auto simp: check_line_def partition_at_def split: if_splits)
  then obtain r where r: "loads body = Some r" "is_obj r"
      and line: "check_line a trk part l lin w = check_record a trk part body sig r l w"
    using cl by (auto simp: check_line_def split: option.splits json.splits if_splits)
  show thesis by (rule that [OF part r line])
qed

lemma check_line_keeps: "clean (check_line a trk part l lin w) \<Longrightarrow> clean w"
  using check_line_parts check_record_signed by metis

lemma check_line_clean:
  assumes cl: "clean (check_line a trk part l lin w)"
    and key: "only_signed (va_verify a) (va_key a) trks logs" and ok: "logs_ok trks logs"
    and trk: "trk \<in> set trks" and w: "walked (logs trk) k w"
  shows "k < length (logs trk) \<and> body_of lin = canonical_json (logs trk ! k)
    \<and> shown a trk part k (logs trk ! k) \<and> walked (logs trk) (Suc k) (check_line a trk part l lin w)"
proof -
  obtain body sig r where part: "partition_at TAB lin = (body, True, sig)" and r: "loads body = Some r" "is_obj r"
      and line: "check_line a trk part l lin w = check_record a trk part body sig r l w"
    using check_line_parts [OF cl] by metis
  note cl' = cl [unfolded line]
  have signed: "canonical_json r = body" "va_verify a (va_key a) body sig"
    using check_record_signed [OF cl'] by blast+
  then obtain t x where x: "t \<in> set trks" "x \<in> set (logs t)" "body = canonical_json x"
    using key unfolding only_signed_def by blast
  then obtain i where i: "i < length (logs t)" "logs t ! i = x" by (auto simp: in_set_conv_nth)
  have rec: "record_ok i x" using ok x(1) i unfolding logs_ok_def records_ok_def by blast
  then have wf: "wf_json x" by (simp add: record_ok_def)
  have "r = jsort x" using r(1) canon.loads_render [OF wf] x(3) by simp
  then have sq: "jget r ''seq'' = JInt (int i + 1)" and tr: "jget r ''track'' = jsort (jget x ''track'')"
    using rec by (simp_all add: record_ok_def jget_jsort)
  note facts = check_record_clean [OF cl' sq]
  have "t = trk" using facts tr ok x(1,2) by (simp add: logs_ok_def)
  moreover have "i = k" using facts w by (simp add: walked_def walk_core_def)
  ultimately have rk: "r = jsort (logs trk ! k)" "k < length (logs trk)" "body = canonical_json (logs trk ! k)" "wf_json (logs trk ! k)"
    using \<open>r = jsort x\<close> i x(3) wf by simp_all
  have "records_ok (logs trk)" using ok trk by (simp add: logs_ok_def)
  from walked_step [OF w rk(2) this, of "check_line a trk part l lin w"]
  have "walked (logs trk) (Suc k) (check_line a trk part l lin w)"
    using facts rk \<open>i = k\<close> unfolding line by simp
  then show ?thesis using facts rk part \<open>i = k\<close> by (auto simp: body_of_def shown_def)
qed

section \<open>A clean store is a prefix of the signed log\<close>

text \<open>Lines \<open>k\<close> up to \<open>k'\<close> of the log, in part \<open>p\<close>.\<close>

definition shown_from :: "verify_args \<Rightarrow> string \<Rightarrow> json list \<Rightarrow> nat \<Rightarrow> nat \<Rightarrow> nat \<Rightarrow> bool" where
  "shown_from a trk rs p k k' \<longleftrightarrow> k \<le> k' \<and> k' \<le> length rs \<and> (\<forall>i. k \<le> i \<and> i < k' \<longrightarrow> shown a trk p i (rs ! i))"

lemma body_of_Nil [simp]: "body_of [] = []"
  by (simp add: body_of_def partition_at_def)

lemma check_lines_Cons: "lins \<noteq> [] \<Longrightarrow>
    check_lines a trk p path n (lin # lins) w = check_lines a trk p path (n + 1) lins (check_line a trk p (path, n) lin w)"
  by (cases lins) simp_all

lemma check_lines_keeps: "clean (check_lines a trk p path n lins w) \<Longrightarrow> clean w"
proof (induction a trk p path n lins w rule: check_lines.induct)
  case (2 a trk p path n lin w)
  then show ?case by (auto split: if_splits dest: check_line_keeps)
next
  case (3 a trk p path n lin lin' rest w)
  then show ?case by (auto dest: check_line_keeps)
qed simp

lemma check_lines_clean:
  assumes key: "only_signed (va_verify a) (va_key a) trks logs" and ok: "logs_ok trks logs" and trk: "trk \<in> set trks"
  shows "lins \<noteq> [] \<Longrightarrow> clean (check_lines a trk p path n lins w) \<Longrightarrow> walked (logs trk) k w \<Longrightarrow>
    (\<exists>k'. shown_from a trk (logs trk) p k k' \<and> walked (logs trk) k' (check_lines a trk p path n lins w)
      \<and> map body_of lins = map canonical_json (take (k' - k) (drop k (logs trk))) @ [[]])"
proof (induction lins arbitrary: n w k rule: list_nonempty_induct)
  case (single lin)
  have "lin = []"
  proof (rule ccontr)
    assume "lin \<noteq> []"
    with single have "clean (check_line a trk p (path, n) lin (on_report (err (path, n) No_Final_Newline) w))" by simp
    from check_line_keeps [OF this] show False by simp
  qed
  with single show ?case by (auto simp: shown_from_def walked_def intro!: exI [of _ k])
next
  case (cons lin lins)
  let ?rs = "logs trk" and ?w = "check_line a trk p (path, n) lin w"
  have cl: "clean (check_lines a trk p path (n + 1) lins ?w)" using cons.prems(1) by (simp add: check_lines_Cons cons.hyps)
  note here = check_line_clean [OF check_lines_keeps [OF cl] key ok trk cons.prems(2)]
  from cons.IH [OF cl, of "Suc k"] here obtain k' where k': "shown_from a trk ?rs p (Suc k) k'"
      "walked ?rs k' (check_lines a trk p path (n + 1) lins ?w)"
      "map body_of lins = map canonical_json (take (k' - Suc k) (drop (Suc k) ?rs)) @ [[]]" by blast
  from k'(1) have le: "Suc k \<le> k'" by (simp add: shown_from_def)
  have "take (k' - k) (drop k ?rs) = ?rs ! k # take (k' - Suc k) (drop (Suc k) ?rs)"
    using here le by (simp add: Cons_nth_drop_Suc [symmetric] Suc_diff_Suc [symmetric] less_eq_Suc_le)
  moreover have "shown_from a trk ?rs p k k'"
    using k'(1) here by (auto simp: shown_from_def le_eq_less_or_eq [of k] Suc_le_eq)
  ultimately show ?case
    using k' here by (intro exI [of _ k']) (simp add: check_lines_Cons cons.hyps)
qed

definition part_bodies :: "files \<Rightarrow> string \<Rightarrow> nat \<Rightarrow> string list" where
  "part_bodies fs trk p = butlast (map body_of (split_on NL (part_text fs trk p)))"

lemma check_part_keeps: "clean (check_part a trk w p) \<Longrightarrow> clean w"
  by (simp add: check_part_def Let_def check_lines_keeps)

lemma check_parts_keeps: "clean (foldl (check_part a trk) w ps) \<Longrightarrow> clean w"
  by (induction ps arbitrary: w) (auto dest: check_part_keeps)

lemma check_parts_clean:
  assumes key: "only_signed (va_verify a) (va_key a) trks logs" and ok: "logs_ok trks logs" and trk: "trk \<in> set trks"
  shows "clean (foldl (check_part a trk) w ps) \<Longrightarrow> walked (logs trk) k w \<Longrightarrow>
    \<exists>k'\<ge>k. walked (logs trk) k' (foldl (check_part a trk) w ps)
      \<and> concat (map (part_bodies (va_files a) trk) ps) = map canonical_json (take (k' - k) (drop k (logs trk)))
      \<and> (\<forall>i. k \<le> i \<and> i < k' \<longrightarrow> (\<exists>p\<in>set ps. shown a trk p i (logs trk ! i)))"
proof (induction ps arbitrary: w k)
  case (Cons p ps)
  let ?rs = "logs trk" and ?w = "check_part a trk w p"
  have cl: "clean (foldl (check_part a trk) ?w ps)" using Cons.prems(1) by simp
  obtain k1 where k1: "shown_from a trk ?rs p k k1" "walked ?rs k1 ?w"
      "map body_of (split_on NL (part_text (va_files a) trk p)) = map canonical_json (take (k1 - k) (drop k ?rs)) @ [[]]"
    using check_lines_clean [OF key ok trk split_on_not_Nil _ Cons.prems(2)] check_parts_keeps [OF cl]
    unfolding check_part_def Let_def by blast
  from Cons.IH [OF cl k1(2)] obtain k' where k': "k1 \<le> k'" "walked ?rs k' (foldl (check_part a trk) ?w ps)"
      "concat (map (part_bodies (va_files a) trk) ps) = map canonical_json (take (k' - k1) (drop k1 ?rs))"
      "\<And>i. k1 \<le> i \<Longrightarrow> i < k' \<Longrightarrow> \<exists>p\<in>set ps. shown a trk p i (?rs ! i)" by blast
  have le: "k \<le> k1" and here: "\<And>i. k \<le> i \<Longrightarrow> i < k1 \<Longrightarrow> shown a trk p i (?rs ! i)"
    using k1(1) by (auto simp: shown_from_def)
  have "part_bodies (va_files a) trk p = map canonical_json (take (k1 - k) (drop k ?rs))"
    by (simp add: part_bodies_def k1(3))
  moreover have "take (k' - k) (drop k ?rs) = take (k1 - k) (drop k ?rs) @ take (k' - k1) (drop k1 ?rs)"
    using take_add [of "k1 - k" "k' - k1" "drop k ?rs"] le k'(1) by simp
  ultimately have "concat (map (part_bodies (va_files a) trk) (p # ps)) = map canonical_json (take (k' - k) (drop k ?rs))"
    using k'(3) by simp
  moreover have "\<exists>q\<in>set (p # ps). shown a trk q i (?rs ! i)" if "k \<le> i" "i < k'" for i
    using here k'(4) that by (cases "i < k1") auto
  ultimately show ?case using k'(1,2) le by (intro exI [of _ k']) auto
qed (auto intro!: exI)

lemma check_head_clean:
  assumes "errors (check_head a trk w rep) = []"
  obtains h where "parse_json_file (va_files a) (head_path trk) = Some h" "py_eq (jget h ''king'') (w_king w)"
    "\<And>l. last_rec w = Some l \<Longrightarrow> py_eq (jget h ''seq'') (jget l ''seq'') \<and> py_eq (jget h ''event_id'') (jget l ''event_id'')"
    "errors rep = []"
proof -
  obtain h where h: "parse_json_file (va_files a) (head_path trk) = Some h" "is_obj h"
    using assms by (auto simp: check_head_def Let_def split: option.splits if_splits)
  have "py_eq (jget h ''king'') (w_king w)
    \<and> (\<forall>l. last_rec w = Some l \<longrightarrow> py_eq (jget h ''seq'') (jget l ''seq'') \<and> py_eq (jget h ''event_id'') (jget l ''event_id''))
    \<and> errors rep = []"
    using assms h by (auto simp: check_head_def Let_def split: option.splits dest!: schema_errs_keeps)
  with h that show thesis by blast
qed

lemma check_queue_keeps: "errors (check_queue a trk rep) = [] \<Longrightarrow> errors rep = []"
  by (auto simp: check_queue_def split: option.splits dest: schema_errs_keeps)

lemma check_track_keeps: "errors (fst (check_track a rh trk)) = [] \<Longrightarrow> errors (fst rh) = []"
proof -
  assume "errors (fst (check_track a rh trk)) = []"
  then have "errors (check_head a trk (foldl (check_part a trk) (start_walk (snd rh) (fst rh)) (index_parts (va_files a) trk))
      (w_report (foldl (check_part a trk) (start_walk (snd rh) (fst rh)) (index_parts (va_files a) trk)))) = []"
    by (simp add: check_track_def Let_def check_queue_keeps)
  then have "clean (foldl (check_part a trk) (start_walk (snd rh) (fst rh)) (index_parts (va_files a) trk))"
    unfolding clean_def by (rule check_head_clean) simp
  from check_parts_keeps [OF this] show ?thesis by (simp add: clean_def start_walk_def)
qed

text \<open>What a track's files show of the log that was signed: its first \<open>n\<close> records in order, each in
  its part with its event, and the head of those.\<close>

definition shows_prefix :: "verify_args \<Rightarrow> string \<Rightarrow> json list \<Rightarrow> nat \<Rightarrow> bool" where
  "shows_prefix a trk rs n \<longleftrightarrow> n \<le> length rs
     \<and> concat (map (part_bodies (va_files a) trk) (index_parts (va_files a) trk)) = map canonical_json (take n rs)
     \<and> (\<forall>i<n. \<exists>p\<in>set (index_parts (va_files a) trk). shown a trk p i (rs ! i))
     \<and> (\<exists>h. parse_json_file (va_files a) (head_path trk) = Some h \<and> py_eq (jget h ''king'') (jsort (kings (take n rs)))
          \<and> (0 < n \<longrightarrow> py_eq (jget h ''seq'') (JInt (int n))))"

lemma check_track_clean:
  assumes cl: "errors (fst (check_track a rh trk)) = []"
    and key: "only_signed (va_verify a) (va_key a) trks logs" and ok: "logs_ok trks logs" and trk: "trk \<in> set trks"
  shows "\<exists>n. shows_prefix a trk (logs trk) n"
proof -
  let ?w = "foldl (check_part a trk) (start_walk (snd rh) (fst rh)) (index_parts (va_files a) trk)"
  have "errors (check_head a trk ?w (w_report ?w)) = []"
    using cl by (simp add: check_track_def Let_def check_queue_keeps)
  then obtain h where h: "parse_json_file (va_files a) (head_path trk) = Some h" "py_eq (jget h ''king'') (w_king ?w)"
    "\<And>l. last_rec ?w = Some l \<Longrightarrow> py_eq (jget h ''seq'') (jget l ''seq'') \<and> py_eq (jget h ''event_id'') (jget l ''event_id'')"
    "errors (w_report ?w) = []" by (rule check_head_clean) blast
  have "walked (logs trk) 0 (start_walk (snd rh) (fst rh))"
    by (simp add: walked_def walk_core_def start_walk_def kings_def)
  from check_parts_clean [OF key ok trk _ this] h(4) obtain n where n: "walked (logs trk) n ?w"
      "concat (map (part_bodies (va_files a) trk) (index_parts (va_files a) trk)) = map canonical_json (take n (logs trk))"
      "\<And>i. i < n \<Longrightarrow> \<exists>p\<in>set (index_parts (va_files a) trk). shown a trk p i (logs trk ! i)"
    unfolding clean_def by (metis drop0 minus_nat.diff_0 zero_le)
  have len: "n \<le> length (logs trk)" and king: "w_king ?w = jsort (kings (take n (logs trk)))"
    and lst: "0 < n \<Longrightarrow> last_rec ?w = Some (jsort (logs trk ! (n - 1)))"
    using n(1) by (auto simp: walked_def walk_core_def)
  have "py_eq (jget h ''seq'') (JInt (int n))" if pos: "0 < n"
  proof -
    have "record_ok (n - 1) (logs trk ! (n - 1))" using ok trk len pos by (simp add: logs_ok_def records_ok_def)
    then have "jget (jsort (logs trk ! (n - 1))) ''seq'' = JInt (int n)" using pos by (simp add: record_ok_def jget_jsort)
    then show ?thesis using h(3) [OF lst [OF pos]] by simp
  qed
  then show ?thesis using n h len king unfolding shows_prefix_def by (intro exI [of _ n]) auto
qed

section \<open>What the writer wrote verifies\<close>

definition good :: "walk \<Rightarrow> bool" where
  "good w \<longleftrightarrow> clean w \<and> (\<forall>x\<in>set (hashed w). snd x)"

text \<open>The event of a record as the runner writes it: it repeats the record, its units tally to it, and
  the clips they name are in the store.\<close>

definition event_agrees :: "verify_args \<Rightarrow> string \<Rightarrow> json \<Rightarrow> bool" where
  "event_agrees a trk r \<longleftrightarrow> (\<exists>data ev.
     read_file (va_files a) (event_path trk (py_str (jget_or r ''event_id'' (JStr [])))) = Some data
     \<and> jget r ''event_sha256'' = JStr (sha256_hex_bytes data)
     \<and> parse_json_bytes data = Some ev \<and> is_obj ev \<and> va_check a ''DuelEvent'' ev = []
     \<and> (\<forall>k\<in>set (map fst (jitems r)) - set RECORD_ONLY. py_eq (jget ev k) (jget r k))
     \<and> (\<forall>kv\<in>set (jitems (unit_tally (event_units ev))). py_eq (jget r (fst kv)) (snd kv))
     \<and> py_eq (jget r ''media_count'') (JInt (int (length (media_shas (event_units ev)))))
     \<and> (\<forall>sha\<in>set (media_shas (event_units ev)).
          \<exists>c. read_file (va_files a) (media_path (va_bucket a) sha (va_ext a)) = Some c \<and> sha256_hex_bytes c = sha))"

lemma foldl_err_if: "(\<And>x. x \<in> set xs \<Longrightarrow> \<not> c x) \<Longrightarrow> foldl (\<lambda>r x. err_if (c x) l (p x) r) r xs = r"
  by (induction xs arbitrary: r) (simp_all add: err_if_def)

lemma media_step_good:
  assumes "read_file fs (media_path b sha e) = Some c" "sha256_hex_bytes c = sha" "good w"
  shows "good (media_step b e fs l w sha)"
proof (cases "map_of (hashed w) sha")
  case None
  with assms show ?thesis by (simp add: media_step_def good_def clean_def on_report_def Let_def)
next
  case (Some g)
  then have "(sha, g) \<in> set (hashed w)" by (rule map_of_SomeD)
  with assms(3) have "g" by (auto simp: good_def)
  with Some assms show ?thesis by (simp add: media_step_def good_def clean_def on_report_def Let_def)
qed

lemma foldl_media_good:
  "(\<And>sha. sha \<in> set shas \<Longrightarrow> \<exists>c. read_file fs (media_path b sha e) = Some c \<and> sha256_hex_bytes c = sha)
    \<Longrightarrow> good w \<Longrightarrow> good (foldl (media_step b e fs l) w shas)"
proof (induction shas arbitrary: w)
  case (Cons sha shas)
  then obtain c where "read_file fs (media_path b sha e) = Some c" "sha256_hex_bytes c = sha" by auto
  from media_step_good [OF this Cons.prems(2)] Cons show ?case by simp
qed simp

lemma event_report_clean:
  assumes "check ''DuelEvent'' ev = []"
    and "\<And>k. k \<in> set (map fst (jitems r)) - set RECORD_ONLY \<Longrightarrow> py_eq (jget ev k) (jget r k)"
    and "\<And>kv. kv \<in> set (jitems (unit_tally (event_units ev))) \<Longrightarrow> py_eq (jget r (fst kv)) (snd kv)"
    and "py_eq (jget r ''media_count'') (JInt (int (length (media_shas (event_units ev)))))"
  shows "event_report check r ev l rep = rep\<lparr>n_events := n_events rep + 1\<rparr>"
proof -
  have "event_fields r ev l rep = rep" for rep
    unfolding event_fields_def by (rule foldl_err_if) (use assms(2) in auto)
  moreover have "foldl (\<lambda>rep kv. err_if (\<not> py_eq (jget r (fst kv)) (snd kv)) l (Tally_Field (fst kv)) rep) rep
      (jitems (unit_tally (event_units ev))) = rep" for rep
    by (rule foldl_err_if) (use assms(3) in simp)
  ultimately show ?thesis using assms(1,4) by (simp add: event_report_def schema_errs_def Let_def err_if_def)
qed

lemma check_event_good:
  assumes "event_agrees a trk r" and "good w"
  shows "good (check_event (va_check a) (va_bucket a) (va_ext a) (va_files a) trk r l w)"
proof -
  obtain data ev where e: "read_file (va_files a) (event_path trk (py_str (jget_or r ''event_id'' (JStr [])))) = Some data"
     "jget r ''event_sha256'' = JStr (sha256_hex_bytes data)" "parse_json_bytes data = Some ev" "is_obj ev"
     "va_check a ''DuelEvent'' ev = []"
     "\<And>k. k\<in>set (map fst (jitems r)) - set RECORD_ONLY \<Longrightarrow> py_eq (jget ev k) (jget r k)"
     "\<And>kv. kv\<in>set (jitems (unit_tally (event_units ev))) \<Longrightarrow> py_eq (jget r (fst kv)) (snd kv)"
     "py_eq (jget r ''media_count'') (JInt (int (length (media_shas (event_units ev)))))"
     "\<And>sha. sha\<in>set (media_shas (event_units ev)) \<Longrightarrow>
          \<exists>c. read_file (va_files a) (media_path (va_bucket a) sha (va_ext a)) = Some c \<and> sha256_hex_bytes c = sha"
    using assms(1) unfolding event_agrees_def by blast
  have has: "jhas r ''event_sha256''" using e(2) by (force simp: jhas_def jget_def split: option.splits dest: map_of_SomeD)
  let ?w = "on_report (event_report (va_check a) r ev l) (on_report (event_hash r data l) w)"
  have "good ?w"
    using assms(2) has e(2) event_report_clean [of "va_check a" ev r l, OF e(5,6,7,8)]
    by (simp add: good_def clean_def on_report_def event_hash_def err_if_def)
  from foldl_media_good [OF e(9) this] show ?thesis using e(1,3,4) by (simp add: check_event_def Let_def)
qed

lemma check_record_good:
  assumes "good w" and "canonical_json r = body" and "rx_fullmatch SIGNATURE_RE sig" and "va_verify a (va_key a) body sig"
    and sq: "jget r ''seq'' = JInt (expected w)" and "part_of (va_spec a) (expected w) = part"
    and "jget r ''track'' = JStr trk" and "va_check a ''IndexRecord'' r = []" and "event_agrees a trk r"
  shows "good (check_record a trk part body sig r l w)"
  unfolding check_record_def Let_def
  by (rule check_event_good [OF assms(9)])
    (use assms in \<open>simp add: good_def clean_def on_report_def schema_errs_def err_if_def\<close>)

text \<open>A track the writer keeps, whose records the schema and the events agree with.\<close>

definition published :: "verify_args \<Rightarrow> signer \<Rightarrow> int \<Rightarrow> string \<Rightarrow> json list \<Rightarrow> bool" where
  "published a sg schema trk rs \<longleftrightarrow> sound_signer (\<lambda>k m s. s = sign sg m) sg
     \<and> (\<forall>r\<in>set rs. va_verify a (va_key a) (canonical_json r) (sign sg (canonical_json r)))
     \<and> records_ok rs \<and> list_all fields_ok rs
     \<and> log_on sg (nat (lines_per_part (va_spec a))) trk rs (va_files a)
     \<and> parse_json_file (va_files a) (head_path trk) = Some (head_of schema rs)
     \<and> va_check a ''Head'' (head_of schema rs) = []
     \<and> (\<forall>r\<in>set rs. jget r ''track'' = JStr trk \<and> va_check a ''IndexRecord'' (jsort r) = [] \<and> event_agrees a trk (jsort r))
     \<and> (\<forall>snap. parse_json_file (va_files a) (queue_path trk) = Some snap \<longrightarrow> va_check a ''QueueSnapshot'' snap = [])"

lemma signature_form: "sound_signer verify sg \<Longrightarrow> rx_fullmatch SIGNATURE_RE (sign sg m)"
  using sound_length [of verify sg m] by (simp add: SIGNATURE_RE_def fullmatch_Rep_Cls sound_signer_def)

lemma check_line_good:
  assumes pub: "published a sg schema trk rs" and k: "k < length rs" and w: "walked rs k w" "good w"
    and p: "part_of (va_spec a) (int k + 1) = p"
  shows "walked rs (Suc k) (check_line a trk p l (signed_text sg (rs ! k)) w)
    \<and> good (check_line a trk p l (signed_text sg (rs ! k)) w)"
proof -
  let ?r = "jsort (rs ! k)" and ?lin = "signed_text sg (rs ! k)"
  have sg: "sound_signer (\<lambda>k m s. s = sign sg m) sg" and ok: "records_ok rs"
    and key: "va_verify a (va_key a) (canonical_json (rs ! k)) (sign sg (canonical_json (rs ! k)))"
    using pub k by (simp_all add: published_def)
  have rec: "record_ok k (rs ! k)" using ok k by (simp add: records_ok_def)
  then have wf: "wf_json (rs ! k)" "is_obj (rs ! k)" by (simp_all add: record_ok_def)
  have sq: "jget ?r ''seq'' = JInt (int k + 1)" using rec by (simp add: record_ok_def jget_jsort)
  have ex: "expected w = int k + 1" using w(1) by (simp add: walked_def walk_core_def)
  have here: "jget (rs ! k) ''track'' = JStr trk" "va_check a ''IndexRecord'' ?r = []" "event_agrees a trk ?r"
    using pub k by (simp_all add: published_def)
  have tr: "jget ?r ''track'' = JStr trk" using here(1) wf by (simp add: jget_jsort)
  have line: "check_line a trk p l ?lin w = check_record a trk p (canonical_json (rs ! k)) (sign sg (canonical_json (rs ! k))) ?r l w"
  proof -
    obtain kvs where kvs: "?r = JObj kvs" using wf(2) is_obj_jsort [of "rs ! k"] by (cases ?r) simp_all
    show ?thesis
      using canon.loads_render [OF wf(1)] ascii_signed [OF sg wf(1)] partition_signed [OF wf(1), of sg]
      unfolding kvs by (simp add: check_line_def signed_text_def)
  qed
  have good: "good (check_line a trk p l ?lin w)"
    unfolding line
    by (rule check_record_good [OF w(2) _ signature_form [OF sg]])
      (use key sq ex p tr here wf in simp_all)
  then have "clean (check_record a trk p (canonical_json (rs ! k)) (sign sg (canonical_json (rs ! k))) ?r l w)"
    unfolding line good_def by blast
  from check_record_clean [OF this sq] have "walk_core (check_line a trk p l ?lin w) = (int k + 2, Some ?r, king_after ?r (w_king w))"
    unfolding line by simp
  from walked_step [OF w(1) k ok this] good show ?thesis by blast
qed

lemma check_lines_good:
  assumes pub: "published a sg schema trk rs"
  shows "walked rs k w \<Longrightarrow> good w \<Longrightarrow> k + m \<le> length rs \<Longrightarrow> (\<And>i. k \<le> i \<Longrightarrow> i < k + m \<Longrightarrow> part_of (va_spec a) (int i + 1) = p)
    \<Longrightarrow> walked rs (k + m) (check_lines a trk p path n (map (signed_text sg) (take m (drop k rs)) @ [[]]) w)
      \<and> good (check_lines a trk p path n (map (signed_text sg) (take m (drop k rs)) @ [[]]) w)"
proof (induction m arbitrary: k n w)
  case (Suc m)
  have k: "k < length rs" using Suc.prems(3) by simp
  have "take (Suc m) (drop k rs) = rs ! k # take m (drop (Suc k) rs)" using k by (simp add: Cons_nth_drop_Suc [symmetric])
  moreover note check_line_good [OF pub k Suc.prems(1,2) Suc.prems(4), of "(path, n)"]
  ultimately show ?case using Suc.IH [of "Suc k" "check_line a trk p (path, n) (signed_text sg (rs ! k)) w" "n + 1"] Suc.prems(3,4)
    by (simp add: check_lines_Cons)
qed simp

lemma check_parts_good:
  assumes pub: "published a sg schema trk rs"
    and files: "\<And>p. p < n \<Longrightarrow> read_file (va_files a) (index_part_path trk p) = Some (render_part sg (nat (lines_per_part (va_spec a))) rs p)"
  shows "walked rs 0 w \<Longrightarrow> good w \<Longrightarrow> m \<le> n \<Longrightarrow>
    walked rs (min (m * nat (lines_per_part (va_spec a))) (length rs)) (foldl (check_part a trk) w [0..<m])
      \<and> good (foldl (check_part a trk) w [0..<m])"
proof (induction m)
  case (Suc m)
  let ?per = "nat (lines_per_part (va_spec a))" and ?w = "foldl (check_part a trk) w [0..<m]"
  let ?k = "min (m * ?per) (length rs)" and ?path = "index_part_path trk m"
  let ?len = "min (Suc m * ?per) (length rs) - ?k"
  have IH: "walked rs ?k ?w" "good ?w" using Suc by simp_all
  have ok: "sound_signer (\<lambda>k m s. s = sign sg m) sg" "records_ok rs" using pub by (simp_all add: published_def)
  have le: "?k \<le> min (Suc m * ?per) (length rs)" by auto
  have "chunk ?per rs m = take ?len (drop ?k rs)"
    by (auto simp: chunk_def min_def)
  then have lines: "split_on NL (part_text (va_files a) trk m) = map (signed_text sg) (take ?len (drop ?k rs)) @ [[]]"
    using split_render [OF ok] files [of m] Suc.prems(3) by (simp add: part_text_def)
  have place: "part_of (va_spec a) (int i + 1) = m" if "?k \<le> i" "i < ?k + ?len" for i
  proof -
    have "m * ?per \<le> i" "i < Suc m * ?per" using that le by (auto simp: min_def split: if_splits)
    then have "i div ?per = m" by (intro div_nat_eqI) (simp_all add: algebra_simps)
    then show ?thesis by (simp add: part_of_log)
  qed
  have "?k + ?len \<le> length rs" using le by simp
  have "foldl (check_part a trk) w [0..<Suc m]
      = check_lines a trk m ?path 1 (map (signed_text sg) (take ?len (drop ?k rs)) @ [[]]) ?w"
    using lines by (simp add: check_part_def [of a trk ?w])
  with check_lines_good [OF pub IH \<open>?k + ?len \<le> length rs\<close> place, where path = ?path and n = 1] le
  show ?case by simp
qed simp

lemma jget_head_of_field:
  assumes "list_all fields_ok rs" and "rs \<noteq> []" and "records_ok rs" and "k \<in> {''seq'', ''event_id'', ''block'', ''finished_at''}"
  shows "jget (head_of schema rs) k = jget (last rs) k"
proof -
  have r: "fields_ok (last rs)" "record_ok (length rs - 1) (last rs)"
    using assms by (auto simp: list_all_iff records_ok_def last_conv_nth)
  have wf: "\<And>r. r \<in> set rs \<Longrightarrow> wf_json r" using records_ok_wf [OF assms(3)] by blast
  have str: "JStr (py_str v) = v" "jsort v = v" if "is_str v" for v using that by (cases v; simp)+
  have ends: "is_str (jget (last rs) ''event_id'')" "is_str (jget (last rs) ''finished_at'')"
      "jget (last rs) ''seq'' = JInt (int (length rs))"
    using r assms(2) by (simp_all add: fields_ok_def record_ok_def Suc_le_eq)
  obtain b where b: "jget (last rs) ''block'' = JInt b" using r(1) by (auto simp: fields_ok_def)
  have srt: "jsort (JStr s) = JStr s" "jsort (JInt i) = JInt i" for s i by simp_all
  have "jsort (jget (head_dict schema (int (length rs)) (py_str (jget (last rs) ''event_id''))
            (the (as_int (jget (last rs) ''block''))) (py_str (jget (last rs) ''finished_at'')) (kings rs)) k) = jget (last rs) k"
    using assms(4) unfolding head_dict_def
    by (elim insertE emptyE) (simp_all add: jget_JObj ends b str)
  then show ?thesis using assms(2) wf by (simp add: head_of_def jget_jsort wf_head_dict wf_kings)
qed

lemma check_head_good:
  assumes pub: "published a sg schema trk rs" and w: "walked rs (length rs) w"
  shows "check_head a trk w rep = rep"
proof -
  have ok: "records_ok rs" "list_all fields_ok rs" and h: "parse_json_file (va_files a) (head_path trk) = Some (head_of schema rs)"
    "va_check a ''Head'' (head_of schema rs) = []" using pub by (simp_all add: published_def)
  have wf: "\<And>r. r \<in> set rs \<Longrightarrow> wf_json r" using records_ok_wf [OF ok(1)] by blast
  have king: "jget (head_of schema rs) ''king'' = w_king w"
    using w jget_head_of [of rs, OF wf] by (simp add: walked_def walk_core_def)
  then have "py_eq (jget (head_of schema rs) ''king'') (w_king w)"
    using w wf_jsort [OF wf_kings [OF wf]] by (simp add: walked_def walk_core_def py_eq_refl)
  moreover have "is_obj (head_of schema rs)" by (simp add: head_of_def head_dict_def)
  moreover have "py_eq (jget (head_of schema rs) k) (jget (jsort (last rs)) k)"
    if "rs \<noteq> []" "k \<in> {''seq'', ''event_id'', ''block'', ''finished_at''}" for k
  proof -
    have r: "fields_ok (last rs)" "record_ok (length rs - 1) (last rs)"
      using ok that(1) by (auto simp: list_all_iff records_ok_def last_conv_nth)
    then obtain b where "jget (last rs) ''block'' = JInt b" by (auto simp: fields_ok_def)
    moreover have str: "jsort v = v \<and> py_eq v v" if "is_str v" for v using that by (cases v) auto
    ultimately have "jsort (jget (last rs) k) = jget (last rs) k \<and> py_eq (jget (last rs) k) (jget (last rs) k)"
      using that(2) r by (elim insertE emptyE) (simp_all add: fields_ok_def record_ok_def)
    then show ?thesis using jget_head_of_field [OF ok(2) that(1) ok(1) that(2)] r by (simp add: jget_jsort record_ok_def)
  qed
  moreover have "rs = [] \<Longrightarrow> py_eq (jget (head_of schema rs) ''seq'') (JInt 0)"
    by (simp add: head_of_def jget_jsort wf_head_dict) (simp add: head_dict_def jget_JObj)
  moreover have "last_rec w = (if rs = [] then None else Some (jsort (last rs)))"
    using w by (simp add: walked_def walk_core_def last_conv_nth)
  ultimately show ?thesis using h
    by (cases "rs = []") (simp_all add: check_head_def schema_errs_def err_if_def Let_def)
qed

lemma check_track_good:
  assumes pub: "published a sg schema trk rs" and rh: "errors (fst rh) = []" "\<And>x. x \<in> set (snd rh) \<Longrightarrow> snd x"
  shows "errors (fst (check_track a rh trk)) = [] \<and> (\<forall>x\<in>set (snd (check_track a rh trk)). snd x)"
proof -
  let ?per = "nat (lines_per_part (va_spec a))"
  obtain n where n: "length rs \<le> n * ?per"
    and files: "\<And>p. read_file (va_files a) (index_part_path trk p) = (if p < n then Some (render_part sg ?per rs p) else None)"
    using pub by (auto simp: published_def log_on_def)
  let ?w = "foldl (check_part a trk) (start_walk (snd rh) (fst rh)) [0..<n]"
  have "walked rs 0 (start_walk (snd rh) (fst rh))" "good (start_walk (snd rh) (fst rh))"
    using rh by (simp_all add: walked_def walk_core_def start_walk_def kings_def good_def clean_def)
  from check_parts_good [OF pub _ this order_refl, of n] files
  have "walked rs (min (n * ?per) (length rs)) ?w \<and> good ?w" by simp
  then have w: "walked rs (length rs) ?w" "good ?w" using n by (simp_all add: min_absorb2)
  have "index_parts (va_files a) trk = [0..<n]" by (rule index_parts_log [OF files])
  moreover have "errors (check_queue a trk (w_report ?w)) = []"
    using pub w(2) by (auto simp: check_queue_def published_def good_def clean_def schema_errs_def split: option.splits)
  ultimately show ?thesis using w(2) check_head_good [OF pub w(1)] by (simp add: check_track_def good_def Let_def)
qed

section \<open>The whole store\<close>

lemma check_tracks_clean:
  "errors (fst (foldl (check_track a) rh trks)) = [] \<Longrightarrow> trk \<in> set trks \<Longrightarrow>
    \<exists>rh'. errors (fst (check_track a rh' trk)) = []"
proof (induction trks arbitrary: rh)
  case (Cons t trks)
  have keeps: "errors (fst (foldl (check_track a) rh' ts)) = [] \<Longrightarrow> errors (fst rh') = []" for rh' ts
  proof (induction ts arbitrary: rh')
    case (Cons u ts)
    then have "errors (fst (check_track a rh' u)) = []" by simp
    then show ?case by (rule check_track_keeps)
  qed simp
  show ?case
  proof (cases "trk = t")
    case True
    with Cons.prems(1) have "errors (fst (foldl (check_track a) (check_track a rh trk) trks)) = []" by simp
    then show ?thesis by (intro exI [of _ rh]) (rule keeps)
  next
    case False
    then show ?thesis using Cons by auto
  qed
qed simp

lemma check_tracks_good:
  assumes "\<And>trk. trk \<in> set trks \<Longrightarrow> published a sg schema trk (logs trk)"
    and "errors (fst rh) = []" "\<forall>x\<in>set (snd rh). snd x"
  shows "errors (fst (foldl (check_track a) rh trks)) = []"
  using assms
proof (induction trks arbitrary: rh)
  case (Cons t trks)
  then show ?case using check_track_good [of a sg schema t "logs t" rh] by auto
qed simp

lemma foldl_err_if_at: "(\<And>x. x \<in> set xs \<Longrightarrow> \<not> c x) \<Longrightarrow> foldl (\<lambda>r x. err_if (c x) (l x) (p x) r) r xs = r"
  by (induction xs arbitrary: r) (simp_all add: err_if_def)

lemma check_foreign_good:
  assumes "\<And>folder. folder \<in> {''tracks'', ''events''} \<Longrightarrow> set (dir_entries fs folder) \<subseteq> set (spec_tracks sp)"
  shows "check_foreign sp fs rep = rep"
proof -
  have "set (dir_entries fs ''tracks'') \<subseteq> set (spec_tracks sp)" "set (dir_entries fs ''events'') \<subseteq> set (spec_tracks sp)"
    using assms by simp_all
  then show ?thesis by (simp add: check_foreign_def foldl_err_if_at subset_iff)
qed

lemma written_verifies:
  assumes "parse_json_file (va_files a) ''manifest.json'' = Some man" and "is_obj man"
    and "va_check a ''Manifest'' man = []" and "jget man ''validator_key'' = JStr (va_key a)"
    and "jget man ''tracks'' = JArr (map JStr (spec_tracks (va_spec a)))"
    and "\<And>folder. folder \<in> {''tracks'', ''events''} \<Longrightarrow> set (dir_entries (va_files a) folder) \<subseteq> set (spec_tracks (va_spec a))"
    and "\<And>trk. trk \<in> set (spec_tracks (va_spec a)) \<Longrightarrow> published a sg schema trk (logs trk)"
  shows "errors (verify_store a (Some (va_key a))) = []"
proof -
  have has: "jhas man ''validator_key''" using assms(4) by (force simp: jhas_def jget_def split: option.splits dest: map_of_SomeD)
  have "a\<lparr>va_key := va_key a\<rparr> = a" by simp
  moreover have "errors (fst (foldl (check_track a) (r, []) (spec_tracks (va_spec a)))) = []" if "errors r = []" for r
    by (rule check_tracks_good [where logs = logs]) (use assms(7) that in auto)
  ultimately show ?thesis using assms(1-5) has check_foreign_good [OF assms(6)]
    by (simp add: verify_store_def jget_or_def schema_errs_def err_if_def empty_report_def Let_def)
qed

section \<open>A published store\<close>

definition sample_event :: json where
  "sample_event = JObj [(''event_id'', JStr ''e''), (''kind'', JStr ''genesis''), (''track'', JStr ''fa''), (''block'', JInt 1),
     (''finished_at'', JStr ''t''), (''king'', JStr ''k''), (''new_king'', JStr ''k''), (''wins'', JInt 0), (''losses'', JInt 0),
     (''ties'', JInt 0), (''decided'', JInt 0), (''void'', JInt 0), (''media_count'', JInt 0)]"

definition sample_signed :: json where
  "sample_signed = stamped sample_event (pretty_json sample_event) 1"

definition sample_head :: json where
  "sample_head = head_dict 4 1 ''e'' 1 ''t'' (JStr ''k'')"

definition sample_manifest :: json where
  "sample_manifest = JObj [(''validator_key'', JStr ''k''), (''tracks'', JArr [JStr ''fa''])]"

definition sample_published :: verify_args where
  "sample_published = \<lparr>va_spec = sample_spec, va_check = (\<lambda>_ _. []),
     va_verify = (\<lambda>k m s. k = ''k'' \<and> m = canonical_json sample_signed \<and> s = sign sample_signer m), va_key = ''k'',
     va_files = [(''manifest.json'', pretty_json sample_manifest), (head_path ''fa'', pretty_json sample_head),
       (index_part_path ''fa'' 0, index_line sample_signer sample_signed), (event_path ''fa'' ''e'', pretty_json sample_event)],
     va_ext = ''mp4'', va_bucket = 2\<rparr>"

lemma sample_ascii: "ascii (pretty_json sample_manifest)" "ascii (pretty_json sample_head)" "ascii (pretty_json sample_event)"
  unfolding sample_manifest_def sample_head_def sample_event_def head_dict_def by (code_simp+)
lemma sample_wf: "wf_json sample_manifest" "wf_json sample_head" "wf_json sample_event" 
  by (simp_all add: sample_manifest_def sample_head_def sample_event_def head_dict_def)
lemma sample_paths [simp]: "index_part_path ''fa'' p = head_path ''fa'' \<longleftrightarrow> False" "index_part_path ''fa'' p = event_path ''fa'' ''e'' \<longleftrightarrow> False" 
 "index_part_path ''fa'' p = ''manifest.json'' \<longleftrightarrow> False" "head_path ''fa'' = ''manifest.json'' \<longleftrightarrow> False" "event_path ''fa'' ''e'' = ''manifest.json'' \<longleftrightarrow> False"
 "event_path ''fa'' ''e'' = head_path ''fa'' \<longleftrightarrow> False"
  by (simp_all add: index_part_path_def head_path_def event_path_def track_dir_def)
lemma sample_log: "wf_json sample_signed"  "records_ok [sample_signed]" "fields_ok sample_signed"
  using sample_wf by (simp_all add: sample_signed_def stamped_def wf_json_jset records_ok_def record_ok_def fields_ok_def)
   (simp_all add: sample_event_def jget_JObj)
lemma sample_entries: "set (dir_entries (va_files sample_published) ''tracks'') \<subseteq> {''fa''}" "set (dir_entries (va_files sample_published) ''events'') \<subseteq> {''fa''}"
  by (simp_all add: sample_published_def dir_entries_def List.map_filter_def index_part_path_def head_path_def event_path_def track_dir_def partition_at_def startswith_def)
lemma sample_head_of: "head_of 4 [sample_signed] = jsort sample_head"
  by (simp add: head_of_def sample_signed_def stamped_def kings_def) (simp add: sample_head_def sample_event_def jget_JObj king_after_def str_in_def CROWNING_def)

lemma sample_parse: "parse_json_file (va_files sample_published) ''manifest.json'' = Some (jsort sample_manifest)"
    "parse_json_file (va_files sample_published) (head_path ''fa'') = Some (jsort sample_head)"
    "read_file (va_files sample_published) (event_path ''fa'' ''e'') = Some (pretty_json sample_event)"
    "read_file (va_files sample_published) (index_part_path ''fa'' p) = (if p < 1 then Some (index_line sample_signer sample_signed) else None)"
  using sample_ascii loads_pretty [OF sample_wf(1)] loads_pretty [OF sample_wf(2)] sample_paths
  by (auto simp: parse_json_file_def parse_json_bytes_def sample_published_def read_file_def)

lemma sample_units: "event_units (jsort sample_event) = []"
  using sample_wf(3) by (simp add: event_units_def jget_jsort) (simp add: sample_event_def jget_JObj)

lemma sample_fields: "k \<in> set (map fst (jitems (jsort sample_signed))) - set RECORD_ONLY \<Longrightarrow>
    jget (jsort sample_event) k = jget (jsort sample_signed) k"
  using sample_wf(3) sample_log(1) by (simp add: jget_jsort RECORD_ONLY_def sample_signed_def stamped_def)

lemma sample_get:
  "jget_or (jsort sample_signed) ''event_id'' (JStr []) = JStr ''e''" 
  "jget (jsort sample_signed) ''event_sha256'' = JStr (sha256_hex_bytes (pretty_json sample_event))"
  "jget (jsort sample_signed) ''media_count'' = JInt 0"
  using sample_log(1) by (simp_all add: jget_or_def jget_jsort sample_signed_def stamped_def)
    (simp_all add: sample_event_def jget_JObj jhas_def)

lemma sample_counts: "k \<in> {''wins'', ''losses'', ''ties'', ''decided'', ''void''} \<Longrightarrow> jget (jsort sample_signed) k = JInt 0"
  using sample_log(1) by (simp add: jget_jsort sample_signed_def stamped_def) (auto simp: sample_event_def jget_JObj)

lemma sample_ev: "parse_json_bytes (pretty_json sample_event) = Some (jsort sample_event)"
  using sample_ascii(3) loads_pretty [OF sample_wf(3)] by (simp only: parse_json_bytes_def if_True)

lemma sample_same: "k \<in> set (map fst (jitems (jsort sample_signed))) - set RECORD_ONLY \<Longrightarrow>
    py_eq (jget (jsort sample_event) k) (jget (jsort sample_signed) k)"
  using py_eq_refl [OF wf_jget [OF wf_jsort [OF sample_wf(3)], of k]] by (simp only: sample_fields)

lemma sample_tally: "kv \<in> set (jitems (unit_tally [])) \<Longrightarrow> py_eq (jget (jsort sample_signed) (fst kv)) (snd kv)"
proof -
  assume "kv \<in> set (jitems (unit_tally []))"
  then have "fst kv \<in> {''wins'', ''losses'', ''ties'', ''decided'', ''void''} \<and> snd kv = JInt 0"
    by (auto simp: unit_tally_def)
  then show ?thesis by (simp only: sample_counts) simp
qed

lemma sample_obj: "is_obj (jsort sample_event)"
  unfolding is_obj_jsort by (simp add: sample_event_def)

lemma sample_agrees: "event_agrees sample_published ''fa'' (jsort sample_signed)"
proof -
  have chk: "va_check sample_published d x = []" for d x by (simp add: sample_published_def)
  have evp: "read_file (va_files sample_published) (event_path ''fa'' (py_str (jget_or (jsort sample_signed) ''event_id'' (JStr []))))
      = Some (pretty_json sample_event)"
    by (simp only: sample_get py_str.simps sample_parse)
  have none: "media_shas [] = []" by (simp add: media_shas_def)
  have mc: "py_eq (jget (jsort sample_signed) ''media_count'') (JInt (int (length (media_shas (event_units (jsort sample_event))))))"
    by (simp only: sample_get sample_units none) simp
  show ?thesis
    unfolding event_agrees_def
    by (rule exI [of _ "pretty_json sample_event"], rule exI [of _ "jsort sample_event"], intro conjI ballI,
      rule evp, rule sample_get, rule sample_ev, rule sample_obj, rule chk, erule sample_same,
      rule sample_tally, simp only: sample_units, rule mc, simp only: sample_units none list.set empty_iff)
qed

lemma sample_is_published: "published sample_published sample_signer 4 ''fa'' [sample_signed]"
proof -
  have pos: "nat (lines_per_part sample_spec) \<noteq> 0" by (rule per_pos)
  then have "chunk (nat (lines_per_part sample_spec)) [sample_signed] 0 = [sample_signed]"
    by (simp add: chunk_def)
  then have "render_part sample_signer (nat (lines_per_part sample_spec)) [sample_signed] 0 = index_line sample_signer sample_signed"
    by (simp add: render_part_def)
  then have lg: "log_on sample_signer (nat (lines_per_part sample_spec)) ''fa'' [sample_signed] (va_files sample_published)"
    unfolding log_on_def sample_parse by (intro exI [of _ 1]) (use pos in auto)
  have form: "sound_signer (\<lambda>k m s. s = sign sample_signer m) sample_signer"
    by (simp add: sound_signer_def sample_signer_def sha.length_digest sha.digest_all_lower)
  have q: "parse_json_file (va_files sample_published) (queue_path ''fa'') = None"
    by (simp add: parse_json_file_def sample_published_def read_file_def queue_path_def index_part_path_def head_path_def event_path_def track_dir_def)
  have tr: "jget sample_signed ''track'' = JStr ''fa''"
    by (simp add: sample_signed_def stamped_def) (simp add: sample_event_def jget_JObj)
  have sp: "va_spec sample_published = sample_spec" "va_check sample_published = (\<lambda>_ _. [])" "va_key sample_published = ''k''"
    "va_verify sample_published ''k'' (canonical_json sample_signed) (sign sample_signer (canonical_json sample_signed))"
    by (simp_all add: sample_published_def)
  show ?thesis
    using form lg q tr sp sample_log sample_agrees sample_head_of sample_parse(2) by (simp add: published_def)
qed

lemma sample_verified: "errors (verify_store sample_published (Some ''k'')) = []"
proof -
  have tracks: "spec_tracks (va_spec sample_published) = [''fa'']" by (simp add: sample_published_def sample_spec_tracks)
  have man: "jget (jsort sample_manifest) ''validator_key'' = JStr ''k''" "jget (jsort sample_manifest) ''tracks'' = JArr [JStr ''fa'']"
    "is_obj (jsort sample_manifest)"
    using sample_wf(1) by (simp_all add: jget_jsort sample_manifest_def jget_JObj)
  have key: "va_key sample_published = ''k''" "va_check sample_published = (\<lambda>_ _. [])" by (simp_all add: sample_published_def)
  show ?thesis
    using written_verifies [of sample_published "jsort sample_manifest" sample_signer 4 "\<lambda>_. [sample_signed]",
        OF sample_parse(1) man(3), unfolded key tracks]
      man sample_entries sample_is_published by auto
qed

section \<open>Properties\<close>

text \<open>C3. What passes verification was signed, all of it and in order: if the pinned key signed only the
  records of one log per track (no other text verifies under it), then a store that verifies with no
  error shows, for every track of the contract, exactly the first \<open>n\<close> records of that track's log -
  none altered, dropped in between, reordered, or moved from another track - each in its part and
  with the event file it signs, under a head that says \<open>n\<close> and the king those \<open>n\<close> records crown.\<close>

theorem verified_is_signed_prefix:
  assumes "errors (verify_store a (Some vk)) = []" and "only_signed (va_verify a) vk (spec_tracks (va_spec a)) logs"
    and "logs_ok (spec_tracks (va_spec a)) logs" and "trk \<in> set (spec_tracks (va_spec a))"
  shows "\<exists>n. shows_prefix a trk (logs trk) n"
proof -
  let ?a = "a\<lparr>va_key := vk\<rparr>"
  obtain r where "errors (fst (foldl (check_track ?a) (r, []) (spec_tracks (va_spec a)))) = []"
    using assms(1) by (auto simp: verify_store_def Let_def split: option.splits if_splits)
  from check_tracks_clean [OF this assms(4)] obtain rh where "errors (fst (check_track ?a rh trk)) = []" by blast
  from check_track_clean [OF this _ assms(3,4)] assms(2) obtain n where "shows_prefix ?a trk (logs trk) n" by auto
  then have "shows_prefix a trk (logs trk) n" by (simp add: shows_prefix_def shown_def)
  then show ?thesis by blast
qed

theorem verified_is_signed_prefix_witness: "\<exists>n. shows_prefix sample_published ''fa'' [sample_signed] n"
proof -
  have tracks: "spec_tracks (va_spec sample_published) = [''fa'']" by (simp add: sample_published_def sample_spec_tracks)
  note sample_verified
  moreover have "only_signed (va_verify sample_published) ''k'' [''fa''] (\<lambda>_. [sample_signed])"
    by (simp add: only_signed_def sample_published_def)
  moreover have "logs_ok [''fa''] (\<lambda>_. [sample_signed])"
    using sample_log(2) by (simp add: logs_ok_def) (simp add: sample_signed_def stamped_def, simp add: sample_event_def jget_JObj)
  ultimately show ?thesis
    using verified_is_signed_prefix [of sample_published "''k''" "\<lambda>_. [sample_signed]" "''fa''"] by (simp add: tracks)
qed

text \<open>C8. What the writer publishes verifies: a store whose manifest is the contract's and whose every
  track is a log the writer kept (index, head and events, the clips there under their hashes, the
  documents accepted by the schema) is verified without an error.\<close>

theorem written_store_verifies:
  assumes "parse_json_file (va_files a) ''manifest.json'' = Some man" and "is_obj man"
    and "va_check a ''Manifest'' man = []" and "jget man ''validator_key'' = JStr (va_key a)"
    and "jget man ''tracks'' = JArr (map JStr (spec_tracks (va_spec a)))"
    and "\<And>folder. folder \<in> {''tracks'', ''events''} \<Longrightarrow> set (dir_entries (va_files a) folder) \<subseteq> set (spec_tracks (va_spec a))"
    and "\<And>trk. trk \<in> set (spec_tracks (va_spec a)) \<Longrightarrow> published a sg schema trk (logs trk)"
  shows "errors (verify_store a (Some (va_key a))) = []"
  by (rule written_verifies [where logs = logs]) (use assms in auto)

theorem written_store_verifies_witness: "errors (verify_store sample_published (Some ''k'')) = []"
proof -
  have tracks: "spec_tracks (va_spec sample_published) = [''fa'']" by (simp add: sample_published_def sample_spec_tracks)
  have man: "jget (jsort sample_manifest) ''validator_key'' = JStr ''k''" "jget (jsort sample_manifest) ''tracks'' = JArr [JStr ''fa'']"
    "is_obj (jsort sample_manifest)"
    using sample_wf(1) by (simp_all add: jget_jsort sample_manifest_def jget_JObj)
  have key: "va_key sample_published = ''k''" "va_check sample_published = (\<lambda>_ _. [])" by (simp_all add: sample_published_def)
  show ?thesis
    using written_store_verifies [of sample_published "jsort sample_manifest" sample_signer 4 "\<lambda>_. [sample_signed]",
        OF sample_parse(1) man(3), unfolded key tracks]
      man sample_entries sample_is_published by auto
qed

end
