(* ===== verification/Units.thy ===== *)
theory Units
  imports Records Contract
begin

text \<open>
  \<open>benchmarks/units.py\<close>: a duel's unit list. The benchmark's \<open>derive_units\<close> is an argument: for a
  benchmark's name, the seed material, the count, the suite and the category, the units it returns
  or the text of what it raised. What it returns is not trusted: the identity of a unit, its seed
  and its instance are set here.
\<close>

type_synonym derive_fn = "string \<Rightarrow> string \<Rightarrow> nat \<Rightarrow> string \<Rightarrow> string option \<Rightarrow> string + json list"

definition RESERVED :: "string list" where
  "RESERVED = [''unit_id'', ''skill'', ''index'', ''seed'', ''benchmark'', ''instance'', ''demo'']"

definition INSTANCE_PARAM_KEYS :: "string list" where
  "INSTANCE_PARAM_KEYS = [''scene_seed'', ''embodiment'']"

text \<open>\<open>DerivationError\<close>, by the place that raises it; \<open>No_Spec\<close> is a key the contract lacks.\<close>

datatype derivation_error =
    Derive_Raised string string
  | Wrong_Count string nat
  | Not_Mapping string nat
  | No_Text string nat string
  | No_Params string nat
  | Params_Lack string nat "string list"
  | No_Spec

definition seed_material :: "string \<Rightarrow> string \<Rightarrow> string" where
  "seed_material duel sk = duel @ ''|'' @ sk"

definition check_unit :: "string \<Rightarrow> nat \<Rightarrow> json \<Rightarrow> derivation_error + unit" where
  "check_unit sk idx unit =
     (if \<not> is_obj unit then Inl (Not_Mapping sk idx)
      else if \<not> is_text (jget unit ''task'') then Inl (No_Text sk idx ''task'')
      else if \<not> is_text (jget unit ''task_label'') then Inl (No_Text sk idx ''task_label'')
      else let params = jget unit ''instance_params'' in
        if \<not> is_obj params then Inl (No_Params sk idx)
        else let missing = filter (\<lambda>k. \<not> jhas params k) INSTANCE_PARAM_KEYS in
          if missing \<noteq> [] then Inl (Params_Lack sk idx missing) else Inr ())"

definition make_unit :: "string \<Rightarrow> string \<Rightarrow> string \<Rightarrow> string \<Rightarrow> nat \<Rightarrow> nat \<Rightarrow> json \<Rightarrow> json" where
  "make_unit duel sk name cd idx n unit =
     (let passed = JObj (filter (\<lambda>kv. fst kv \<notin> set RESERVED) (jitems unit)); uid = unit_id cd n in
      jupdate passed [(''unit_id'', JStr uid), (''skill'', JStr sk), (''benchmark'', JStr name),
        (''index'', JInt (int idx)), (''seed'', JInt (int (unit_seed duel sk idx))),
        (''task'', JStr (py_str (jget passed ''task''))), (''task_label'', JStr (py_str (jget passed ''task_label''))),
        (''instance'', JInt 0), (''demo'', JStr uid), (''instance_params'', jget passed ''instance_params'')])"

text \<open>The units of one skill, appended to those before.\<close>

fun skill_units :: "string \<Rightarrow> string \<Rightarrow> string \<Rightarrow> string \<Rightarrow> nat \<Rightarrow> json list \<Rightarrow> json list \<Rightarrow> derivation_error + json list" where
  "skill_units duel sk name cd idx out [] = Inr out"
| "skill_units duel sk name cd idx out (u # us) =
     bindE (check_unit sk idx u) (\<lambda>_.
       skill_units duel sk name cd (Suc idx) (out @ [make_unit duel sk name cd idx (length out) u]) us)"

definition derive_skill :: "contract \<Rightarrow> derive_fn \<Rightarrow> string \<Rightarrow> nat \<Rightarrow> json list \<Rightarrow> string \<Rightarrow> derivation_error + json list" where
  "derive_skill sp derive duel cnt out sk =
     (case (benchmark_of sp sk, suite sp sk, category sp sk, skill_code sp sk) of
        (Some name, Some st, Some cat, Some cd) \<Rightarrow>
          (case derive name (seed_material duel sk) cnt st cat of
             Inl why \<Rightarrow> Inl (Derive_Raised sk why)
           | Inr derived \<Rightarrow>
               if length derived \<noteq> cnt then Inl (Wrong_Count sk (length derived))
               else skill_units duel sk name cd 0 out derived)
      | _ \<Rightarrow> Inl No_Spec)"

fun derive_skills :: "contract \<Rightarrow> derive_fn \<Rightarrow> string \<Rightarrow> nat \<Rightarrow> json list \<Rightarrow> string list \<Rightarrow> derivation_error + json list" where
  "derive_skills sp derive duel cnt out [] = Inr out"
| "derive_skills sp derive duel cnt out (s # ss) =
     bindE (derive_skill sp derive duel cnt out s) (\<lambda>out'. derive_skills sp derive duel cnt out' ss)"

definition plugin_units :: "contract \<Rightarrow> derive_fn \<Rightarrow> string \<Rightarrow> string \<Rightarrow> string option \<Rightarrow> derivation_error + json list" where
  "plugin_units sp derive trk duel sz =
     (case (units_per_skill sp trk sz, skills sp trk) of
        (Some cnt, Some ss) \<Rightarrow> derive_skills sp derive duel cnt [] ss
      | _ \<Rightarrow> Inl No_Spec)"

section \<open>The list by position\<close>

text \<open>What the orchestrator promises of the unit at position \<open>n\<close>: the \<open>idx\<close>-th of its skill.\<close>

definition unit_at :: "contract \<Rightarrow> string \<Rightarrow> string \<Rightarrow> nat \<Rightarrow> nat \<Rightarrow> json \<Rightarrow> bool" where
  "unit_at sp duel sk idx n u \<longleftrightarrow> (\<exists>cd. skill_code sp sk = Some cd \<and> jget u ''unit_id'' = JStr (unit_id cd n))
     \<and> jget u ''demo'' = jget u ''unit_id'' \<and> jget u ''skill'' = JStr sk \<and> jget u ''index'' = JInt (int idx)
     \<and> jget u ''seed'' = JInt (int (unit_seed duel sk idx)) \<and> jget u ''instance'' = JInt 0
     \<and> is_text (jget u ''task'') \<and> is_text (jget u ''task_label'')
     \<and> (\<forall>k\<in>set INSTANCE_PARAM_KEYS. jhas (jget u ''instance_params'') k)"

lemma jupdate_Nil [simp]: "jupdate d [] = d"
  by (simp add: jupdate_def)

lemma jupdate_Cons [simp]: "jupdate d ((k, v) # kvs) = jupdate (jset d k v) kvs"
  by (simp add: jupdate_def)

lemma check_unit_ok: "check_unit sk idx u = Inr () \<longleftrightarrow> is_obj u \<and> is_text (jget u ''task'') \<and> is_text (jget u ''task_label'')
    \<and> is_obj (jget u ''instance_params'') \<and> (\<forall>k\<in>set INSTANCE_PARAM_KEYS. jhas (jget u ''instance_params'') k)"
  by (auto simp: check_unit_def Let_def filter_empty_conv)

lemma jget_passed: "k \<notin> set RESERVED \<Longrightarrow> jget (JObj (filter (\<lambda>kv. fst kv \<notin> set RESERVED) (jitems u))) k = jget u k"
proof -
  assume k: "k \<notin> set RESERVED"
  have "map_of (filter (\<lambda>kv. fst kv \<notin> set RESERVED) kvs) k = map_of kvs k" for kvs :: items
    using k by (induction kvs) auto
  then show ?thesis by (simp add: jget_def)
qed

lemma text_str: "is_text v \<Longrightarrow> JStr (py_str v) = v"
  by (cases v) simp_all

lemma make_unit_at:
  assumes "check_unit sk idx u = Inr ()" and "skill_code sp sk = Some cd"
  shows "unit_at sp duel sk idx n (make_unit duel sk name cd idx n u)"
  using assms jget_passed [of _ u]
  by (simp add: check_unit_ok unit_at_def make_unit_def Let_def RESERVED_def text_str)

lemma skill_units_at:
  assumes "skill_units duel sk name cd idx out us = Inr out'" and "skill_code sp sk = Some cd"
  shows "length out' = length out + length us \<and> take (length out) out' = out
    \<and> (\<forall>j<length us. unit_at sp duel sk (idx + j) (length out + j) (out' ! (length out + j)))"
  using assms(1)
proof (induction us arbitrary: idx out)
  case (Cons u us)
  from Cons.prems have c: "check_unit sk idx u = Inr ()"
    and r: "skill_units duel sk name cd (Suc idx) (out @ [make_unit duel sk name cd idx (length out) u]) us = Inr out'"
    by (auto simp: bindE_Inr_iff)
  note ih = Cons.IH [OF r]
  have pre: "take (length out) out' = out" using ih by (metis append_eq_conv_conj append_take_drop_id length_append_singleton take_Suc_conv_app_nth
      append_assoc)
  have here: "out' ! length out = make_unit duel sk name cd idx (length out) u"
  proof -
    have "take (Suc (length out)) out' ! length out = make_unit duel sk name cd idx (length out) u" using ih by simp
    then show ?thesis by simp
  qed
  have "unit_at sp duel sk (idx + j) (length out + j) (out' ! (length out + j))" if "j < length (u # us)" for j
  proof (cases j)
    case 0
    then show ?thesis using make_unit_at [OF c assms(2)] here by simp
  next
    case (Suc i)
    then show ?thesis using ih that by simp
  qed
  then show ?case using ih pre by simp
qed simp

lemma derive_skill_at:
  assumes "derive_skill sp derive duel cnt out sk = Inr out'"
  shows "length out' = length out + cnt \<and> take (length out) out' = out
    \<and> (\<forall>j<cnt. unit_at sp duel sk j (length out + j) (out' ! (length out + j)))"
proof -
  obtain name st cat cd derived where d: "skill_code sp sk = Some cd" "length derived = cnt"
      "skill_units duel sk name cd 0 out derived = Inr out'"
    using assms by (auto simp: derive_skill_def split: option.splits sum.splits if_splits)
  from skill_units_at [OF d(3) d(1)] d(2) show ?thesis by simp
qed

lemma derive_skills_at:
  assumes "derive_skills sp derive duel cnt out ss = Inr us"
  shows "length us = length out + cnt * length ss \<and> take (length out) us = out
    \<and> (\<forall>i<cnt * length ss. unit_at sp duel (ss ! (i div cnt)) (i mod cnt) (length out + i) (us ! (length out + i)))"
  using assms
proof (induction ss arbitrary: out)
  case (Cons s ss)
  then obtain mid where m: "derive_skill sp derive duel cnt out s = Inr mid" and r: "derive_skills sp derive duel cnt mid ss = Inr us"
    by (auto simp: bindE_Inr_iff)
  note here = derive_skill_at [OF m] and ih = Cons.IH [OF r]
  have pre: "us ! k = mid ! k" if "k < length mid" for k
    using ih nth_take [OF that, of us] by simp
  have "take (length out) us = take (length out) (take (length out + cnt) us)" by simp
  then have out: "take (length out) us = out" using here ih by metis
  have "unit_at sp duel ((s # ss) ! (i div cnt)) (i mod cnt) (length out + i) (us ! (length out + i))"
    if i: "i < cnt * length (s # ss)" for i
  proof (cases "i < cnt")
    case True
    then show ?thesis using here pre [of "length out + i"] by simp
  next
    case False
    then obtain j where j: "i = cnt + j" using le_iff_add by (metis not_less)
    have "0 < cnt" using i by (cases cnt) simp_all
    then have "i div cnt = Suc (j div cnt)" "i mod cnt = j mod cnt" by (simp_all add: j)
    then show ?thesis using ih here i by (simp add: j add.assoc)
  qed
  then show ?case using ih here out by simp
qed simp

text \<open>A benchmark for the sample contract: one unit per call, with an identity of its own that is not kept.\<close>

definition sample_derive :: derive_fn where
  "sample_derive name material cnt st cat = Inr (replicate cnt (JObj [(''unit_id'', JStr ''mine''), (''task'', JStr ''t''),
     (''task_label'', JStr ''T''), (''instance_params'', JObj [(''scene_seed'', JInt 1), (''embodiment'', JStr ''e'')])]))"

lemma sample_fa: "skills sample_spec ''fa'' = Some [''pick'']" "units_per_skill sample_spec ''fa'' None = Some 2"
  "skill_code sample_spec ''pick'' = Some ''pk''" "benchmark_of sample_spec ''pick'' = Some ''rt''"
  "suite sample_spec ''pick'' = Some ''s''" "category sample_spec ''pick'' = Some None"
  by (simp_all add: skills_def units_per_skill_def duel_of_def size_of_def sizes_def default_size_def track_def
      spec_section_def key_of_def sample_spec_def skill_code_def benchmark_of_def suite_def category_def
      skill_text_def skill_def sample_contract_def jget_JObj)

lemma sample_units_derived: "\<exists>us. plugin_units sample_spec sample_derive ''fa'' ''d'' None = Inr us"
  by (simp add: plugin_units_def derive_skill_def sample_fa sample_derive_def numeral_2_eq_2 check_unit_def
      INSTANCE_PARAM_KEYS_def jget_JObj jhas_JObj)

section \<open>Properties\<close>

text \<open>C31. A derived unit list is the competition's, whatever the benchmark returned: as many units per
  skill as the track's size asks for, skills in the contract's order, and the unit at position
  \<open>i\<close> carries its skill, its place in the skill, the identity \<open><code>-<i>\<close>, the seed of its place and
  instance 0; no two units share an identity.\<close>

theorem derived_units:
  assumes "plugin_units sp derive trk duel sz = Inr us" and "skills sp trk = Some ss" and "units_per_skill sp trk sz = Some n"
    and "\<And>s cd. s \<in> set ss \<Longrightarrow> skill_code sp s = Some cd \<Longrightarrow> length cd = 2"
  shows "length us = n * length ss \<and> (\<forall>i<length us. unit_at sp duel (ss ! (i div n)) (i mod n) i (us ! i))
    \<and> distinct (map (\<lambda>u. jget u ''unit_id'') us)"
proof -
  have "derive_skills sp derive duel n [] ss = Inr us" using assms(1-3) by (simp add: plugin_units_def)
  from derive_skills_at [OF this] have len: "length us = n * length ss"
    and every: "\<And>i. i < length us \<Longrightarrow> unit_at sp duel (ss ! (i div n)) (i mod n) i (us ! i)" by simp_all
  have code: "\<exists>cd. length cd = 2 \<and> jget (us ! i) ''unit_id'' = JStr (unit_id cd i)" if "i < length us" for i
  proof -
    have "i div n < length ss" using that len by (simp add: less_mult_imp_div_less mult.commute)
    then show ?thesis using every [OF that] assms(4) [of "ss ! (i div n)"] by (auto simp: unit_at_def)
  qed
  have "jget (us ! i) ''unit_id'' \<noteq> jget (us ! j) ''unit_id''" if ij: "i < length us" "j < length us" "i \<noteq> j" for i j
  proof -
    obtain c d where "length c = 2" "jget (us ! i) ''unit_id'' = JStr (unit_id c i)"
        "length d = 2" "jget (us ! j) ''unit_id'' = JStr (unit_id d j)" using code ij(1,2) by metis
    then show ?thesis using unit_id_inject2 [of c d i j] ij(3) by simp
  qed
  then show ?thesis using len every by (simp add: distinct_conv_nth)
qed

theorem derived_units_witness:
  "\<exists>us. plugin_units sample_spec sample_derive ''fa'' ''d'' None = Inr us \<and> length us = 2 \<and> unit_at sample_spec ''d'' ''pick'' 1 1 (us ! 1)"
proof -
  obtain us where us: "plugin_units sample_spec sample_derive ''fa'' ''d'' None = Inr us" using sample_units_derived by blast
  from derived_units [OF us sample_fa(1,2)] show ?thesis using us sample_fa(3) by fastforce
qed

end
