(* ===== verification/Jsonl.thy ===== *)
theory Jsonl
  imports Json_Pretty
begin

text \<open>
  The line files of a run directory (\<open>results.jsonl\<close>, \<open>manifest.jsonl\<close>): one JSON document per line,
  appended, read back with \<open>str.splitlines\<close> and keyed by the unit, the last line of a unit winning.
  A line that does not parse is skipped. The two files are instances of one interface,
  \<open>keyed_log\<close>.
\<close>

section \<open>Lines\<close>

definition line_break :: "char \<Rightarrow> bool" where
  "line_break c \<longleftrightarrow> (10 \<le> code c \<and> code c \<le> 13) \<or> (28 \<le> code c \<and> code c \<le> 30) \<or> code c = 133"

fun slines :: "bool \<Rightarrow> string \<Rightarrow> string \<Rightarrow> string list" where
  "slines cr acc [] = (if acc = [] then [] else [rev acc])"
| "slines cr acc (c # cs) =
     (if cr \<and> c = NL then slines False acc cs
      else if line_break c then rev acc # slines (c = CHR 0x0D) [] cs
      else slines False (c # acc) cs)"

definition splitlines :: "string \<Rightarrow> string list" where
  "splitlines s = slines False [] s"

definition unbroken :: "string \<Rightarrow> bool" where
  "unbroken s \<longleftrightarrow> list_all (\<lambda>c. \<not> line_break c) s"

lemma slines_unbroken: "unbroken s \<Longrightarrow> slines cr acc (s @ r) = (if s = [] then slines cr acc r else slines False (rev s @ acc) r)"
proof (induction s arbitrary: cr acc)
  case (Cons c s)
  then have "\<not> line_break c" "unbroken s" by (simp_all add: unbroken_def)
  moreover have "c \<noteq> NL" using \<open>\<not> line_break c\<close> by (auto simp: line_break_def code_def)
  ultimately show ?case using Cons.IH by simp
qed simp

lemma NL_breaks [simp]: "line_break NL"
  by (simp add: line_break_def code_def)

lemma splitlines_line: "unbroken s \<Longrightarrow> splitlines (s @ NL # r) = s # splitlines r"
  using slines_unbroken [of s False "[]" "NL # r"] by (simp add: splitlines_def)

lemma splitlines_tail: "unbroken s \<Longrightarrow> splitlines s = (if s = [] then [] else [s])"
  using slines_unbroken [of s False "[]" "[]"] by (simp add: splitlines_def)

text \<open>A text of whole lines: empty, or ending in a newline.\<close>

definition whole :: "string \<Rightarrow> bool" where
  "whole t \<longleftrightarrow> t = [] \<or> last t = NL"

lemma slines_append:
  "t = [] \<or> last t = NL \<Longrightarrow> (t = [] \<Longrightarrow> acc = [] \<and> \<not> cr) \<Longrightarrow> (cr \<Longrightarrow> acc = [])
    \<Longrightarrow> slines cr acc (t @ r) = slines cr acc t @ slines False [] r"
proof (induction t arbitrary: cr acc)
  case (Cons c t)
  show ?case
  proof (cases "t = []")
    case True
    then have c: "c = NL" using Cons.prems(1) by simp
    show ?thesis
    proof (cases cr)
      case True
      then have "acc = []" by (rule Cons.prems(3))
      then show ?thesis using True \<open>t = []\<close> c by simp
    next
      case False
      then show ?thesis using \<open>t = []\<close> c by simp
    qed
  next
    case False
    then have t: "t = [] \<or> last t = NL" using Cons.prems(1) by simp
    have ih: "slines cr' acc' (t @ r) = slines cr' acc' t @ slines False [] r" if "cr' \<Longrightarrow> acc' = []" for cr' acc'
      by (rule Cons.IH [OF t]) (use False that in simp_all)
    show ?thesis using ih Cons.prems(3) by simp
  qed
qed simp

lemma splitlines_append: "whole t \<Longrightarrow> splitlines (t @ r) = splitlines t @ splitlines r"
  unfolding splitlines_def whole_def by (rule slines_append) simp_all

lemma whole_line [simp]: "whole (t @ s @ [NL])"
  by (simp add: whole_def)

lemma whole_Nil [simp]: "whole []"
  by (simp add: whole_def)

lemma plain_unbroken: "list_all plain s \<Longrightarrow> unbroken s"
  unfolding unbroken_def plain_def line_break_def by (auto simp: list_all_iff)

lemma line_unbroken: "wf_json j \<Longrightarrow> unbroken (line_json j)"
  by (rule plain_unbroken [OF line.render_plain])

section \<open>Keyed lines\<close>

type_synonym 'v table = "(string \<times> 'v) list"

definition append_line :: "string \<Rightarrow> json \<Rightarrow> string" where
  "append_line tx doc = tx @ line_json doc @ [NL]"

definition read_line :: "(json \<Rightarrow> (string \<times> 'v) option) \<Rightarrow> 'v table \<Rightarrow> string \<Rightarrow> 'v table" where
  "read_line decode out lin =
     (case loads lin of None \<Rightarrow> out
      | Some doc \<Rightarrow> (case decode doc of None \<Rightarrow> out | Some (k, v) \<Rightarrow> upd k v out))"

definition read_table :: "(json \<Rightarrow> (string \<times> 'v) option) \<Rightarrow> string option \<Rightarrow> 'v table" where
  "read_table decode tx = (case tx of None \<Rightarrow> [] | Some t \<Rightarrow> foldl (read_line decode) [] (splitlines t))"

definition text_of :: "string option \<Rightarrow> string" where
  "text_of tx = (case tx of None \<Rightarrow> [] | Some t \<Rightarrow> t)"

lemma read_table_text: "read_table decode tx = foldl (read_line decode) [] (splitlines (text_of tx))"
  by (cases tx) (simp_all add: read_table_def text_of_def splitlines_def)

lemma read_table_distinct: "distinct (map fst (read_table decode tx))"
proof -
  have "distinct (map fst out) \<Longrightarrow> distinct (map fst (foldl (read_line decode) out ls))" for out ls
  proof (induction ls arbitrary: out)
    case (Cons l ls)
    have "distinct (map fst (read_line decode out l))"
      using Cons.prems by (auto simp: read_line_def distinct_upd split: option.split)
    then show ?case using Cons.IH by simp
  qed simp
  then show ?thesis by (simp add: read_table_text)
qed

text \<open>Appending values one after another.\<close>

definition append_all :: "('v \<Rightarrow> json) \<Rightarrow> string option \<Rightarrow> 'v list \<Rightarrow> string option" where
  "append_all encode tx vs = foldl (\<lambda>t v. Some (append_line (text_of t) (encode v))) tx vs"

lemma append_all_whole: "whole (text_of tx) \<Longrightarrow> whole (text_of (append_all encode tx vs))"
  by (induction vs arbitrary: tx) (simp_all add: append_all_def text_of_def append_line_def whole_def)

text \<open>What a file of this kind promises: a value written to a line is read back, normalised, under its
  own key.\<close>

locale keyed_log =
  fixes encode :: "'v \<Rightarrow> json" and decode :: "json \<Rightarrow> (string \<times> 'v) option"
    and name_of :: "'v \<Rightarrow> string" and kept :: "'v \<Rightarrow> 'v" and good :: "'v \<Rightarrow> bool"
  assumes decode_encode: "good v \<Longrightarrow> decode (jsort (encode v)) = Some (name_of v, kept v)"
    and encode_wf: "good v \<Longrightarrow> wf_json (encode v)"
begin

lemma read_append:
  assumes "whole (text_of tx)" and "good v"
  shows "read_table decode (Some (append_line (text_of tx) (encode v))) = upd (name_of v) (kept v) (read_table decode tx)"
proof -
  have "splitlines (append_line (text_of tx) (encode v)) = splitlines (text_of tx) @ [line_json (encode v)]"
    using assms splitlines_line [OF line_unbroken [OF encode_wf [OF assms(2)]], of "[]"]
    by (simp add: append_line_def splitlines_append) (simp add: splitlines_def)
  then show ?thesis
    using decode_encode [OF assms(2)] line.loads_render [OF encode_wf [OF assms(2)]]
    by (simp add: read_table_text text_of_def read_line_def)
qed

lemma read_append_all:
  "whole (text_of tx) \<Longrightarrow> list_all good vs \<Longrightarrow>
    read_table decode (append_all encode tx vs) = foldl (\<lambda>tab v. upd (name_of v) (kept v) tab) (read_table decode tx) vs"
proof (induction vs arbitrary: tx)
  case (Cons v vs)
  have "whole (text_of (Some (append_line (text_of tx) (encode v))))" by (simp add: text_of_def append_line_def)
  from Cons.IH [OF this] Cons.prems read_append [of tx v] show ?case by (simp add: append_all_def)
qed (simp add: append_all_def)

lemma read_append_others:
  "whole (text_of tx) \<Longrightarrow> list_all good vs \<Longrightarrow> k \<notin> set (map name_of vs) \<Longrightarrow>
    map_of (read_table decode (append_all encode tx vs)) k = map_of (read_table decode tx) k"
proof (induction vs arbitrary: tx)
  case (Cons v vs)
  have "whole (text_of (Some (append_line (text_of tx) (encode v))))" by (simp add: text_of_def append_line_def)
  from Cons.IH [OF this] Cons.prems read_append [of tx v] show ?case by (simp add: append_all_def)
qed (simp add: append_all_def)

end

text \<open>A line appended behind one that was cut off joins it: unless the two read as one document, the
  new value is in the file and not in the table.\<close>

lemma torn_append:
  assumes "whole t" and "unbroken torn" and "wf_json doc" and "loads (torn @ line_json doc) = None"
  shows "read_table decode (Some (append_line (t @ torn) doc)) = read_table decode (Some t)"
proof -
  have "unbroken (torn @ line_json doc)" using assms(2) line_unbroken [OF assms(3)] by (simp add: unbroken_def)
  from splitlines_line [OF this, of "[]"] have "splitlines (append_line (t @ torn) doc) = splitlines t @ [torn @ line_json doc]"
    using splitlines_append [OF assms(1), of "(torn @ line_json doc) @ [NL]"]
    by (simp add: append_line_def) (simp add: splitlines_def)
  then show ?thesis using assms(4) by (simp add: read_table_def read_line_def)
qed

end
