(* ===== verification/Outcome.thy ===== *)
theory Outcome
  imports Records Contract
begin

text \<open>
  \<open>benchmarks/subprocess_runner.py\<close>: what a benchmark's subprocess is given and what is made of
  what it leaves. The subprocess itself, and the plugin's \<open>run_command\<close> and \<open>read_result\<close>, are
  the world: a record of what they answered in one run.
\<close>

section \<open>The environment\<close>

definition ENV_ALLOW :: "string list" where
  "ENV_ALLOW = [''ROBOTWIN_ICIL_PYTHON'', ''ROBOTWIN_ICIL_DENOISER'', ''PATH'', ''HOME'', ''USER'', ''LOGNAME'',
     ''SHELL'', ''TERM'', ''TZ'', ''TMPDIR'', ''LANG'', ''LANGUAGE'', ''VIRTUAL_ENV'', ''CONDA_PREFIX'',
     ''LD_LIBRARY_PATH'', ''DISPLAY'', ''XAUTHORITY'', ''XDG_RUNTIME_DIR'', ''CUDA_HOME'',
     ''CUDA_VISIBLE_DEVICES'', ''VK_ICD_FILENAMES'', ''MUJOCO_GL'', ''PYOPENGL_PLATFORM'', ''EGL_PLATFORM'']"

definition ENV_ALLOW_PREFIXES :: "string list" where
  "ENV_ALLOW_PREFIXES = [''LC_'', ''NVIDIA_'', ''__EGL_'', ''__GLX_'']"

type_synonym environ = "(string \<times> string) list"

definition benchmark_environment :: "environ \<Rightarrow> string \<Rightarrow> string list \<Rightarrow> environ" where
  "benchmark_environment source authkey_env keep =
     filter (\<lambda>kv. fst kv \<in> set ENV_ALLOW \<or> fst kv = authkey_env \<or> fst kv \<in> set keep
       \<or> list_ex (startswith (fst kv)) ENV_ALLOW_PREFIXES) source"

section \<open>Outcomes\<close>

record outcome =
  o_success :: "bool option"
  o_void :: bool
  o_steps :: "int option"
  o_error :: "string option"
  o_wall :: rat
  o_progress :: "rat option"
  o_metric :: "rat option"
  o_clip :: "string option"
  o_extra :: items

definition RESULT_FIELDS :: "string list" where
  "RESULT_FIELDS = [''success'', ''void'', ''steps'', ''error'', ''progress'', ''metric'']"

definition voided :: "string \<Rightarrow> rat \<Rightarrow> outcome" where
  "voided why wall = \<lparr>o_success = None, o_void = True, o_steps = None, o_error = Some why, o_wall = wall,
     o_progress = None, o_metric = None, o_clip = None, o_extra = []\<rparr>"

text \<open>\<open>_finite\<close>: an integer too large for a float makes \<open>math.isfinite\<close> raise (\<open>None\<close>); half of the
  last place above the largest float already rounds past it.\<close>

definition FLOAT_LIMIT :: int where
  "FLOAT_LIMIT = 2 ^ 1024 - 2 ^ 970"

fun finite_num :: "json \<Rightarrow> bool option" where
  "finite_num (JInt i) = (if FLOAT_LIMIT \<le> \<bar>i\<bar> then None else Some True)"
| "finite_num (JFloat q) = Some True"
| "finite_num _ = Some False"

fun trunc_num :: "json \<Rightarrow> int" where
  "trunc_num (JInt i) = i"
| "trunc_num (JFloat q) = (if q < 0 then - \<lfloor>- q\<rfloor> else \<lfloor>q\<rfloor>)"
| "trunc_num _ = 0"

definition int_or_none :: "json \<Rightarrow> int option option" where
  "int_or_none v = map_option (\<lambda>fin. if fin then Some (trunc_num v) else None) (finite_num v)"

definition float_or_none :: "json \<Rightarrow> rat option option" where
  "float_or_none v = map_option (\<lambda>fin. if fin then to_float v else None) (finite_num v)"

definition str_or_none :: "json \<Rightarrow> string option" where
  "str_or_none v = (if is_text v then as_str v else None)"

text \<open>\<open>outcome_from\<close>; \<open>None\<close> where reading a number raises.\<close>

definition outcome_from :: "json \<Rightarrow> rat \<Rightarrow> outcome option" where
  "outcome_from result wall =
     (let said = jget result ''success'';
          void = (truthy (jget result ''void'') \<or> \<not> is_bool said);
          err = str_or_none (jget result ''error'') in
      case (int_or_none (jget result ''steps''), float_or_none (jget result ''progress''), float_or_none (jget result ''metric'')) of
        (Some steps, Some progress, Some metric) \<Rightarrow>
          Some \<lparr>o_success = (if void then None else Some (truthy said)), o_void = void, o_steps = steps,
            o_error = (if void \<and> err = None then Some ''the benchmark reported the unit void without a reason'' else err),
            o_wall = wall, o_progress = progress, o_metric = metric, o_clip = None,
            o_extra = filter (\<lambda>kv. fst kv \<notin> set RESULT_FIELDS) (jitems result)\<rparr>
      | _ \<Rightarrow> None)"

definition read_result_file :: "string option \<Rightarrow> json" where
  "read_result_file txt =
     (let doc = (case txt of None \<Rightarrow> JNull | Some t \<Rightarrow> (case loads t of Some d \<Rightarrow> d | None \<Rightarrow> JNull)) in
        if is_obj doc then doc
        else JObj [(''success'', JNull), (''void'', JBool True), (''steps'', JNull), (''error'', JStr ''unreadable result.json'')])"

section \<open>One unit\<close>

text \<open>\<open>Completed\<close>, and what one run of a unit found: what \<open>run_command\<close> built or raised, whether a stale
  file could not be cleared, how the subprocess ended, and what \<open>read_result\<close> and the clip were.
  \<open>u_limit\<close> is the text of the timeout.\<close>

record completed =
  returncode :: "int option"
  timed_out :: bool
  start_error :: "string option"
  log_tail :: string

record unit_run =
  u_command :: "string + string list"
  u_stale :: "(string \<times> string) option"
  u_done :: completed
  u_limit :: string
  u_wrote :: bool
  u_result :: "string + json"
  u_unusable :: string
  u_clip :: "string option"
  u_wall :: rat

definition named :: "string \<Rightarrow> string \<Rightarrow> string" where
  "named name why = (if startswith why (name @ '': '') then why else name @ '': '' @ why)"

definition read_outcome :: "string \<Rightarrow> unit_run \<Rightarrow> outcome" where
  "read_outcome name w =
     (let void = (\<lambda>why. voided (name @ '': '' @ why) (u_wall w)) in
      case u_result w of
        Inl why \<Rightarrow> void (''read_result failed: '' @ why)
      | Inr result \<Rightarrow>
          if \<not> is_obj result then void (''read_result returned '' @ u_unusable w @ '', not a mapping'')
          else case outcome_from result (u_wall w) of
            None \<Rightarrow> void (''unusable result: '' @ u_unusable w)
          | Some out \<Rightarrow>
              (let out1 = (if o_void out then out\<lparr>o_error := map_option (named name) (o_error out)\<rparr> else out)
               in case u_clip w of None \<Rightarrow> out1 | Some c \<Rightarrow> out1\<lparr>o_clip := Some c\<rparr>))"

definition run_unit :: "string \<Rightarrow> string option \<Rightarrow> string \<Rightarrow> string option \<Rightarrow> unit_run \<Rightarrow> outcome" where
  "run_unit name prompt authkey_env ky w =
     (let void = (\<lambda>why. voided (name @ '': '' @ why) (u_wall w)); d = u_done w in
      if prompt = None \<or> prompt = Some [] then void ''the unit carries no materialized prompt''
      else if ky = None \<or> ky = Some [] then void (''no policy authkey in $'' @ authkey_env @ '' for the benchmark subprocess'')
      else case u_command w of
        Inl why \<Rightarrow> void (''run_command failed: '' @ why)
      | Inr argv \<Rightarrow>
          if argv = [] then void ''run_command returned an empty argv''
          else if list_ex (is_sub (the ky)) argv
          then void ''run_command put the policy authkey on the command line; refusing to run it''
          else case u_stale w of
            Some (stale, why) \<Rightarrow> void (''could not clear a stale '' @ stale @ '': '' @ why)
          | None \<Rightarrow>
            if start_error d \<noteq> None then void (''could not start the benchmark: '' @ the (start_error d))
            else if timed_out d then void (''unit exceeded its '' @ u_limit w @ ''s budget'')
            else if returncode d \<noteq> Some 0
            then void (''exited '' @ (case returncode d of None \<Rightarrow> ''None'' | Some n \<Rightarrow> str_of_int n) @ '': '' @ log_tail d)
            else if \<not> u_wrote w then void (''exited 0 but wrote no result.json: '' @ log_tail d)
            else read_outcome name w)"

section \<open>Units in order\<close>

text \<open>\<open>run_units\<close>: what each unit's turn finds is whether the side's wall clock is spent, its prompt and
  its run; the outcomes, in order.\<close>

definition timed_unit :: "string \<Rightarrow> string \<Rightarrow> string option \<Rightarrow> bool \<times> string option \<times> unit_run \<Rightarrow> outcome" where
  "timed_unit name authkey_env ky t =
     (case t of (late, prompt, w) \<Rightarrow>
        if late then voided (name @ '': the side ran out of its wall-clock budget'') 0
        else run_unit name prompt authkey_env ky w)"

definition run_units :: "string \<Rightarrow> string \<Rightarrow> string option \<Rightarrow> (bool \<times> string option \<times> unit_run) list \<Rightarrow> outcome list" where
  "run_units name authkey_env ky turns = map (timed_unit name authkey_env ky) turns"

section \<open>Lemmas\<close>

text \<open>\<open>success is None exactly when the unit is void\<close>, and a void unit says why.\<close>

definition outcome_ok :: "outcome \<Rightarrow> bool" where
  "outcome_ok out \<longleftrightarrow> (o_void out \<longleftrightarrow> o_success out = None) \<and> (o_void out \<longrightarrow> o_error out \<noteq> None \<and> o_error out \<noteq> Some [])"

lemma voided_ok [simp]: "outcome_ok (voided why wall) \<longleftrightarrow> why \<noteq> []"
  by (simp add: outcome_ok_def voided_def)

lemma voided_void [simp]: "o_void (voided why wall)"
  by (simp add: voided_def)

lemma str_or_none_text [simp]: "str_or_none v \<noteq> Some []"
  by (cases v) (auto simp: str_or_none_def)

lemma outcome_from_ok:
  assumes "outcome_from result wall = Some out"
  shows "outcome_ok out"
proof -
  have "o_void out \<longleftrightarrow> truthy (jget result ''void'') \<or> \<not> is_bool (jget result ''success'')"
    "o_success out = (if o_void out then None else Some (truthy (jget result ''success'')))"
    "o_error out = (if o_void out \<and> str_or_none (jget result ''error'') = None
        then Some ''the benchmark reported the unit void without a reason'' else str_or_none (jget result ''error''))"
    using assms by (auto simp: outcome_from_def Let_def split: option.splits)
  then show ?thesis by (simp add: outcome_ok_def)
qed

lemma named_ok: "outcome_ok out \<Longrightarrow> outcome_ok (out\<lparr>o_error := map_option (named name) (o_error out)\<rparr>)"
  by (auto simp: outcome_ok_def named_def)

lemma clip_ok [simp]: "outcome_ok (out\<lparr>o_clip := c\<rparr>) \<longleftrightarrow> outcome_ok out"
  by (simp add: outcome_ok_def)

lemma outcome_from_scored: "outcome_from result wall = Some out \<Longrightarrow> \<not> o_void out \<Longrightarrow>
    \<exists>b. jget result ''success'' = JBool b \<and> o_success out = Some b \<and> \<not> truthy (jget result ''void'')"
  by (cases "jget result ''success''") (auto simp: outcome_from_def Let_def split: option.splits)

lemma read_outcome_ok: "outcome_ok (read_outcome name w)"
proof (cases "u_result w")
  case (Inr result)
  show ?thesis
  proof (cases "is_obj result")
    case True
    show ?thesis
    proof (cases "outcome_from result (u_wall w)")
      case (Some out)
      note ok = outcome_from_ok [OF Some]
      then show ?thesis using named_ok [OF ok]
        by (simp add: read_outcome_def Inr True Some Let_def split: option.split)
    qed (simp add: read_outcome_def Inr True Let_def)
  qed (simp add: read_outcome_def Inr Let_def)
qed (simp add: read_outcome_def Let_def)

lemma run_unit_ok: "outcome_ok (run_unit name prompt env ky w)"
  by (auto simp: run_unit_def Let_def read_outcome_ok split: sum.splits option.splits)

lemma read_outcome_scored:
  assumes "\<not> o_void (read_outcome name w)"
  shows "\<exists>result b. u_result w = Inr result \<and> is_obj result \<and> jget result ''success'' = JBool b
    \<and> \<not> truthy (jget result ''void'') \<and> o_success (read_outcome name w) = Some b"
proof -
  obtain result out where r: "u_result w = Inr result" "is_obj result" "outcome_from result (u_wall w) = Some out"
    using assms by (auto simp: read_outcome_def Let_def split: sum.splits option.splits if_splits)
  then have "\<not> o_void out" using assms by (auto simp: read_outcome_def Let_def split: option.splits if_splits)
  from outcome_from_scored [OF r(3) this] show ?thesis
    using r \<open>\<not> o_void out\<close> by (auto simp: read_outcome_def Let_def split: option.splits)
qed

lemma run_unit_scored:
  assumes scored: "\<not> o_void (run_unit name prompt env ky w)"
  shows "\<exists>argv result k b. u_command w = Inr argv \<and> argv \<noteq> [] \<and> ky = Some k \<and> k \<noteq> [] \<and> \<not> list_ex (is_sub k) argv
    \<and> returncode (u_done w) = Some 0 \<and> \<not> timed_out (u_done w) \<and> u_wrote w \<and> u_result w = Inr result
    \<and> jget result ''success'' = JBool b \<and> \<not> truthy (jget result ''void'')
    \<and> o_success (run_unit name prompt env ky w) = Some b"
proof -
  obtain argv k where g: "u_command w = Inr argv" "argv \<noteq> []" "ky = Some k" "k \<noteq> []" "\<not> list_ex (is_sub k) argv"
      "returncode (u_done w) = Some 0" "\<not> timed_out (u_done w)" "u_wrote w"
      "run_unit name prompt env ky w = read_outcome name w"
    using scored by (auto simp: run_unit_def Let_def split: sum.splits option.splits if_splits)
  with scored read_outcome_scored [of name w] show ?thesis by auto
qed

definition sample_run :: unit_run where
  "sample_run = \<lparr>u_command = Inr [''run''], u_stale = None,
     u_done = \<lparr>returncode = Some 0, timed_out = False, start_error = None, log_tail = []\<rparr>, u_limit = ''3'', u_wrote = True,
     u_result = Inr (JObj [(''success'', JBool True), (''void'', JBool False), (''steps'', JInt 7), (''seen'', JInt 1)]),
     u_unusable = ''dict'', u_clip = None, u_wall = 1\<rparr>"

lemma sample_run_scored: "o_void (run_unit ''rt'' (Some ''p'') ''KEY'' (Some ''k'') sample_run) = False"
  by (simp add: run_unit_def sample_run_def is_sub_def startswith_def read_outcome_def outcome_from_def jget_JObj
      int_or_none_def float_or_none_def str_or_none_def RESULT_FIELDS_def FLOAT_LIMIT_def)

section \<open>Properties\<close>



end
