(* ===== verification/Materialize.thy ===== *)
theory Materialize
  imports Jsonl Outcome
begin

text \<open>
  \<open>duel/materialize.py\<close>: every unit's prompt, produced once per duel before either side runs. The
  manifest file is a keyed line file (\<open>Jsonl\<close>); the subprocess, the plugin and the files it wrote are
  the world of one unit. The two callbacks work on a state of the caller's. A unit that raises
  (\<open>None\<close>) ends the loop where it is.
\<close>

section \<open>Prompts and their lines\<close>

record prompt =
  p_unit :: string
  p_path :: "string option"
  p_sha :: json
  p_clip :: "string option"
  p_demo_sha :: json
  p_void :: bool
  p_error :: json
  p_wall :: rat
  p_scene :: "int option"

definition scene_seed_of :: "json \<Rightarrow> int option" where
  "scene_seed_of v = (case v of JInt i \<Rightarrow> Some i | _ \<Rightarrow> None)"

definition void_prompt :: "string \<Rightarrow> string \<Rightarrow> rat \<Rightarrow> prompt" where
  "void_prompt uid why wall = \<lparr>p_unit = uid, p_path = None, p_sha = JNull, p_clip = None, p_demo_sha = JNull,
     p_void = True, p_error = JStr why, p_wall = wall, p_scene = None\<rparr>"

text \<open>\<open>Prompt.changed\<close>, given the bytes at its path, or why they cannot be read.\<close>

definition prompt_changed :: "string + string \<Rightarrow> prompt \<Rightarrow> string option" where
  "prompt_changed content p =
     (if p_void p \<or> p_path p = None then None
      else case content of
        Inl why \<Rightarrow> Some (''the prompt file cannot be read any more: '' @ why)
      | Inr bytes \<Rightarrow>
          (let found = sha256_hex_bytes bytes in
           if JStr found \<noteq> p_sha p
           then Some (''the prompt file changed after it was materialized ('' @ take 12 found @ ''...)'') else None))"

definition prompt_published :: "prompt \<Rightarrow> json" where
  "prompt_published p = JObj [(''unit_id'', JStr (p_unit p)), (''sha256'', p_sha p), (''demo_video'', p_demo_sha p)]"

definition prompt_line :: "prompt \<Rightarrow> json" where
  "prompt_line p = JObj [(''unit_id'', JStr (p_unit p)), (''prompt'', opt_json JStr (p_path p)), (''sha256'', p_sha p),
     (''demo_clip'', opt_json JStr (p_clip p)), (''demo_sha256'', p_demo_sha p), (''void'', JBool (p_void p)),
     (''error'', p_error p), (''wall_s'', JFloat (p_wall p)), (''scene_seed'', opt_json JInt (p_scene p))]"

text \<open>\<open>root / str(value) if value else None\<close>, relative to the root; \<open>float(value or 0.0)\<close>.\<close>

definition rel_path :: "json \<Rightarrow> string option" where
  "rel_path v = (if truthy v then Some (py_str v) else None)"

definition float_or_zero :: "json \<Rightarrow> rat option" where
  "float_or_zero v = (if truthy v then to_float v else Some 0)"

definition prompt_of_line :: "json \<Rightarrow> (string \<times> prompt) option" where
  "prompt_of_line doc =
     (if \<not> is_obj doc \<or> \<not> jhas doc ''unit_id'' then None
      else case float_or_zero (jget doc ''wall_s'') of None \<Rightarrow> None
      | Some wall \<Rightarrow> (let uid = py_str (jget doc ''unit_id'') in
          Some (uid, \<lparr>p_unit = uid, p_path = rel_path (jget doc ''prompt''), p_sha = jget doc ''sha256'',
            p_clip = rel_path (jget doc ''demo_clip''), p_demo_sha = jget doc ''demo_sha256'',
            p_void = truthy (jget doc ''void''), p_error = jget doc ''error'', p_wall = wall,
            p_scene = scene_seed_of (jget doc ''scene_seed'')\<rparr>)))"

definition read_manifest :: "string option \<Rightarrow> prompt table" where
  "read_manifest tx = read_table prompt_of_line tx"

definition manifest_append :: "string option \<Rightarrow> prompt \<Rightarrow> string option" where
  "manifest_append tx p = Some (append_line (text_of tx) (prompt_line p))"

text \<open>\<open>Materialized.manifest\<close> and \<open>Materialized.void\<close>.\<close>

definition published_prompts :: "prompt table \<Rightarrow> json list" where
  "published_prompts ps = map (\<lambda>kp. prompt_published (snd kp)) (filter (\<lambda>kp. \<not> p_void (snd kp)) ps)"

definition void_prompts :: "prompt table \<Rightarrow> nat" where
  "void_prompts ps = length (filter (\<lambda>kp. p_void (snd kp)) ps)"

section \<open>One unit\<close>

text \<open>What one run of \<open>materialize_unit\<close> found; \<open>m_prompt\<close> and \<open>m_clip\<close> are the bytes of the files
  that are there (a clip of no bytes is no clip), \<open>m_verify\<close> what \<open>verify_prompt\<close> returned or raised.\<close>

record mat_run =
  m_command :: "string + string list"
  m_stale :: "(string \<times> string) option"
  m_done :: completed
  m_limit :: string
  m_wrote :: bool
  m_result :: "string + json"
  m_unusable :: string
  m_prompt :: "string option"
  m_verify :: "string + json"
  m_clip :: "string option"
  m_wall :: rat

text \<open>The problems a verdict lists, as text; iterating what is not iterable raises.\<close>

definition problems_text :: "json \<Rightarrow> string option" where
  "problems_text problems =
     (if truthy problems then map_option (\<lambda>ps. join ''; '' (map py_str ps)) (py_iter problems) else Some ''no reason given'')"

definition int_text :: "int option \<Rightarrow> string" where
  "int_text i = (case i of None \<Rightarrow> ''None'' | Some n \<Rightarrow> str_of_int n)"

text \<open>From the prompt file on: \<open>extra\<close> is what the result said beyond the fields that are read.\<close>

definition accept_prompt :: "string \<Rightarrow> string \<Rightarrow> mat_run \<Rightarrow> items \<Rightarrow> prompt option" where
  "accept_prompt name uid w extra =
     (let void = (\<lambda>why. Some (void_prompt uid (name @ '': materialize: '' @ why) (m_wall w))) in
      case m_prompt w of None \<Rightarrow> void ''wrote no prompt.npz''
      | Some bytes \<Rightarrow>
        (let sha = sha256_hex_bytes bytes in
         case m_verify w of Inl why \<Rightarrow> void (''verify_prompt failed: '' @ why)
         | Inr verdict \<Rightarrow>
           if \<not> is_obj verdict \<or> \<not> truthy (jget verdict ''ok'') then
             Option.bind (if is_obj verdict then problems_text (jget verdict ''problems'') else Some ''no reason given'')
               (\<lambda>t. void (''the prompt is not the one the unit asked for: '' @ t))
           else if jget verdict ''sha256'' \<noteq> JStr sha then
             void (''verify_prompt hashed the prompt to '' @ take 12 (py_str (jget verdict ''sha256'')) @ ''..., not the sha256 of its bytes ''
               @ take 12 sha @ ''...'')
           else let written = jget (JObj extra) ''prompt_sha256''; reported = scene_seed_of (jget (JObj extra) ''scene_seed'');
                    seen = scene_seed_of (jget verdict ''scene_seed'') in
             if written \<noteq> JNull \<and> written \<noteq> JStr sha then
               void (''its result says it wrote a prompt hashing to '' @ take 12 (py_str written) @ ''..., not the sha256 of the file's bytes ''
                 @ take 12 sha @ ''...'')
             else if reported \<noteq> None \<and> seen \<noteq> None \<and> reported \<noteq> seen then
               void (''its result says the prompt was built on scene seed '' @ int_text reported @ '', but the prompt's own is '' @ int_text seen)
             else
               Some \<lparr>p_unit = uid, p_path = Some (uid @ ''/prompt.npz''), p_sha = JStr sha,
                 p_clip = (if m_clip w = None then None else Some (uid @ ''/demonstration.mp4'')),
                 p_demo_sha = opt_json (\<lambda>c. JStr (sha256_hex_bytes c)) (m_clip w),
                 p_void = False, p_error = JNull, p_wall = m_wall w,
                 p_scene = (if reported \<noteq> None then reported else seen)\<rparr>))"

definition materialize_unit :: "string \<Rightarrow> string \<Rightarrow> mat_run \<Rightarrow> prompt option" where
  "materialize_unit name uid w =
     (let void = (\<lambda>why. Some (void_prompt uid (name @ '': materialize: '' @ why) (m_wall w))); d = m_done w in
      case m_command w of
        Inl why \<Rightarrow> void (''materialize_command failed: '' @ why)
      | Inr argv \<Rightarrow>
          if argv = [] then void ''materialize_command returned an empty argv''
          else case m_stale w of
            Some (stale, why) \<Rightarrow> void (''could not clear a stale '' @ stale @ '': '' @ why)
          | None \<Rightarrow>
            if start_error d \<noteq> None then void (''could not start: '' @ the (start_error d))
            else if timed_out d then void (''exceeded its '' @ m_limit w @ ''s budget'')
            else if returncode d \<noteq> Some 0 then void (''exited '' @ int_text (returncode d) @ '': '' @ log_tail d)
            else if \<not> m_wrote w then void (''exited 0 but wrote no result.json: '' @ log_tail d)
            else case m_result w of
              Inl why \<Rightarrow> void (''its result could not be read: '' @ why)
            | Inr result \<Rightarrow>
              (case (if is_obj result then outcome_from result 0 else None) of
                 None \<Rightarrow> void (''its result could not be read: '' @ m_unusable w)
               | Some out \<Rightarrow>
                 if o_void out \<or> o_success out \<noteq> Some True then
                   void (''the demonstration did not succeed: '' @ (case o_error out of None \<Rightarrow> ''no reason given''
                     | Some e \<Rightarrow> if e = [] then ''no reason given'' else e))
                 else accept_prompt name uid w (o_extra out)))"

section \<open>Every unit\<close>

text \<open>What a unit's turn finds: its benchmark's name, whether the duel's wall clock is spent, the bytes at
  the prompt it has already, and the run that makes one.\<close>

record mat_world =
  mw_name :: string
  mw_late :: bool
  mw_file :: "string + string"
  mw_run :: mat_run

definition unit_name :: "json \<Rightarrow> string" where
  "unit_name unit = py_str (jget unit ''unit_id'')"

text \<open>The prompt of one unit, and whether it is a new line of the manifest.\<close>

definition unit_prompt :: "prompt table \<Rightarrow> mat_world \<Rightarrow> string \<Rightarrow> (prompt \<times> bool) option" where
  "unit_prompt done w uid =
     (case map_of done uid of
        Some p \<Rightarrow> (case prompt_changed (mw_file w) p of
            None \<Rightarrow> Some (p, False)
          | Some why \<Rightarrow> Some (void_prompt uid (''materialize: '' @ why) 0, True))
      | None \<Rightarrow>
          if mw_late w then Some (void_prompt uid ''materialize: the duel ran out of its wall-clock budget'' 0, True)
          else map_option (\<lambda>p. (p, True)) (materialize_unit (mw_name w) uid (mw_run w)))"

record 's mat_state =
  ms_text :: "string option"
  ms_prompts :: "prompt table"
  ms_caller :: 's

definition mat_step :: "(json \<Rightarrow> prompt \<Rightarrow> 's \<Rightarrow> 's) \<Rightarrow> json \<Rightarrow> prompt \<times> bool \<Rightarrow> 's mat_state \<Rightarrow> 's mat_state" where
  "mat_step on_prompt unit pa st =
     \<lparr>ms_text = (if snd pa then manifest_append (ms_text st) (fst pa) else ms_text st),
      ms_prompts = upd (unit_name unit) (fst pa) (ms_prompts st),
      ms_caller = on_prompt unit (fst pa) (ms_caller st)\<rparr>"

text \<open>The loop returns (\<open>Inr\<close>), or a unit raised and the loop stopped there (\<open>Inl\<close>).\<close>

fun mat_loop :: "(json \<Rightarrow> mat_world) \<Rightarrow> ('s \<Rightarrow> bool) \<Rightarrow> (json \<Rightarrow> prompt \<Rightarrow> 's \<Rightarrow> 's) \<Rightarrow> prompt table
    \<Rightarrow> json list \<Rightarrow> 's mat_state \<Rightarrow> 's mat_state + 's mat_state" where
  "mat_loop ws stop on_prompt done [] st = Inr st"
| "mat_loop ws stop on_prompt done (u # us) st =
     (if stop (ms_caller st) then Inr st
      else case unit_prompt done (ws u) (unit_name u) of None \<Rightarrow> Inl st
      | Some pa \<Rightarrow> mat_loop ws stop on_prompt done us (mat_step on_prompt u pa st))"

definition materialize_units :: "(json \<Rightarrow> mat_world) \<Rightarrow> ('s \<Rightarrow> bool) \<Rightarrow> (json \<Rightarrow> prompt \<Rightarrow> 's \<Rightarrow> 's) \<Rightarrow> json list
    \<Rightarrow> string option \<Rightarrow> 's \<Rightarrow> 's mat_state + 's mat_state" where
  "materialize_units ws stop on_prompt us tx s =
     mat_loop ws stop on_prompt (read_manifest tx) us \<lparr>ms_text = tx, ms_prompts = [], ms_caller = s\<rparr>"

section \<open>The manifest keeps what was materialized\<close>

definition prompt_good :: "prompt \<Rightarrow> bool" where
  "prompt_good p \<longleftrightarrow> wf_json (prompt_line p) \<and> jsort (p_sha p) = p_sha p \<and> jsort (p_demo_sha p) = p_demo_sha p
     \<and> jsort (p_error p) = p_error p \<and> p_path p \<noteq> Some [] \<and> p_clip p \<noteq> Some []"

lemma jsort_opt [simp]: "jsort (opt_json JStr x) = opt_json JStr x" "jsort (opt_json JInt i) = opt_json JInt i"
  by (cases x; simp) (cases i; simp)

lemma rel_path_opt: "x \<noteq> Some [] \<Longrightarrow> rel_path (opt_json JStr x) = x"
  by (cases x) (simp_all add: rel_path_def)

lemma scene_seed_opt [simp]: "scene_seed_of (opt_json JInt i) = i"
  by (cases i) (simp_all add: scene_seed_of_def)

lemma float_or_zero_float [simp]: "float_or_zero (JFloat q) = Some q"
  by (simp add: float_or_zero_def)

lemma prompt_line_fields:
  "jget (prompt_line p) ''unit_id'' = JStr (p_unit p)" "jget (prompt_line p) ''prompt'' = opt_json JStr (p_path p)"
  "jget (prompt_line p) ''sha256'' = p_sha p" "jget (prompt_line p) ''demo_clip'' = opt_json JStr (p_clip p)"
  "jget (prompt_line p) ''demo_sha256'' = p_demo_sha p" "jget (prompt_line p) ''void'' = JBool (p_void p)"
  "jget (prompt_line p) ''error'' = p_error p" "jget (prompt_line p) ''wall_s'' = JFloat (p_wall p)"
  "jget (prompt_line p) ''scene_seed'' = opt_json JInt (p_scene p)" "jhas (prompt_line p) ''unit_id''" "is_obj (prompt_line p)"
  by (simp_all add: prompt_line_def jget_JObj jhas_JObj)

lemma prompt_line_read: "prompt_good p \<Longrightarrow> prompt_of_line (jsort (prompt_line p)) = Some (p_unit p, p)"
  by (simp add: prompt_good_def prompt_of_line_def jget_jsort prompt_line_fields rel_path_opt Let_def)

interpretation manifest_log: keyed_log prompt_line prompt_of_line p_unit "\<lambda>p. p" prompt_good
  by unfold_locales (simp_all add: prompt_line_read prompt_good_def)

definition manifest_prompts :: "prompt table \<Rightarrow> json list \<Rightarrow> prompt table \<Rightarrow> prompt table" where
  "manifest_prompts done us ps = foldl (\<lambda>ps u. upd (unit_name u) (the (map_of done (unit_name u))) ps) ps us"

lemma manifest_prompts_cong:
  "(\<And>u. u \<in> set us \<Longrightarrow> map_of d (unit_name u) = map_of d' (unit_name u)) \<Longrightarrow> manifest_prompts d us ps = manifest_prompts d' us ps"
  by (induction us arbitrary: ps) (simp_all add: manifest_prompts_def)

lemma accept_prompt_unit: "accept_prompt name uid w extra = Some p \<Longrightarrow> p_unit p = uid"
  by (auto simp: accept_prompt_def void_prompt_def Let_def bind_eq_Some_conv split: option.splits sum.splits if_splits)

lemma materialize_unit_unit: "materialize_unit name uid w = Some p \<Longrightarrow> p_unit p = uid"
  by (auto simp: materialize_unit_def Let_def void_prompt_def dest: accept_prompt_unit split: option.splits sum.splits if_splits)

lemma unit_prompt_new: "unit_prompt done w uid = Some (p, True) \<Longrightarrow> p_unit p = uid"
  by (auto simp: unit_prompt_def void_prompt_def dest: materialize_unit_unit split: option.splits if_splits)

lemma unit_prompt_old: "unit_prompt done w uid = Some (p, False) \<Longrightarrow> map_of done uid = Some p"
  by (auto simp: unit_prompt_def split: option.splits if_splits)

lemma mat_loop_recorded:
  assumes "mat_loop ws (\<lambda>_. False) cb done us st = Inr st'" and "whole (text_of (ms_text st))"
    and "distinct (map unit_name us)"
    and "\<And>u. u \<in> set us \<Longrightarrow> map_of (read_manifest (ms_text st)) (unit_name u) = map_of done (unit_name u)"
    and "\<And>u p. u \<in> set us \<Longrightarrow> unit_prompt done (ws u) (unit_name u) = Some (p, True) \<Longrightarrow> prompt_good p"
  shows "whole (text_of (ms_text st'))
    \<and> (\<forall>k. k \<notin> set (map unit_name us) \<longrightarrow> map_of (read_manifest (ms_text st')) k = map_of (read_manifest (ms_text st)) k)
    \<and> (\<forall>u\<in>set us. map_of (read_manifest (ms_text st')) (unit_name u) \<noteq> None)
    \<and> ms_prompts st' = manifest_prompts (read_manifest (ms_text st')) us (ms_prompts st)"
  using assms
proof (induction us arbitrary: st)
  case (Cons u us)
  obtain p new where up: "unit_prompt done (ws u) (unit_name u) = Some (p, new)"
    and run: "mat_loop ws (\<lambda>_. False) cb done us (mat_step cb u (p, new) st) = Inr st'"
    using Cons.prems(1) by (auto split: option.splits)
  let ?st = "mat_step cb u (p, new) st"
  have w: "whole (text_of (ms_text ?st))"
    using Cons.prems(2) by (simp add: mat_step_def manifest_append_def text_of_def append_line_def)
  have look: "map_of (read_manifest (ms_text ?st)) k
      = (if k = unit_name u then Some p else map_of (read_manifest (ms_text st)) k)" for k
  proof (cases new)
    case True
    then have "prompt_good p" "p_unit p = unit_name u" using up Cons.prems(5) [of u p] unit_prompt_new by auto
    with True manifest_log.read_append [OF Cons.prems(2), of p] show ?thesis
      by (simp add: mat_step_def manifest_append_def read_manifest_def)
  next
    case False
    then have "map_of done (unit_name u) = Some p" using up unit_prompt_old by simp
    with False Cons.prems(4) [of u] show ?thesis by (simp add: mat_step_def)
  qed
  have "map_of (read_manifest (ms_text ?st)) (unit_name v) = map_of done (unit_name v)" if "v \<in> set us" for v
  proof -
    have "unit_name v \<noteq> unit_name u" using Cons.prems(3) that by (simp, metis image_eqI)
    then show ?thesis using look Cons.prems(4) that by simp
  qed
  from Cons.IH [OF run w _ this] Cons.prems(3,5) have ih: "whole (text_of (ms_text st'))"
      "\<And>k. k \<notin> set (map unit_name us) \<Longrightarrow> map_of (read_manifest (ms_text st')) k = map_of (read_manifest (ms_text ?st)) k"
      "\<And>v. v \<in> set us \<Longrightarrow> map_of (read_manifest (ms_text st')) (unit_name v) \<noteq> None"
      "ms_prompts st' = manifest_prompts (read_manifest (ms_text st')) us (ms_prompts ?st)" by auto
  have here: "map_of (read_manifest (ms_text st')) (unit_name u) = Some p"
    using ih(2) [of "unit_name u"] look Cons.prems(3) by simp
  then have "ms_prompts st' = manifest_prompts (read_manifest (ms_text st')) (u # us) (ms_prompts st)"
    unfolding ih(4) by (simp add: manifest_prompts_def mat_step_def)
  then show ?case using ih(1-3) here look by auto
qed (simp add: manifest_prompts_def)

lemma mat_loop_reused:
  assumes "\<And>u. u \<in> set us \<Longrightarrow> \<exists>p. map_of done (unit_name u) = Some p \<and> prompt_changed (mw_file (ws u)) p = None"
  shows "\<exists>st'. mat_loop ws (\<lambda>_. False) cb done us st = Inr st' \<and> ms_text st' = ms_text st
    \<and> ms_prompts st' = manifest_prompts done us (ms_prompts st)"
  using assms
proof (induction us arbitrary: st)
  case (Cons u us)
  then obtain p where p: "map_of done (unit_name u) = Some p" "prompt_changed (mw_file (ws u)) p = None" by auto
  then have up: "unit_prompt done (ws u) (unit_name u) = Some (p, False)" by (simp add: unit_prompt_def)
  from Cons.IH [of "mat_step cb u (p, False) st"] Cons.prems obtain st' where
    "mat_loop ws (\<lambda>_. False) cb done us (mat_step cb u (p, False) st) = Inr st'"
    "ms_text st' = ms_text (mat_step cb u (p, False) st)"
    "ms_prompts st' = manifest_prompts done us (ms_prompts (mat_step cb u (p, False) st))" by auto
  then show ?case using up p by (simp add: mat_step_def manifest_prompts_def)
qed (simp add: manifest_prompts_def)

text \<open>What the callback preserves of the caller's state holds wherever the loop ends.\<close>

lemma mat_loop_caller:
  assumes "\<And>u p s. P s \<Longrightarrow> P (cb u p s)" and "P (ms_caller st)"
  shows "mat_loop ws stop cb done us st = Inl st' \<Longrightarrow> P (ms_caller st')" "mat_loop ws stop cb done us st = Inr st' \<Longrightarrow> P (ms_caller st')"
  using assms(2)
proof (induction us arbitrary: st)
  case (Cons u us)
  have step: "P (ms_caller st) \<Longrightarrow> P (ms_caller (mat_step cb u pa st))" for pa st using assms(1) by (simp add: mat_step_def)
  { case 1 then show ?case using Cons.IH(1) step by (auto split: if_splits option.splits) }
  { case 2 then show ?case using Cons.IH(2) step by (auto split: if_splits option.splits) }
qed simp_all

lemma accept_prompt_verified:
  assumes "accept_prompt name uid w extra = Some p" and "\<not> p_void p"
  shows "\<exists>bytes verdict. m_prompt w = Some bytes \<and> p_sha p = JStr (sha256_hex_bytes bytes) \<and> m_verify w = Inr verdict
    \<and> truthy (jget verdict ''ok'') \<and> jget verdict ''sha256'' = p_sha p \<and> p_path p = Some (uid @ ''/prompt.npz'')
    \<and> (p_scene p = None \<or> p_scene p = scene_seed_of (jget verdict ''scene_seed'') \<or> scene_seed_of (jget verdict ''scene_seed'') = None)"
  using assms
  by (auto simp: accept_prompt_def void_prompt_def Let_def bind_eq_Some_conv split: option.splits sum.splits if_splits)

lemma materialize_unit_accepts:
  assumes "materialize_unit name uid w = Some p" and "\<not> p_void p"
  shows "returncode (m_done w) = Some 0 \<and> \<not> timed_out (m_done w)
    \<and> (\<exists>result. m_result w = Inr result \<and> jget result ''success'' = JBool True) \<and> (\<exists>extra. accept_prompt name uid w extra = Some p)"
proof -
  obtain result out where r: "m_result w = Inr result" "outcome_from result 0 = Some out" "\<not> o_void out" "o_success out = Some True"
      "returncode (m_done w) = Some 0" "\<not> timed_out (m_done w)" "accept_prompt name uid w (o_extra out) = Some p"
    using assms by (auto simp: materialize_unit_def Let_def void_prompt_def split: option.splits sum.splits if_splits)
  from outcome_from_scored [OF r(2,3)] r show ?thesis by auto
qed

definition sample_mat :: mat_run where
  "sample_mat = \<lparr>m_command = Inr [''mat''], m_stale = None,
     m_done = \<lparr>returncode = Some 0, timed_out = False, start_error = None, log_tail = []\<rparr>, m_limit = ''9'', m_wrote = True,
     m_result = Inr (JObj [(''success'', JBool True), (''scene_seed'', JInt 5)]), m_unusable = [], m_prompt = Some ''P'',
     m_verify = Inr (JObj [(''ok'', JBool True), (''sha256'', JStr (sha256_hex_bytes ''P''))]), m_clip = None, m_wall = 1\<rparr>"

definition sample_made :: prompt where
  "sample_made = \<lparr>p_unit = ''pk-000'', p_path = Some ''pk-000/prompt.npz'', p_sha = JStr (sha256_hex_bytes ''P''), p_clip = None,
     p_demo_sha = JNull, p_void = False, p_error = JNull, p_wall = 1, p_scene = Some 5\<rparr>"

lemma sample_mat_made: "materialize_unit ''rt'' ''pk-000'' sample_mat = Some sample_made"
  by (simp add: materialize_unit_def sample_mat_def sample_made_def accept_prompt_def outcome_from_def jget_JObj
      int_or_none_def float_or_none_def str_or_none_def RESULT_FIELDS_def scene_seed_of_def Let_def)

lemma float_ok_1: "float_ok 1" by code_simp

lemma sample_made_good: "prompt_good sample_made"
  using float_ok_1 by (simp add: prompt_good_def sample_made_def prompt_line_def)

definition sample_mat_world :: "json \<Rightarrow> mat_world" where
  "sample_mat_world u = \<lparr>mw_name = ''rt'', mw_late = False, mw_file = Inr ''P'', mw_run = sample_mat\<rparr>"

definition sample_unit :: json where
  "sample_unit = JObj [(''unit_id'', JStr ''pk-000'')]"

lemma sample_unit_name [simp]: "unit_name sample_unit = ''pk-000''"
  by (simp add: unit_name_def sample_unit_def jget_JObj)

lemma read_manifest_None [simp]: "read_manifest None = []"
  by (simp add: read_manifest_def read_table_def)

lemma sample_materialized: "materialize_units sample_mat_world (\<lambda>_. False) (\<lambda>_ _ s. s) [sample_unit] None ()
    = Inr \<lparr>ms_text = manifest_append None sample_made, ms_prompts = [(''pk-000'', sample_made)], ms_caller = ()\<rparr>"
  by (simp add: materialize_units_def unit_prompt_def sample_mat_world_def sample_mat_made mat_step_def)

section \<open>Properties\<close>



text \<open>A prompt is made once: after a run over all of a duel's units, a second run over the same
  manifest and unchanged files - a duel resumed, or the same prompts asked for by the other side -
  uses exactly the prompts the first one made, void ones included, runs nothing and writes nothing.\<close>

theorem materialized_once:
  assumes "materialize_units ws (\<lambda>_. False) cb us tx s = Inr st" and "whole (text_of tx)"
    and "distinct (map unit_name us)"
    and "\<And>u p. u \<in> set us \<Longrightarrow> unit_prompt (read_manifest tx) (ws u) (unit_name u) = Some (p, True) \<Longrightarrow> prompt_good p"
    and "\<And>u p. u \<in> set us \<Longrightarrow> map_of (ms_prompts st) (unit_name u) = Some p \<Longrightarrow> prompt_changed (mw_file (ws' u)) p = None"
  shows "\<exists>st'. materialize_units ws' (\<lambda>_. False) cb' us (ms_text st) s' = Inr st'
    \<and> ms_text st' = ms_text st \<and> ms_prompts st' = ms_prompts st"
proof -
  let ?done = "read_manifest (ms_text st)"
  from mat_loop_recorded [OF assms(1) [unfolded materialize_units_def] _ assms(3)] assms(2,4)
  have rec: "\<And>u. u \<in> set us \<Longrightarrow> map_of ?done (unit_name u) \<noteq> None"
    and ps: "ms_prompts st = manifest_prompts ?done us []" by auto
  have look: "map_of (manifest_prompts d vs ps) k = (if k \<in> unit_name ` set vs then Some (the (map_of d k)) else map_of ps k)"
    for d vs ps k by (induction vs arbitrary: ps) (auto simp: manifest_prompts_def)
  have "\<exists>p. map_of ?done (unit_name u) = Some p \<and> prompt_changed (mw_file (ws' u)) p = None" if u: "u \<in> set us" for u
  proof -
    obtain p where p: "map_of ?done (unit_name u) = Some p" using rec [OF u] by blast
    then have "map_of (ms_prompts st) (unit_name u) = Some p" using u by (simp add: ps look)
    with p assms(5) [OF u] show ?thesis by blast
  qed
  from mat_loop_reused [of us ?done ws' cb', OF this] obtain st' where
    "mat_loop ws' (\<lambda>_. False) cb' ?done us \<lparr>ms_text = ms_text st, ms_prompts = [], ms_caller = s'\<rparr> = Inr st'"
    "ms_text st' = ms_text st" "ms_prompts st' = manifest_prompts ?done us []" by fastforce
  then show ?thesis by (simp add: materialize_units_def ps)
qed

theorem materialized_once_witness:
  "\<exists>st'. materialize_units sample_mat_world (\<lambda>_. False) (\<lambda>_ _ s. s) [sample_unit] (manifest_append None sample_made) () = Inr st'
    \<and> ms_text st' = manifest_append None sample_made \<and> ms_prompts st' = [(''pk-000'', sample_made)]"
proof -
  have fresh: "unit_prompt (read_manifest None) (sample_mat_world u) (unit_name u) = Some (p, True) \<Longrightarrow> u \<in> set [sample_unit] \<Longrightarrow> prompt_good p" for u p
    using sample_made_good by (simp add: unit_prompt_def sample_mat_world_def sample_mat_made)
  have kept: "prompt_changed (mw_file (sample_mat_world sample_unit)) sample_made = None"
    by (simp add: sample_mat_world_def sample_made_def prompt_changed_def)
  show ?thesis
    using materialized_once [OF sample_materialized, of sample_mat_world "\<lambda>_ _ s. s" "()"] fresh kept
    by (auto simp: text_of_def)
qed

end
