(* ===== verification/Side.thy ===== *)
theory Side
  imports Materialize
begin

text \<open>
  \<open>duel/side.py\<close> and the causes of \<open>duel/runtime.py\<close>: one side of a duel, every unit in order. What a
  unit's turn finds - the clock, the prompt's bytes before and after, how the policy was served and
  ended, what the benchmark's run was - is the world of that unit; the callbacks work on a state of
  the caller's.
\<close>

section \<open>Whose a unit is\<close>

definition POLICY :: string where
  "POLICY = ''policy''"

definition HARNESS :: string where
  "HARNESS = ''harness''"

definition CAUSES :: "string list" where
  "CAUSES = [POLICY, HARNESS]"

record policy_end =
  e_reason :: string
  e_cause :: string

definition failed :: "string \<Rightarrow> rat \<Rightarrow> outcome" where
  "failed why wall = \<lparr>o_success = Some False, o_void = False, o_steps = None, o_error = Some why, o_wall = wall,
     o_progress = None, o_metric = None, o_clip = None, o_extra = []\<rparr>"

definition cause_of :: "outcome \<Rightarrow> policy_end option \<Rightarrow> string" where
  "cause_of out ended =
     (let said = jget (JObj (o_extra out)) ''void_cause'' in
      case ended of
        Some e \<Rightarrow> if e_cause e = HARNESS then HARNESS else if \<not> str_in said CAUSES then e_cause e else py_str said
      | None \<Rightarrow> if \<not> str_in said CAUSES then HARNESS else py_str said)"

definition attribute :: "outcome \<Rightarrow> policy_end option \<Rightarrow> outcome" where
  "attribute out ended =
     (if \<not> o_void out then out
      else let cause = cause_of out ended;
               told = (case o_error out of None \<Rightarrow> [] | Some e \<Rightarrow> e);
               base = (if told \<noteq> [] then told else if cause = POLICY then ''the policy failed'' else ''void'');
               why = (case ended of None \<Rightarrow> base | Some e \<Rightarrow> if e_cause e = cause then base @ [NL] @ e_reason e else base)
        in if cause \<noteq> POLICY then out\<lparr>o_error := Some why\<rparr>
           else out\<lparr>o_success := Some False, o_void := False, o_error := Some why\<rparr>)"

section \<open>Limits and records\<close>

text \<open>\<open>result_reserve_s\<close>, given what \<open>info()\<close> returned or raised; \<open>None\<close> is the overflow of a number
  that is no float.\<close>

definition result_reserve_s :: "string + json \<Rightarrow> rat option" where
  "result_reserve_s info =
     (case info of Inl why \<Rightarrow> Some 0
      | Inr doc \<Rightarrow>
          (case Option.bind (key_of doc ''limits'') (\<lambda>l. key_of l ''result_reserve_s'') of
             None \<Rightarrow> Some 0
           | Some v \<Rightarrow> if \<not> is_number v then Some 0
                       else Option.bind (finite_num v) (\<lambda>fin. if \<not> fin then Some 0 else map_option (max 0) (to_float v))))"

definition unit_limits :: "items \<Rightarrow> rat \<Rightarrow> rat \<Rightarrow> rat \<Rightarrow> items" where
  "unit_limits extra timeout_s budget_s reserve_s =
     (let limits = (if 0 < timeout_s then upd ''unit_timeout_s'' (JFloat timeout_s) extra else extra);
          budget = min budget_s (fsub timeout_s reserve_s)
      in if 0 < budget then upd ''policy_budget_s'' (JFloat budget) limits else limits)"

text \<open>\<open>unit_record\<close>; a clip is the path under the side's directory, with the bytes of the file.\<close>

definition unit_record :: "json \<Rightarrow> outcome \<Rightarrow> string \<Rightarrow> json \<Rightarrow> json" where
  "unit_record unit out clip_bytes prompt_sha =
     (let clip = (if o_void out then None else case o_clip out of None \<Rightarrow> None | Some c \<Rightarrow> if c = [] then None else Some c) in
      JObj [(''unit_id'', JStr (unit_name unit)), (''skill'', jget unit ''skill''), (''success'', opt_json JBool (o_success out)),
        (''void'', JBool (o_void out)), (''steps'', opt_json JInt (o_steps out)), (''error'', opt_json JStr (o_error out)),
        (''progress'', opt_json JFloat (o_progress out)), (''metric'', opt_json JFloat (o_metric out)),
        (''wall_s'', JFloat (o_wall out)), (''clip'', opt_json JStr clip),
        (''clip_sha256'', opt_json (\<lambda>c. JStr (sha256_hex_bytes clip_bytes)) clip), (''prompt_sha256'', prompt_sha)])"

definition result_of_line :: "json \<Rightarrow> (string \<times> json) option" where
  "result_of_line doc = (if \<not> is_obj doc then None else case jget doc ''unit_id'' of JStr u \<Rightarrow> Some (u, doc) | _ \<Rightarrow> None)"

definition read_results :: "string option \<Rightarrow> json table" where
  "read_results tx = read_table result_of_line tx"

definition results_append :: "string option \<Rightarrow> json \<Rightarrow> string option" where
  "results_append tx rec = Some (append_line (text_of tx) rec)"

section \<open>One unit\<close>

text \<open>How the policy was served for the unit: it never listened, the runtime could not serve, or it
  served after \<open>start_s\<close>, the benchmark's run was this and the policy ended so.\<close>

datatype serving = Policy_Died string | Unavailable string | Served rat unit_run "policy_end option"

record side_turn =
  t_late :: bool
  t_before :: "string + string"
  t_after :: "string + string"
  t_name :: string
  t_env :: string
  t_key :: "string option"
  t_serving :: serving
  t_slow :: string
  t_clip_bytes :: string
  t_wall :: rat

record side_args =
  sa_side :: string
  sa_prepared :: bool
  sa_refused :: "string option"
  sa_void_units :: "string table"
  sa_policy_budget :: rat
  sa_prompts :: "prompt table"

definition play :: "side_args \<Rightarrow> prompt \<Rightarrow> side_turn \<Rightarrow> outcome" where
  "play a p t =
     (case t_serving t of
        Policy_Died why \<Rightarrow> failed (''the '' @ sa_side a @ [CHR 0x27] @ ''s policy did not start: '' @ why) (t_wall t)
      | Unavailable why \<Rightarrow> voided (''the '' @ sa_side a @ [CHR 0x27] @ ''s policy could not be served: '' @ why) (t_wall t)
      | Served start_s run ended \<Rightarrow>
          (let out = (if sa_policy_budget a \<le> start_s then failed (''the '' @ sa_side a @ [CHR 0x27] @ ''s policy took '' @ t_slow t) 0
                      else run_unit (t_name t) (Some (case p_path p of None \<Rightarrow> ''None'' | Some q \<Rightarrow> q)) (t_env t) (t_key t) run)
           in (attribute out ended)\<lparr>o_wall := t_wall t\<rparr>))"

text \<open>The whole turn of a unit not yet finished, and whether its policy was played.\<close>

definition ran_prompt :: "prompt \<Rightarrow> side_turn \<Rightarrow> outcome \<Rightarrow> outcome" where
  "ran_prompt p t out =
     (let reported = jget (JObj (o_extra out)) ''prompt_sha256'' in
      case prompt_changed (t_after t) p of
        Some why \<Rightarrow> voided (''no prompt: '' @ why @ '' during the unit'') (o_wall out)
      | None \<Rightarrow>
          if reported \<noteq> JNull \<and> reported \<noteq> p_sha p then
            voided (''no prompt: the benchmark read a prompt hashing to '' @ take 12 (py_str reported) @ ''..., not the recorded ''
              @ take 12 (py_str (p_sha p)) @ ''...'') (o_wall out)
          else out)"

definition unit_turn :: "side_args \<Rightarrow> side_turn \<Rightarrow> string \<Rightarrow> outcome \<times> bool" where
  "unit_turn a t uid =
     (case map_of (sa_prompts a) uid of
        None \<Rightarrow> (voided ''no prompt: no prompt was materialized'' 0, False)
      | Some p \<Rightarrow>
          if p_void p then (voided (''no prompt: '' @ py_str (p_error p)) 0, False)
          else case map_of (sa_void_units a) uid of
            Some why \<Rightarrow> (voided (''not played: '' @ why) 0, False)
          | None \<Rightarrow>
            case (if \<not> sa_prepared a \<and> sa_refused a = None then Some ''the submission was not prepared'' else sa_refused a) of
              Some why \<Rightarrow> (failed (''the '' @ sa_side a @ [CHR 0x27] @ ''s submission was refused: '' @ why) 0, False)
            | None \<Rightarrow>
                if t_late t then (voided ''the side ran out of its wall-clock budget'' 0, False)
                else case prompt_changed (t_before t) p of
                  Some why \<Rightarrow> (voided (''no prompt: '' @ why) 0, False)
                | None \<Rightarrow> (ran_prompt p t (play a p t), True))"

definition turn_sha :: "side_args \<Rightarrow> string \<Rightarrow> json" where
  "turn_sha a uid = (case map_of (sa_prompts a) uid of None \<Rightarrow> JNull | Some p \<Rightarrow> if p_void p then JNull else p_sha p)"

definition side_record :: "side_args \<Rightarrow> side_turn \<Rightarrow> json \<Rightarrow> json" where
  "side_record a t unit = unit_record unit (fst (unit_turn a t (unit_name unit))) (t_clip_bytes t) (turn_sha a (unit_name unit))"

section \<open>The side\<close>

record 's side_state =
  s_text :: "string option"
  s_done :: "json table"
  s_caller :: 's

definition side_step :: "side_args \<Rightarrow> (json \<Rightarrow> side_turn) \<Rightarrow> (json \<Rightarrow> 's \<Rightarrow> 's) \<Rightarrow> (json \<Rightarrow> json \<Rightarrow> 's \<Rightarrow> 's)
    \<Rightarrow> json \<Rightarrow> 's side_state \<Rightarrow> 's side_state" where
  "side_step a ts on_start on_unit unit st =
     (let rec = side_record a (ts unit) unit;
          caller = (if snd (unit_turn a (ts unit) (unit_name unit)) then on_start unit (s_caller st) else s_caller st)
      in \<lparr>s_text = results_append (s_text st) rec, s_done = upd (unit_name unit) rec (s_done st),
          s_caller = on_unit unit rec caller\<rparr>)"

fun side_loop :: "side_args \<Rightarrow> (json \<Rightarrow> side_turn) \<Rightarrow> ('s \<Rightarrow> bool) \<Rightarrow> (json \<Rightarrow> 's \<Rightarrow> 's) \<Rightarrow> (json \<Rightarrow> json \<Rightarrow> 's \<Rightarrow> 's)
    \<Rightarrow> json list \<Rightarrow> 's side_state \<Rightarrow> 's side_state" where
  "side_loop a ts stop on_start on_unit [] st = st"
| "side_loop a ts stop on_start on_unit (u # us) st =
     (if unit_name u \<in> set (map fst (s_done st)) then side_loop a ts stop on_start on_unit us st
      else if stop (s_caller st) then st
      else side_loop a ts stop on_start on_unit us (side_step a ts on_start on_unit u st))"

definition run_side :: "side_args \<Rightarrow> (json \<Rightarrow> side_turn) \<Rightarrow> ('s \<Rightarrow> bool) \<Rightarrow> (json \<Rightarrow> 's \<Rightarrow> 's) \<Rightarrow> (json \<Rightarrow> json \<Rightarrow> 's \<Rightarrow> 's)
    \<Rightarrow> json list \<Rightarrow> string option \<Rightarrow> 's \<Rightarrow> 's side_state" where
  "run_side a ts stop on_start on_unit us tx s =
     side_loop a ts stop on_start on_unit us \<lparr>s_text = tx, s_done = read_results tx, s_caller = s\<rparr>"

section \<open>The results file\<close>

definition result_good :: "json \<Rightarrow> bool" where
  "result_good r \<longleftrightarrow> wf_json r \<and> is_obj r \<and> is_str (jget r ''unit_id'')"

lemma result_of_line_str: "is_obj d \<Longrightarrow> is_str (jget d ''unit_id'') \<Longrightarrow> result_of_line d = Some (unit_name d, d)"
  by (cases "jget d ''unit_id''") (simp_all add: result_of_line_def unit_name_def)

lemma unit_name_jsort: "wf_json r \<Longrightarrow> is_str (jget r ''unit_id'') \<Longrightarrow>
    is_str (jget (jsort r) ''unit_id'') \<and> unit_name (jsort r) = unit_name r"
  by (cases "jget r ''unit_id''") (simp_all add: jget_jsort unit_name_def)

interpretation results_log: keyed_log "\<lambda>r. r" result_of_line unit_name jsort result_good
proof unfold_locales
  fix r assume "result_good r"
  then have r: "wf_json r" "is_obj r" "is_str (jget r ''unit_id'')" by (simp_all add: result_good_def)
  from unit_name_jsort [OF r(1,3)] r(2) show "result_of_line (jsort r) = Some (unit_name r, jsort r)"
    by (simp add: result_of_line_str)
  show "wf_json r" by (rule r(1))
qed

lemma unit_record_name: "unit_name (unit_record u out b sha) = unit_name u \<and> is_obj (unit_record u out b sha)
    \<and> is_str (jget (unit_record u out b sha) ''unit_id'')"
  by (simp add: unit_record_def unit_name_def jget_JObj Let_def)

lemma side_record_name [simp]: "unit_name (side_record a t u) = unit_name u"
  by (simp add: side_record_def unit_record_name)

lemma side_record_good: "wf_json (side_record a t u) \<Longrightarrow> result_good (side_record a t u)"
  by (simp add: result_good_def side_record_def unit_record_name)

lemma results_append_read:
  assumes "whole (text_of tx)" and "wf_json (side_record a t u)"
  shows "read_results (results_append tx (side_record a t u)) = upd (unit_name u) (jsort (side_record a t u)) (read_results tx)"
  using results_log.read_append [OF assms(1) side_record_good [OF assms(2)]]
  by (simp add: read_results_def results_append_def)

lemma results_append_whole [simp]: "whole (text_of (results_append tx r))"
  by (simp add: results_append_def text_of_def append_line_def)

section \<open>Resuming\<close>

definition finished :: "'s side_state \<Rightarrow> string set" where
  "finished st = set (map fst (s_done st))"

lemma side_step_simps [simp]:
  "s_text (side_step a ts os ou u st) = results_append (s_text st) (side_record a (ts u) u)"
  "finished (side_step a ts os ou u st) = insert (unit_name u) (finished st)"
  by (simp_all add: side_step_def finished_def Let_def keys_upd del: set_map)

lemma side_loop_Cons: "side_loop a ts stop os ou (u # us) st =
    (if unit_name u \<in> finished st then side_loop a ts stop os ou us st
     else if stop (s_caller st) then st else side_loop a ts stop os ou us (side_step a ts os ou u st))"
  by (simp add: finished_def)

lemma side_loop_skips: "unit_name ` set us \<subseteq> finished st \<Longrightarrow> side_loop a ts stop os ou us st = st"
  by (induction us) (simp_all add: side_loop_Cons del: side_loop.simps(2))

lemma side_loop_append: "side_loop a ts (\<lambda>_. False) os ou (us @ vs) st
    = side_loop a ts (\<lambda>_. False) os ou vs (side_loop a ts (\<lambda>_. False) os ou us st)"
  by (induction us arbitrary: st) (simp_all add: side_loop_Cons del: side_loop.simps(2))

text \<open>Without a stop the file and the finished units do not depend on the caller.\<close>

lemma side_loop_same:
  "s_text st = s_text st' \<Longrightarrow> finished st = finished st' \<Longrightarrow>
    s_text (side_loop a ts (\<lambda>_. False) os ou us st) = s_text (side_loop a ts (\<lambda>_. False) os' ou' us st')
    \<and> finished (side_loop a ts (\<lambda>_. False) os ou us st) = finished st \<union> unit_name ` set us"
proof (induction us arbitrary: st st')
  case (Cons u us)
  show ?case
  proof (cases "unit_name u \<in> finished st")
    case True
    then show ?thesis using Cons.IH [OF Cons.prems] Cons.prems by (auto simp: side_loop_Cons simp del: side_loop.simps(2))
  next
    case False
    then show ?thesis
      using Cons.IH [of "side_step a ts os ou u st" "side_step a ts os' ou' u st'"] Cons.prems
      by (simp add: side_loop_Cons del: side_loop.simps(2))
  qed
qed simp

text \<open>The file always holds exactly the finished units, and never changes one.\<close>

lemma side_loop_file:
  assumes "whole (text_of (s_text st))" and "set (map fst (read_results (s_text st))) = finished st"
    and "\<And>u. u \<in> set us \<Longrightarrow> wf_json (side_record a (ts u) u)"
  shows "whole (text_of (s_text (side_loop a ts stop os ou us st)))
    \<and> set (map fst (read_results (s_text (side_loop a ts stop os ou us st)))) = finished (side_loop a ts stop os ou us st)
    \<and> finished st \<subseteq> finished (side_loop a ts stop os ou us st)
    \<and> (\<forall>k\<in>finished st. map_of (read_results (s_text (side_loop a ts stop os ou us st))) k = map_of (read_results (s_text st)) k)"
  using assms
proof (induction us arbitrary: st)
  case (Cons u us)
  show ?case
  proof (cases "unit_name u \<in> finished st \<or> stop (s_caller st)")
    case True
    then show ?thesis using Cons by (auto simp: side_loop_Cons simp del: side_loop.simps(2))
  next
    case False
    let ?st = "side_step a ts os ou u st"
    have read: "read_results (s_text ?st) = upd (unit_name u) (jsort (side_record a (ts u) u)) (read_results (s_text st))"
      using results_append_read [OF Cons.prems(1)] Cons.prems(3) by simp
    have keys: "set (map fst (read_results (s_text ?st))) = finished ?st"
      unfolding read keys_upd Cons.prems(2) by simp
    have kept: "map_of (read_results (s_text ?st)) k = map_of (read_results (s_text st)) k" if "k \<in> finished st" for k
      using False that unfolding read by auto
    have loop: "side_loop a ts stop os ou (u # us) st = side_loop a ts stop os ou us ?st"
      using False by (simp add: side_loop_Cons del: side_loop.simps(2))
    have "whole (text_of (s_text ?st))" by simp
    from Cons.IH [OF this keys Cons.prems(3)] kept show ?thesis unfolding loop by auto
  qed
qed simp

lemma side_start_file:
  assumes "whole (text_of tx)" and "\<And>u. u \<in> set us \<Longrightarrow> wf_json (side_record a (ts u) u)"
    and "st = \<lparr>s_text = tx, s_done = read_results tx, s_caller = s\<rparr>"
  shows "set (map fst (read_results (s_text (side_loop a ts stop os ou us st)))) = finished (side_loop a ts stop os ou us st)
    \<and> (\<forall>k\<in>finished st. map_of (read_results (s_text (side_loop a ts stop os ou us st))) k = map_of (read_results tx) k)"
proof -
  have st: "s_text st = tx" "set (map fst (read_results (s_text st))) = finished st" by (simp_all add: assms(3) finished_def)
  have "whole (text_of (s_text st))" using assms(1) st(1) by simp
  from side_loop_file [OF this st(2) assms(2), of us stop os ou] show ?thesis unfolding st(1) by blast
qed

lemma side_start_kept:
  assumes "whole (text_of tx)" and "\<And>u. u \<in> set us \<Longrightarrow> wf_json (side_record a (ts u) u)"
    and "uid \<in> finished \<lparr>s_text = tx, s_done = read_results tx, s_caller = s\<rparr>"
  shows "map_of (read_results (s_text (side_loop a ts stop os ou us \<lparr>s_text = tx, s_done = read_results tx, s_caller = s\<rparr>))) uid
    = map_of (read_results tx) uid"
  by (rule bspec [OF side_start_file [OF assms(1,2) refl, THEN conjunct2] assms(3)])

text \<open>What the callbacks preserve of the caller's state holds after the side.\<close>

lemma side_loop_caller:
  assumes "\<And>u s. P s \<Longrightarrow> P (os u s)" and "\<And>u r s. P s \<Longrightarrow> P (ou u r s)" and "P (s_caller st)"
  shows "P (s_caller (side_loop a ts stop os ou us st))"
  using assms(3)
proof (induction us arbitrary: st)
  case (Cons u us)
  have "P (s_caller (side_step a ts os ou u st))" using Cons.prems assms(1,2) by (simp add: side_step_def Let_def)
  with Cons show ?case by simp
qed simp

lemma run_side_caller:
  "(\<And>u s. P s \<Longrightarrow> P (os u s)) \<Longrightarrow> (\<And>u r s. P s \<Longrightarrow> P (ou u r s)) \<Longrightarrow> P s \<Longrightarrow> P (s_caller (run_side a ts stop os ou us tx s))"
  unfolding run_side_def by (rule side_loop_caller) simp_all

section \<open>Attribution\<close>

lemma attribute_scored [simp]: "\<not> o_void out \<Longrightarrow> attribute out ended = out"
  by (simp add: attribute_def)

lemma attribute_void: "o_void out \<Longrightarrow> o_void (attribute out ended) \<longleftrightarrow> cause_of out ended \<noteq> POLICY"
  by (simp add: attribute_def Let_def)

lemma attribute_success: "o_success (attribute out ended) = Some True \<Longrightarrow> outcome_ok out \<Longrightarrow> \<not> o_void out \<and> o_success out = Some True"
  by (auto simp: attribute_def outcome_ok_def Let_def split: if_splits)

lemma causes_differ [simp]: "POLICY \<noteq> HARNESS" "HARNESS \<noteq> POLICY"
  by (simp_all add: POLICY_def HARNESS_def)

lemma ran_prompt_eq: "\<not> o_void (ran_prompt p t out) \<Longrightarrow> ran_prompt p t out = out \<and> prompt_changed (t_after t) p = None"
  by (auto simp: ran_prompt_def Let_def split: option.splits if_splits)

lemma play_success:
  assumes "o_success (ran_prompt p t (play a p t)) = Some True"
  shows "\<exists>start run ended result. prompt_changed (t_after t) p = None \<and> t_serving t = Served start run ended
    \<and> start < sa_policy_budget a \<and> returncode (u_done run) = Some 0 \<and> u_result run = Inr result
    \<and> jget result ''success'' = JBool True"
proof -
  have r: "ran_prompt p t (play a p t) = play a p t" "prompt_changed (t_after t) p = None"
    using assms by (auto simp: ran_prompt_def Let_def voided_def split: option.splits if_splits)
  then obtain start run ended where s: "t_serving t = Served start run ended" "start < sa_policy_budget a"
      "o_success (attribute (run_unit (t_name t) (Some (case p_path p of None \<Rightarrow> ''None'' | Some q \<Rightarrow> q)) (t_env t) (t_key t) run)
         ended) = Some True"
    using assms by (auto simp: play_def failed_def voided_def Let_def attribute_def not_le split: serving.splits if_splits)
  from attribute_success [OF s(3) run_unit_ok] have out:
      "\<not> o_void (run_unit (t_name t) (Some (case p_path p of None \<Rightarrow> ''None'' | Some q \<Rightarrow> q)) (t_env t) (t_key t) run)"
      "o_success (run_unit (t_name t) (Some (case p_path p of None \<Rightarrow> ''None'' | Some q \<Rightarrow> q)) (t_env t) (t_key t) run) = Some True"
    by blast+
  from run_unit_scored [OF out(1)] out(2) r(2) s(1,2) show ?thesis by auto
qed

text \<open>A line that was cut off after its first byte: no line appended behind it reads.\<close>

lemma line_json_obj: "kvs \<noteq> [] \<Longrightarrow> \<exists>r. line_json (JObj kvs) = CHR ''{'' # r"
  by (simp add: line_json_def)

lemma side_record_obj: "\<exists>kv kvs. side_record a t u = JObj (kv # kvs)"
  by (simp add: side_record_def unit_record_def Let_def)

lemma loads_brace_brace: "loads (CHR ''{'' # CHR ''{'' # r) = None"
proof -
  have ws: "skip_ws (CHR ''{'' # x) = CHR ''{'' # x" for x by (simp add: skip_ws_def is_ws_def)
  have inner: "pmembers (Suc n) (CHR ''{'' # r) = None" for n by (simp add: startswith_def)
  have "pval (Suc (Suc n)) (CHR ''{'' # CHR ''{'' # r) = None" for n
    by (subst pval.simps(2)) (simp add: ws inner startswith_def del: pmembers.simps)
  then show ?thesis by (simp only: loads_def ws length_Cons, simp)
qed

section \<open>Sample\<close>

definition sample_args :: side_args where
  "sample_args = \<lparr>sa_side = ''king'', sa_prepared = True, sa_refused = None, sa_void_units = [], sa_policy_budget = 5,
     sa_prompts = [(''pk-000'', sample_made)]\<rparr>"

definition sample_turn :: "serving \<Rightarrow> json \<Rightarrow> side_turn" where
  "sample_turn sv u = \<lparr>t_late = False, t_before = Inr ''P'', t_after = Inr ''P'', t_name = ''rt'', t_env = ''KEY'', t_key = Some ''k'',
     t_serving = sv, t_slow = ''9.0s'', t_clip_bytes = [], t_wall = 1\<rparr>"

abbreviation "sample_served \<equiv> sample_turn (Served 1 sample_run None)"

lemma sample_unchanged: "prompt_changed (Inr ''P'') sample_made = None"
  by (simp add: prompt_changed_def sample_made_def)

lemma sample_outcome: "fst (unit_turn sample_args (sample_served u) ''pk-000'')
    = \<lparr>o_success = Some True, o_void = False, o_steps = Some 7, o_error = None, o_wall = 1, o_progress = None,
       o_metric = None, o_clip = None, o_extra = [(''seen'', JInt 1)]\<rparr>"
proof -
  have "run_unit ''rt'' (Some ''pk-000/prompt.npz'') ''KEY'' (Some ''k'') sample_run
    = \<lparr>o_success = Some True, o_void = False, o_steps = Some 7, o_error = None, o_wall = 1, o_progress = None,
       o_metric = None, o_clip = None, o_extra = [(''seen'', JInt 1)]\<rparr>"
    by (simp add: run_unit_def sample_run_def is_sub_def startswith_def read_outcome_def outcome_from_def jget_JObj
        int_or_none_def float_or_none_def str_or_none_def RESULT_FIELDS_def FLOAT_LIMIT_def)
  moreover have "\<not> p_void sample_made" "p_path sample_made = Some ''pk-000/prompt.npz''" by (simp_all add: sample_made_def)
  ultimately show ?thesis
    by (simp add: unit_turn_def sample_args_def sample_turn_def sample_unchanged ran_prompt_def play_def jget_JObj attribute_def)
qed

lemma sample_record_wf: "wf_json (side_record sample_args (sample_served sample_unit) sample_unit)"
proof -
  have "unit_name sample_unit = ''pk-000''" by simp
  then show ?thesis
    using float_ok_1 unfolding side_record_def sample_unit_name sample_outcome
    by (simp add: unit_record_def sample_unit_def jget_JObj turn_sha_def sample_args_def sample_made_def Let_def)
qed

section \<open>Properties\<close>

text \<open>A unit that finished is never run again and never changes: whatever a resumed side does after
  it, its line in the results file reads back as it was, and what its benchmark, its policy or the
  clock would have answered this time does not matter.\<close>

theorem finished_units_kept:
  assumes "whole (text_of tx)" and "\<And>u. u \<in> set us \<Longrightarrow> wf_json (side_record a (ts u) u)"
    and "uid \<in> set (map fst (read_results tx))"
  shows "map_of (read_results (s_text (run_side a ts stop os ou us tx s))) uid = map_of (read_results tx) uid
    \<and> run_side a (\<lambda>u. if unit_name u = uid then other u else ts u) stop os ou us tx s = run_side a ts stop os ou us tx s"
proof -
  let ?st = "\<lparr>s_text = tx, s_done = read_results tx, s_caller = s\<rparr>"
  have in_done: "uid \<in> finished ?st" using assms(3) by (simp add: finished_def)
  have "side_loop a (\<lambda>u. if unit_name u = uid then other u else ts u) stop os ou us st = side_loop a ts stop os ou us st"
    if "uid \<in> finished st" for st
    using that
  proof (induction us arbitrary: st)
    case (Cons u us)
    have "side_step a (\<lambda>u. if unit_name u = uid then other u else ts u) os ou u st = side_step a ts os ou u st"
      if "unit_name u \<noteq> uid" using that by (simp add: side_step_def)
    then have "unit_name u \<notin> finished st \<Longrightarrow>
        side_step a (\<lambda>u. if unit_name u = uid then other u else ts u) os ou u st = side_step a ts os ou u st"
      using Cons.prems by blast
    then show ?case using Cons by (simp add: side_loop_Cons del: side_loop.simps(2))
  qed simp
  moreover have "map_of (read_results (s_text (side_loop a ts stop os ou us ?st))) uid = map_of (read_results tx) uid"
    by (rule side_start_kept [OF assms(1,2) in_done])
  ultimately show ?thesis using in_done unfolding run_side_def by blast
qed

theorem finished_units_kept_witness:
  "map_of (read_results (s_text (run_side sample_args (sample_turn (Unavailable ''no gpu'')) (\<lambda>_. False) (\<lambda>_ s. s) (\<lambda>_ _ s. s)
      [sample_unit] (results_append None (side_record sample_args (sample_served sample_unit) sample_unit)) ()))) ''pk-000''
    = Some (jsort (side_record sample_args (sample_served sample_unit) sample_unit))"
proof -
  let ?tx = "results_append None (side_record sample_args (sample_served sample_unit) sample_unit)"
  have read: "read_results ?tx = [(''pk-000'', jsort (side_record sample_args (sample_served sample_unit) sample_unit))]"
    using results_append_read [OF _ sample_record_wf, of None] by (simp add: read_results_def read_table_def text_of_def)
  have "map_of (read_results (s_text (run_side sample_args (\<lambda>u. if unit_name u = ''pk-000'' then sample_turn (Unavailable ''no gpu'') u
      else sample_served u) (\<lambda>_. False) (\<lambda>_ s. s) (\<lambda>_ _ s. s) [sample_unit] ?tx ()))) ''pk-000'' = map_of (read_results ?tx) ''pk-000''"
    using finished_units_kept [of ?tx "[sample_unit]" sample_args sample_served "''pk-000''" "\<lambda>_. False" "\<lambda>_ s. s" "\<lambda>_ _ s. s" "()"
      "sample_turn (Unavailable ''no gpu'')"] sample_record_wf by (simp add: read)
  then show ?thesis by (simp add: read run_side_def)
qed



text \<open>C28. Whose a unit is: a scored outcome stands whatever the policy did after it. Of a void one, the
  orchestrator knows better than the benchmark only that a policy ended from outside, which is
  void whatever the benchmark said; otherwise the cause the benchmark gave decides, and where it
  gave none the way the policy ended does - the policy's own end costs its side the unit.\<close>

theorem attribution_rule:
  assumes "outcome_ok out"
  shows "(\<not> o_void out \<longrightarrow> attribute out ended = out)
   \<and> (o_void out \<longrightarrow> (let said = jget (JObj (o_extra out)) ''void_cause''; lost = attribute out ended in
        (o_void lost \<longleftrightarrow> o_success lost \<noteq> Some False)
        \<and> (o_void lost \<longleftrightarrow> (\<exists>e. ended = Some e \<and> e_cause e = HARNESS) \<or> said = JStr HARNESS
             \<or> (said \<noteq> JStr POLICY \<and> (\<forall>e. ended = Some e \<longrightarrow> e_cause e \<noteq> POLICY)))))"
proof -
  let ?said = "jget (JObj (o_extra out)) ''void_cause''"
  have said: "str_in ?said CAUSES \<longleftrightarrow> ?said = JStr POLICY \<or> ?said = JStr HARNESS"
    by (cases ?said) (auto simp: str_in_def CAUSES_def)
  have "cause_of out ended \<noteq> POLICY \<longleftrightarrow> (\<exists>e. ended = Some e \<and> e_cause e = HARNESS) \<or> ?said = JStr HARNESS
      \<or> (?said \<noteq> JStr POLICY \<and> (\<forall>e. ended = Some e \<longrightarrow> e_cause e \<noteq> POLICY))"
    using said by (cases ended) (auto simp: cause_of_def Let_def)
  moreover have "o_void out \<Longrightarrow> o_success (attribute out ended) = (if cause_of out ended \<noteq> POLICY then None else Some False)"
    using assms by (simp add: attribute_def outcome_ok_def Let_def)
  ultimately show ?thesis by (simp add: attribute_void Let_def)
qed

theorem attribution_rule_witness:
  "o_void (attribute (voided ''the client hung up'' 2) (Some \<lparr>e_reason = ''exited 1'', e_cause = POLICY\<rparr>)) = False"
  using attribution_rule [of "voided ''the client hung up'' 2" "Some \<lparr>e_reason = ''exited 1'', e_cause = POLICY\<rparr>"]
  by (auto simp: voided_def outcome_ok_def jget_JObj HARNESS_def POLICY_def Let_def)





end
