(* ===== verification/Live.thy ===== *)
theory Live
  imports Contract
begin

text \<open>
  \<open>live.py\<close>: the frames a running duel posts to the dashboard. A frame the dashboard would refuse or
  thin out is not built. Delivering a body over HTTP is the world of a post: the clock it reads and
  whether the body arrived. \<open>now_iso\<close> is an argument.
\<close>

section \<open>Bounds\<close>

definition PHASES :: "string list" where
  "PHASES = [''fetching'', ''checking'', ''materializing'', ''evaluating'', ''publishing'', ''done'', ''failed'']"

definition SIDES :: "string list" where
  "SIDES = [''challenger'', ''king'']"

definition EVENT_ID_RE :: rx where
  "EVENT_ID_RE = RepRange 8 64 (Cls hex_lower)"

definition MAX_VALIDATOR_KEY :: nat where
  "MAX_VALIDATOR_KEY = 128"

definition MAX_MESSAGE :: nat where
  "MAX_MESSAGE = 300"

section \<open>Building a frame\<close>

text \<open>The \<open>ValueError\<close>s of \<open>build_frame\<close>; \<open>No_Track_Skills\<close> is a contract that does not validate.\<close>

datatype frame_error =
    Bad_Phase string
  | Bad_Track string
  | Bad_Event_Id string
  | Bad_Side string
  | Bad_Validator_Key
  | Unknown_Skills "string list"
  | Bad_Unit_Task json
  | Bad_Unit_Instance json
  | Not_An_Object string
  | Skill_Not_Scored string
  | Task_Not_Text string
  | Instance_Not_Number string
  | Media_Side
  | Bad_Repo string
  | No_Track_Skills

definition check_unit_like :: "string \<Rightarrow> json \<Rightarrow> string list \<Rightarrow> bool \<Rightarrow> frame_error + unit" where
  "check_unit_like what u sks task_may_be_empty =
     (if u = JNull then Inr ()
      else if \<not> is_obj u then Inl (Not_An_Object what)
      else if \<not> str_in (jget u ''skill'') sks then Inl (Skill_Not_Scored what)
      else if \<not> (if task_may_be_empty then is_str (jget u ''task'') else is_text (jget u ''task'')) then Inl (Task_Not_Text what)
      else if \<not> is_number (jget u ''instance'') then Inl (Instance_Not_Number what)
      else Inr ())"

fun check_rows :: "json list \<Rightarrow> frame_error + unit" where
  "check_rows [] = Inr ()"
| "check_rows (u # us) =
     (if \<not> is_text (jget u ''task'') then Inl (Bad_Unit_Task (jget u ''unit_id''))
      else if \<not> is_number (jget u ''instance'') then Inl (Bad_Unit_Instance (jget u ''unit_id''))
      else check_rows us)"

definition check_media :: "json \<Rightarrow> string list \<Rightarrow> frame_error + unit" where
  "check_media recent sks =
     (if recent = JNull then Inr ()
      else bindE (check_unit_like ''recent_media'' (jget recent ''unit'') sks True)
        (\<lambda>_. if str_in (jget recent ''side'') SIDES then Inr () else Inl Media_Side))"

definition check_ref :: "string \<Rightarrow> json \<Rightarrow> frame_error + unit" where
  "check_ref name ref = (if ref \<noteq> JNull \<and> \<not> is_text (jget ref ''repo'') then Inl (Bad_Repo name) else Inr ())"

text \<open>How far a side is on a skill: the rows done, of how many.\<close>

definition row_done :: "string \<Rightarrow> json \<Rightarrow> bool" where
  "row_done s u \<longleftrightarrow> is_bool (jget u (s @ ''_success'')) \<or> truthy (jget u ''void'')"

definition skill_rows :: "string \<Rightarrow> json list \<Rightarrow> json list" where
  "skill_rows sk rows = filter (\<lambda>u. jget u ''skill'' = JStr sk) rows"

definition skill_done :: "json list \<Rightarrow> string \<Rightarrow> string \<Rightarrow> nat \<times> nat" where
  "skill_done rows s sk = (length (filter (row_done s) (skill_rows sk rows)), length (skill_rows sk rows))"

definition side_progress :: "json list \<Rightarrow> string list \<Rightarrow> string \<Rightarrow> (string \<times> nat \<times> nat) list" where
  "side_progress rows sks s = dict_of (map (\<lambda>sk. (sk, skill_done rows s sk)) sks)"

definition progress_json :: "(string \<times> nat \<times> nat) list \<Rightarrow> json" where
  "progress_json ps = JObj (map (\<lambda>p. (fst p, JObj [(''done'', JInt (int (fst (snd p)))), (''total'', JInt (int (snd (snd p))))])) ps)"

definition live_unit :: "json \<Rightarrow> json" where
  "live_unit u = JObj [(''unit_id'', jget u ''unit_id''), (''skill'', jget u ''skill''), (''task'', jget u ''task''),
     (''task_label'', jget u ''task_label''), (''instance'', jget u ''instance''), (''king_success'', jget u ''king_success''),
     (''challenger_success'', jget u ''challenger_success''),
     (''outcome'', if is_bool (jget u ''king_success'') \<and> is_bool (jget u ''challenger_success'') then jget u ''outcome'' else JNull),
     (''demo_video'', jget u ''demo_video''), (''king_video'', jget u ''king_video''),
     (''challenger_video'', jget u ''challenger_video'')]"

record frame_args =
  f_track :: string
  f_validator_key :: string
  f_event_id :: string
  f_kind :: string
  f_duel_size :: "string option"
  f_king :: json
  f_challenger :: json
  f_phase :: string
  f_side :: "string option"
  f_units :: "json list"
  f_current :: json
  f_recent_media :: json
  f_message :: string
  f_started_at :: string

definition frame_of :: "int \<Rightarrow> string list \<Rightarrow> frame_args \<Rightarrow> string \<Rightarrow> json" where
  "frame_of schema sks a now =
     (let finished = (case f_side a of
            Some s \<Rightarrow> (if s \<in> set SIDES then sum_list (map (\<lambda>p. fst (snd p)) (side_progress (f_units a) sks s)) else 0)
          | None \<Rightarrow> 0)
      in JObj [(''schema'', JInt schema), (''validator_key'', JStr (f_validator_key a)), (''track'', JStr (f_track a)),
        (''event_id'', JStr (f_event_id a)), (''kind'', JStr (f_kind a)), (''duel_size'', opt_json JStr (f_duel_size a)),
        (''king'', f_king a), (''challenger'', f_challenger a), (''phase'', JStr (f_phase a)),
        (''side'', opt_json JStr (f_side a)), (''done'', JInt (int finished)), (''total'', JInt (int (length (f_units a)))),
        (''skill_progress'', JObj (map (\<lambda>s. (s, progress_json (side_progress (f_units a) sks s))) SIDES)),
        (''current'', f_current a), (''recent_media'', f_recent_media a), (''units'', JArr (map live_unit (f_units a))),
        (''message'', JStr (take MAX_MESSAGE (f_message a))), (''started_at'', JStr (f_started_at a)), (''sent_at'', JStr now)])"

definition build_frame :: "contract \<Rightarrow> frame_args \<Rightarrow> string \<Rightarrow> frame_error + json" where
  "build_frame sp a now =
     (if f_phase a \<notin> set PHASES then Inl (Bad_Phase (f_phase a))
      else if f_track a \<notin> set (spec_tracks sp) then Inl (Bad_Track (f_track a))
      else if \<not> rx_fullmatch EVENT_ID_RE (f_event_id a) then Inl (Bad_Event_Id (f_event_id a))
      else if (case f_side a of None \<Rightarrow> False | Some s \<Rightarrow> s \<notin> set SIDES) then Inl (Bad_Side (the (f_side a)))
      else if strip (f_validator_key a) = [] \<or> MAX_VALIDATOR_KEY < length (f_validator_key a) then Inl Bad_Validator_Key
      else case (skills sp (f_track a), as_int (jget (spec_section sp ''live'') ''schema'')) of
        (Some sks, Some schema) \<Rightarrow>
          (let unknown = filter (\<lambda>s. s \<notin> set sks) (map (\<lambda>u. py_str (jget u ''skill'')) (f_units a)) in
           if unknown \<noteq> [] then Inl (Unknown_Skills (sort (remdups unknown)))
           else bindE (check_rows (f_units a)) (\<lambda>_.
             bindE (check_unit_like ''current'' (f_current a) sks True) (\<lambda>_.
             bindE (check_media (f_recent_media a) sks) (\<lambda>_.
             bindE (check_ref ''king'' (f_king a)) (\<lambda>_.
             bindE (check_ref ''challenger'' (f_challenger a)) (\<lambda>_.
               Inr (frame_of schema sks a now)))))))
      | _ \<Rightarrow> Inl No_Track_Skills)"

section \<open>Posting\<close>

definition encode_frame :: "int \<Rightarrow> json \<Rightarrow> string" where
  "encode_frame max_bytes frame =
     (let data = dumps '', '' '': '' False frame in
      if max_bytes < int (length data) then dumps '', '' '': '' False (jset frame ''units'' (JArr [])) else data)"

record reporter =
  l_enabled :: bool
  l_min_interval :: rat
  l_max_bytes :: int
  l_last_sent :: rat
  l_sent :: nat
  l_failed :: nat

text \<open>\<open>post\<close> at the clock \<open>now\<close>, when the dashboard would take the body or not: whether it was sent,
  and the body tried.\<close>

definition post :: "json \<Rightarrow> bool \<Rightarrow> rat \<Rightarrow> bool \<Rightarrow> reporter \<Rightarrow> (bool \<times> string option) \<times> reporter" where
  "post frame force now taken r =
     (if \<not> l_enabled r then ((False, None), r)
      else if \<not> force \<and> fsub now (l_last_sent r) < l_min_interval r then ((False, None), r)
      else let body = encode_frame (l_max_bytes r) frame in
        if \<not> taken then ((False, Some body), r\<lparr>l_failed := l_failed r + 1\<rparr>)
        else ((True, Some body), r\<lparr>l_last_sent := now, l_sent := l_sent r + 1\<rparr>))"

section \<open>Counting\<close>

lemma side_progress_distinct: "distinct sks \<Longrightarrow> side_progress rows sks s = map (\<lambda>sk. (sk, skill_done rows s sk)) sks"
  unfolding side_progress_def by (rule dict_of_distinct) (simp add: comp_def)

text \<open>Rows of distinct skills are counted once each.\<close>

lemma count_by_skill:
  assumes "distinct sks" and "\<And>u. u \<in> set rows \<Longrightarrow> \<exists>sk\<in>set sks. jget u ''skill'' = JStr sk"
  shows "sum_list (map (\<lambda>sk. length (filter P (skill_rows sk rows))) sks) = length (filter P rows)"
  using assms(2)
proof (induction rows)
  case (Cons u rows)
  from Cons.prems obtain k where k: "k \<in> set sks" "jget u ''skill'' = JStr k" by auto
  have "sum_list (map (\<lambda>sk. length (filter P (skill_rows sk (u # rows)))) sks)
      = sum_list (map (\<lambda>sk. (if sk = k \<and> P u then 1 else 0) + length (filter P (skill_rows sk rows))) sks)"
    by (rule arg_cong [of _ _ sum_list], rule map_cong [OF refl]) (auto simp: skill_rows_def k(2))
  also have "\<dots> = sum_list (map (\<lambda>sk. if sk = k \<and> P u then 1 else 0) sks) + sum_list (map (\<lambda>sk. length (filter P (skill_rows sk rows))) sks)"
    by (rule sum_list_addf)
  also have "sum_list (map (\<lambda>sk. if sk = k \<and> P u then 1 else 0) sks) = (if P u then 1 else (0 :: nat))"
    using k(1) assms(1) by (induction sks) auto
  finally show ?case using Cons by simp
qed (simp add: skill_rows_def)

lemma progress_done:
  assumes "distinct sks" and "\<And>u. u \<in> set rows \<Longrightarrow> \<exists>sk\<in>set sks. jget u ''skill'' = JStr sk"
  shows "sum_list (map (\<lambda>p. fst (snd p)) (side_progress rows sks s)) = length (filter (row_done s) rows)"
  unfolding side_progress_distinct [OF assms(1)] using count_by_skill [where P = "row_done s", OF assms]
  by (simp add: comp_def skill_done_def)

lemma progress_total:
  assumes "distinct sks" and "\<And>u. u \<in> set rows \<Longrightarrow> \<exists>sk\<in>set sks. jget u ''skill'' = JStr sk"
  shows "sum_list (map (\<lambda>p. snd (snd p)) (side_progress rows sks s)) = length rows"
  unfolding side_progress_distinct [OF assms(1)] using count_by_skill [where P = "\<lambda>_. True", OF assms]
  by (simp add: comp_def skill_done_def)

lemma check_rows_ok: "check_rows rows = Inr v \<Longrightarrow> u \<in> set rows \<Longrightarrow> is_text (jget u ''task'') \<and> is_number (jget u ''instance'')"
  by (induction rows) (auto split: if_splits)

lemma build_frame_ok:
  assumes "build_frame sp a now = Inr frame" and "skills sp (f_track a) = Some sks"
  shows "(\<exists>schema. frame = frame_of schema sks a now) \<and> check_rows (f_units a) = Inr ()
    \<and> (\<forall>u\<in>set (f_units a). py_str (jget u ''skill'') \<in> set sks) \<and> f_phase a \<in> set PHASES
    \<and> (\<forall>s. f_side a = Some s \<longrightarrow> s \<in> set SIDES)"
proof -
  from assms have "list_all (\<lambda>s. s \<in> set sks) (map (\<lambda>u. py_str (jget u ''skill'')) (f_units a))"
    by (auto simp: build_frame_def Let_def list_all_iff filter_empty_conv split: if_splits option.splits)
  with assms show ?thesis
    by (auto simp: build_frame_def Let_def list_all_iff bindE_Inr_iff split: if_splits option.splits)
qed

section \<open>Properties\<close>


definition sample_row :: json where
  "sample_row = JObj [(''unit_id'', JStr ''pk-000''), (''skill'', JStr ''pick''), (''task'', JStr ''t''), (''instance'', JInt 0),
     (''king_success'', JNull), (''challenger_success'', JBool True), (''void'', JBool False)]"

definition sample_frame_args :: frame_args where
  "sample_frame_args = \<lparr>f_track = ''fa'', f_validator_key = ''k'', f_event_id = ''0123abcd'', f_kind = ''duel'', f_duel_size = Some ''s'',
     f_king = JNull, f_challenger = JNull, f_phase = ''evaluating'', f_side = Some ''challenger'', f_units = [sample_row],
     f_current = JNull, f_recent_media = JNull, f_message = ''m'', f_started_at = ''t''\<rparr>"

lemma sample_frame: "case build_frame sample_spec sample_frame_args ''now'' of Inl e \<Rightarrow> False | Inr frame \<Rightarrow> True"
  by code_simp


end
