(* ===== verification/Duel_Run.thy ===== *)
theory Duel_Run
  imports Store Records Side Live Units
begin

text \<open>
  What a duel works on (\<open>duel/orchestrate.py\<close>, \<open>duel/orphans.py\<close>): its request and its result, the
  host it runs on - the store, the run directories, the frames posted and the files mirrored - and
  the rows of one running duel with what the callbacks of its phases do to them. A run directory is
  the files in it by their relative paths.
\<close>

section \<open>Requests\<close>

record duel_request =
  q_track :: string
  q_challenger :: submission_ref
  q_king :: "submission_ref option"
  q_size :: "string option"
  q_block :: int

definition request_kind :: "duel_request \<Rightarrow> string" where
  "request_kind q = (if q_king q \<noteq> None then ''duel'' else ''genesis'')"

definition request_duel_id :: "int \<Rightarrow> duel_request \<Rightarrow> string" where
  "request_duel_id ver q = duel_id ver (q_track q) (q_challenger q) (q_king q)"

definition request_event_id :: "int \<Rightarrow> duel_request \<Rightarrow> string" where
  "request_event_id ver q = event_id (request_kind q) (q_track q) (q_block q) (request_duel_id ver q)"

definition request_dict :: "int \<Rightarrow> string \<Rightarrow> duel_request \<Rightarrow> json" where
  "request_dict ver sz q = JObj [(''track'', JStr (q_track q)), (''kind'', JStr (request_kind q)),
     (''challenger'', ref_as_dict (q_challenger q)), (''king'', opt_json ref_as_dict (q_king q)),
     (''size'', JStr sz), (''block'', JInt (q_block q)), (''duel_id'', JStr (request_duel_id ver q)),
     (''event_id'', JStr (request_event_id ver q))]"

text \<open>\<open>from_dict\<close> of a document the orchestrator wrote; \<open>None\<close> is the raise on any other.\<close>

definition request_from_dict :: "json \<Rightarrow> duel_request option" where
  "request_from_dict doc =
     (case (Option.bind (key_of doc ''challenger'') ref_from_dict, ref_from_dict (jget doc ''king''),
            map_option py_str (key_of doc ''track''), as_opt_str (jget doc ''size''), Option.bind (key_of doc ''block'') as_int) of
        (Some (Some challenger), Some king, Some trk, Some sz, Some blk) \<Rightarrow>
          Some \<lparr>q_track = trk, q_challenger = challenger, q_king = king, q_size = sz, q_block = blk\<rparr>
      | _ \<Rightarrow> None)"

section \<open>Results\<close>

record duel_result =
  r_status :: string
  r_kind :: string
  r_event_id :: string
  r_duel_id :: string
  r_reason :: string
  r_run_dir :: string
  r_record :: json
  r_units :: "json list"

definition result_dict :: "duel_result \<Rightarrow> json" where
  "result_dict r = JObj [(''status'', JStr (r_status r)), (''kind'', JStr (r_kind r)), (''event_id'', JStr (r_event_id r)),
     (''duel_id'', JStr (r_duel_id r)), (''reason'', JStr (r_reason r)), (''run_dir'', JStr (r_run_dir r)),
     (''record'', r_record r), (''units'', JArr (r_units r))]"

definition result_from_dict :: "json \<Rightarrow> duel_result option" where
  "result_from_dict doc =
     (case all_some (map (key_of doc) [''status'', ''kind'', ''event_id'', ''duel_id'', ''reason'', ''run_dir'']) of
        Some [st, kd, ev, du, why, dir] \<Rightarrow>
          (case (if truthy (jget doc ''units'') then py_iter (jget doc ''units'') else Some []) of
             None \<Rightarrow> None
           | Some us \<Rightarrow> Some \<lparr>r_status = py_str st, r_kind = py_str kd, r_event_id = py_str ev, r_duel_id = py_str du,
               r_reason = py_str why, r_run_dir = py_str dir, r_record = jget doc ''record'', r_units = us\<rparr>)
      | _ \<Rightarrow> None)"

section \<open>The contract's terms\<close>

text \<open>What a duel reads of its contract; \<open>None\<close> where the contract lacks it, which a validated one does
  not. \<open>tm_flush\<close> is read only when clips are flushed, and is not validated.\<close>

record terms =
  tm_version :: int
  tm_schema :: int
  tm_size :: string
  tm_skills :: "string list"
  tm_margin :: rat
  tm_max_void :: rat
  tm_units :: nat
  tm_view :: string
  tm_demonstration :: json
  tm_benchmarks :: "string list"
  tm_format :: string
  tm_demo_media :: bool
  tm_bucket :: nat
  tm_policy_budget :: rat
  tm_flush :: "int option"

definition terms_of :: "contract \<Rightarrow> string \<Rightarrow> string option \<Rightarrow> terms option" where
  "terms_of sp trk sz =
     Option.bind (spec_version sp) (\<lambda>ver. Option.bind (store_schema sp) (\<lambda>schema.
     Option.bind (size_of sp trk sz) (\<lambda>size. Option.bind (skills sp trk) (\<lambda>sks.
     Option.bind (margin_of sp trk) (\<lambda>margin. Option.bind (max_void_fraction sp trk) (\<lambda>most.
     Option.bind (units_per_skill sp trk (Some size)) (\<lambda>n. Option.bind (demo_view sp trk) (\<lambda>view.
     Option.bind (demonstration sp trk) (\<lambda>demo. Option.bind (benchmarks_of sp trk) (\<lambda>names.
     Option.bind (video_format sp) (\<lambda>fmt. Option.bind (as_int (jget (spec_section sp ''store'') ''media_bucket_hex'')) (\<lambda>bucket.
     Option.bind (Option.bind (key_of (spec_section sp ''budgets'') ''policy_budget_seconds'') to_float) (\<lambda>budget.
       Some \<lparr>tm_version = ver, tm_schema = schema, tm_size = size, tm_skills = sks, tm_margin = margin, tm_max_void = most,
         tm_units = n, tm_view = view, tm_demonstration = demo, tm_benchmarks = names, tm_format = fmt,
         tm_demo_media = truthy (jget_or (spec_section sp ''media'') ''demo_video'' (JBool True)), tm_bucket = nat bucket,
         tm_policy_budget = budget,
         tm_flush = Option.bind (key_of (spec_section sp ''live'') ''media_flush_units'') as_int\<rparr>)))))))))))))"

section \<open>The host\<close>

text \<open>What the world answers while a duel runs: the clock's texts, the runtime (\<open>fetch\<close>, \<open>prepare\<close>), the
  benchmarks, every unit's materialization and turns, the clips' bytes, the mirror.\<close>

datatype answer = Given json | Refuses string | Down string | Crashes string

record host =
  h_asked_at :: string
  h_finished_at :: string
  h_sent_at :: "nat \<Rightarrow> string"
  h_wall :: rat
  h_runtime :: string
  h_resolve :: "string \<Rightarrow> string option"
  h_derive :: derive_fn
  h_text :: "derivation_error \<Rightarrow> string"
  h_fetch :: "string \<Rightarrow> answer"
  h_prepare :: "string \<Rightarrow> answer"
  h_mat :: "json \<Rightarrow> mat_world"
  h_turn :: "string \<Rightarrow> json \<Rightarrow> side_turn"
  h_clip :: "string \<Rightarrow> string option"
  h_info :: "string \<Rightarrow> json"
  h_installed :: "string \<Rightarrow> json"
  h_mirror :: "(nat \<Rightarrow> bool) option"
  h_signer :: signer
  h_verify :: verifier

record hosting =
  hs_store :: store
  hs_runs :: "(string \<times> files) list"
  hs_frames :: "(json \<times> bool) list"
  hs_mirrored :: "string list list"
  hs_pushes :: nat

definition run_file :: "string \<Rightarrow> string \<Rightarrow> 'a hosting_scheme \<Rightarrow> string option" where
  "run_file dir name st = Option.bind (map_of (hs_runs st) dir) (\<lambda>fs. read_file fs name)"

definition set_run_file :: "string \<Rightarrow> string \<Rightarrow> string \<Rightarrow> 'a hosting_scheme \<Rightarrow> 'a hosting_scheme" where
  "set_run_file dir name content st =
     st\<lparr>hs_runs := upd dir (put name content (case map_of (hs_runs st) dir of None \<Rightarrow> [] | Some fs \<Rightarrow> fs)) (hs_runs st)\<rparr>"

definition unlink_run_file :: "string \<Rightarrow> string \<Rightarrow> 'a hosting_scheme \<Rightarrow> 'a hosting_scheme" where
  "unlink_run_file dir name st = (case map_of (hs_runs st) dir of None \<Rightarrow> st
     | Some fs \<Rightarrow> st\<lparr>hs_runs := upd dir (filter (\<lambda>f. fst f \<noteq> name) fs) (hs_runs st)\<rparr>)"

definition read_run_json :: "string \<Rightarrow> string \<Rightarrow> 'a hosting_scheme \<Rightarrow> json" where
  "read_run_json dir name st = (case run_file dir name st of None \<Rightarrow> JNull
     | Some tx \<Rightarrow> (case loads tx of None \<Rightarrow> JNull | Some v \<Rightarrow> v))"

definition write_run_json :: "string \<Rightarrow> string \<Rightarrow> json \<Rightarrow> 'a hosting_scheme \<Rightarrow> 'a hosting_scheme" where
  "write_run_json dir name doc st = set_run_file dir name (pretty_json doc) st"

text \<open>\<open>move_aside\<close>: the first free name; there are no more names taken than directories.\<close>

fun free_name :: "nat \<Rightarrow> string list \<Rightarrow> string \<Rightarrow> nat \<Rightarrow> string" where
  "free_name 0 taken base n = base @ str_of_nat n"
| "free_name (Suc fuel) taken base n =
     (if base @ str_of_nat n \<in> set taken then free_name fuel taken base (Suc n) else base @ str_of_nat n)"

definition move_aside :: "string \<Rightarrow> string \<Rightarrow> 'a hosting_scheme \<Rightarrow> string option \<times> 'a hosting_scheme" where
  "move_aside dir why st =
     (let names = map fst (hs_runs st) in
      if dir \<notin> set names then (None, st)
      else let target = free_name (length names) names (dir @ ''.'' @ why @ ''-'') 1 in
        (Some target, st\<lparr>hs_runs := map (\<lambda>d. (if fst d = dir then target else fst d, snd d)) (hs_runs st)\<rparr>))"

text \<open>The fuel is enough: of one more name than are taken, one is free.\<close>

lemma free_name_taken:
  "free_name fuel taken base n \<in> set taken \<Longrightarrow> (\<lambda>i. base @ str_of_nat i) ` {n..n + fuel} \<subseteq> set taken"
proof (induction fuel taken base n rule: free_name.induct)
  case (2 fuel taken base n)
  then have "(\<lambda>i. base @ str_of_nat i) ` {Suc n..Suc n + fuel} \<subseteq> set taken" and "base @ str_of_nat n \<in> set taken"
    by (auto split: if_splits)
  moreover have "{n..n + Suc fuel} = insert n {Suc n..Suc n + fuel}" by auto
  ultimately show ?case by simp
qed simp

lemma free_name_free: "free_name (length taken) taken base n \<notin> set taken"
proof
  let ?names = "(\<lambda>i. base @ str_of_nat i) ` {n..n + length taken}"
  assume "free_name (length taken) taken base n \<in> set taken"
  from card_mono [OF finite_set free_name_taken [OF this]] have "card ?names \<le> length taken"
    using card_length [of taken] by linarith
  moreover have "card ?names = Suc (length taken)" by (subst card_image) (auto simp: inj_on_def)
  ultimately show False by simp
qed

text \<open>\<open>push_touched\<close>: what a push could not deliver stays touched.\<close>

definition push_touched :: "host \<Rightarrow> 'a hosting_scheme \<Rightarrow> 'a hosting_scheme" where
  "push_touched ho st =
     (case h_mirror ho of None \<Rightarrow> st
      | Some taken \<Rightarrow>
          (let (names, drained) = drain_touched (hs_store st) in
           if names = [] then st
           else if taken (hs_pushes st)
           then st\<lparr>hs_store := drained, hs_mirrored := hs_mirrored st @ [names], hs_pushes := hs_pushes st + 1\<rparr>
           else st\<lparr>hs_store := drained\<lparr>touched := names\<rparr>, hs_pushes := hs_pushes st + 1\<rparr>))"

section \<open>A running duel\<close>

record job =
  j_sp :: contract
  j_terms :: terms
  j_host :: host
  j_req :: duel_request
  j_dir :: string
  j_started :: string
  j_defs :: "json list"

definition j_duel_id :: "job \<Rightarrow> string" where
  "j_duel_id j = request_duel_id (tm_version (j_terms j)) (j_req j)"

definition j_event_id :: "job \<Rightarrow> string" where
  "j_event_id j = request_event_id (tm_version (j_terms j)) (j_req j)"

record duel = hosting +
  d_units :: "json list"
  d_prepared :: items
  d_prompts :: "prompt table"
  d_sides :: items
  d_phase :: string
  d_side :: "string option"
  d_current :: json
  d_recent :: json
  d_message :: string
  d_pending :: "((string \<times> string) \<times> string) list"
  d_forfeit :: "string option"
  d_raised :: "string option"

text \<open>\<open>_post\<close>: a frame that cannot be built is skipped, any other is handed to the reporter.\<close>

definition post_frame :: "job \<Rightarrow> bool \<Rightarrow> duel \<Rightarrow> duel" where
  "post_frame j force d =
     (case build_frame (j_sp j)
        \<lparr>f_track = q_track (j_req j), f_validator_key = verify_key (h_signer (j_host j)), f_event_id = j_event_id j,
         f_kind = request_kind (j_req j), f_duel_size = Some (tm_size (j_terms j)),
         f_king = opt_json ref_as_dict (q_king (j_req j)), f_challenger = ref_as_dict (q_challenger (j_req j)),
         f_phase = d_phase d, f_side = d_side d, f_units = d_units d, f_current = d_current d,
         f_recent_media = d_recent d, f_message = d_message d, f_started_at = j_started j\<rparr>
        (h_sent_at (j_host j) (length (hs_frames d))) of
      Inl _ \<Rightarrow> d
    | Inr frame \<Rightarrow> d\<lparr>hs_frames := hs_frames d @ [(frame, force)]\<rparr>)"

definition say :: "job \<Rightarrow> string \<Rightarrow> duel \<Rightarrow> duel" where
  "say j msg d = post_frame j False (d\<lparr>d_message := msg\<rparr>)"

definition enter :: "job \<Rightarrow> string \<Rightarrow> string option \<Rightarrow> string \<Rightarrow> duel \<Rightarrow> duel" where
  "enter j phase side msg d = post_frame j True (d\<lparr>d_phase := phase, d_side := side, d_message := msg\<rparr>)"

text \<open>\<open>row\<close>: the first row of the unit; rows are changed in place.\<close>

fun update_row :: "string \<Rightarrow> (json \<Rightarrow> json) \<Rightarrow> json list \<Rightarrow> json list" where
  "update_row uid f [] = []"
| "update_row uid f (u # us) = (if jget u ''unit_id'' = JStr uid then f u # us else u # update_row uid f us)"

fun row_of :: "string \<Rightarrow> json list \<Rightarrow> json" where
  "row_of uid [] = JNull"
| "row_of uid (u # us) = (if jget u ''unit_id'' = JStr uid then u else row_of uid us)"

definition has_row :: "string \<Rightarrow> json list \<Rightarrow> bool" where
  "has_row uid us \<longleftrightarrow> list_ex (\<lambda>u. jget u ''unit_id'' = JStr uid) us"

definition certainly_void :: "job \<Rightarrow> duel \<Rightarrow> bool" where
  "certainly_void j d \<longleftrightarrow> too_void (d_units d) (tm_max_void (j_terms j))"

section \<open>The callbacks\<close>

definition prompt_row :: "prompt \<Rightarrow> json \<Rightarrow> json" where
  "prompt_row p row =
     (if p_void p then jset (jset (jset row ''void'' (JBool True)) ''challenger_error'' (p_error p)) ''king_error'' (p_error p)
      else let row1 = jset (jset row ''prompt'' (jset (jget row ''prompt'') ''sha256'' (p_sha p))) ''prompt_sha256'' (p_sha p) in
        case p_scene p of None \<Rightarrow> row1
        | Some seed \<Rightarrow> jset row1 ''instance_params'' (jset (jget row1 ''instance_params'') ''scene_seed'' (JInt seed)))"

definition on_prompt :: "job \<Rightarrow> json \<Rightarrow> prompt \<Rightarrow> duel \<Rightarrow> duel" where
  "on_prompt j unit p d =
     (let d1 = d\<lparr>d_units := update_row (p_unit p) (prompt_row p) (d_units d)\<rparr>;
          count_done = (\<lambda>d. length (filter (\<lambda>u. truthy (jget u ''prompt_sha256'') \<or> truthy (jget u ''void'')) (d_units d)));
          told = (\<lambda>d. say j (''materialized '' @ str_of_nat (count_done d) @ '' of '' @ str_of_nat (length (d_units d)) @ '': '' @ p_unit p) d)
      in if \<not> p_void p \<and> p_clip p \<noteq> None \<and> tm_demo_media (j_terms j) then
           (case h_clip (j_host j) (''prompts/'' @ the (p_clip p)) of
              None \<Rightarrow> d1\<lparr>d_raised := Some ''FileNotFoundError''\<rparr>
            | Some bytes \<Rightarrow>
                (let (sha, store') = put_media (tm_bucket (j_terms j)) bytes (tm_format (j_terms j)) (hs_store d1)
                 in told (d1\<lparr>hs_store := store', d_units := update_row (p_unit p) (\<lambda>r. jset r ''demo_video'' (JStr sha)) (d_units d1)\<rparr>)))
         else told d1)"

text \<open>\<open>_rate\<close>: a progress the schema can hold.\<close>

definition rate :: "json \<Rightarrow> json" where
  "rate v = (case v of JBool b \<Rightarrow> JNull
     | _ \<Rightarrow> (case num_of v of None \<Rightarrow> JNull | Some q \<Rightarrow> if 0 \<le> q \<and> q \<le> 1 then JFloat q else JNull))"

definition merged_row :: "string \<Rightarrow> json \<Rightarrow> json \<Rightarrow> json" where
  "merged_row side rec row =
     (let row1 = jset row (side @ ''_error'') (jget rec ''error'');
          row2 = (if truthy (jget rec ''void'') then jset (jset row1 ''void'' (JBool True)) (side @ ''_success'') JNull
            else jset (jset (jset (jset row1 (side @ ''_success'') (JBool (truthy (jget rec ''success''))))
                   (side @ ''_steps'') (jget rec ''steps'')) (side @ ''_progress'') (rate (jget rec ''progress'')))
                   (side @ ''_metric'') (jget rec ''metric''))
      in if truthy (jget row2 ''void'')
         then jset (jset (jset row2 ''challenger_success'' JNull) ''king_success'' JNull) ''outcome'' (JStr ''tie'')
         else jset row2 ''outcome'' (JStr (paired_outcome (jget row2 ''king_success'') (jget row2 ''challenger_success''))))"

definition pend :: "string \<times> string \<Rightarrow> string \<Rightarrow> ((string \<times> string) \<times> string) list \<Rightarrow> ((string \<times> string) \<times> string) list" where
  "pend k path ps = (if k \<in> set (map fst ps) then map (\<lambda>q. if fst q = k then (k, path) else q) ps else ps @ [(k, path)])"

definition merge_record :: "string \<Rightarrow> json \<Rightarrow> duel \<Rightarrow> duel" where
  "merge_record side rec d =
     (let uid = unit_name rec; row = row_of uid (d_units d);
          shown = (\<not> truthy (jget rec ''void'') \<and> truthy (jget rec ''clip'') \<and> \<not> truthy (jget row (side @ ''_video'')))
      in d\<lparr>d_units := update_row uid (merged_row side rec) (d_units d),
           d_pending := (if shown then pend (side, uid) (side @ ''/'' @ py_str (jget rec ''clip'')) (d_pending d) else d_pending d)\<rparr>)"

definition flush_one :: "job \<Rightarrow> (string \<times> string) \<times> string \<Rightarrow> duel \<Rightarrow> duel" where
  "flush_one j p d =
     (case p of ((side, uid), path) \<Rightarrow>
        (case h_clip (j_host j) path of None \<Rightarrow> d
         | Some bytes \<Rightarrow>
             (let (sha, store') = put_media (tm_bucket (j_terms j)) bytes (tm_format (j_terms j)) (hs_store d);
                  rows = update_row uid (\<lambda>r. jset r (side @ ''_video'') (JStr sha)) (d_units d);
                  row = row_of uid rows
              in d\<lparr>hs_store := store', d_units := rows,
                   d_recent := JObj [(''unit'', JObj [(''unit_id'', JStr uid), (''skill'', jget row ''skill''), (''task'', jget row ''task''),
                        (''task_label'', jget row ''task_label''), (''instance'', jget row ''instance'')]),
                     (''side'', JStr side), (''demo_video'', jget row ''demo_video''), (''video'', JStr sha),
                     (''success'', jget row (side @ ''_success''))]\<rparr>)))"

definition flush_media :: "job \<Rightarrow> bool \<Rightarrow> duel \<Rightarrow> duel" where
  "flush_media j force d =
     (case tm_flush (j_terms j) of None \<Rightarrow> d\<lparr>d_raised := Some ''KeyError: media_flush_units''\<rparr>
      | Some every \<Rightarrow>
          if d_pending d = [] \<or> (\<not> force \<and> int (length (d_pending d)) < max 1 every) then d
          else push_touched (j_host j) (foldl (\<lambda>d p. flush_one j p d) (d\<lparr>d_pending := []\<rparr>) (d_pending d)))"

definition on_start :: "job \<Rightarrow> string \<Rightarrow> json \<Rightarrow> duel \<Rightarrow> duel" where
  "on_start j side unit d =
     say j (side @ '': '' @ unit_name unit)
       (d\<lparr>d_current := JObj [(''unit_id'', jget unit ''unit_id''), (''skill'', jget unit ''skill''), (''task'', jget unit ''task''),
          (''task_label'', jget unit ''task_label''), (''instance'', jget unit ''instance''), (''side'', JStr side),
          (''demo_video'', jget (row_of (unit_name unit) (d_units d)) ''demo_video'')]\<rparr>)"

definition on_unit :: "job \<Rightarrow> string \<Rightarrow> json \<Rightarrow> json \<Rightarrow> duel \<Rightarrow> duel" where
  "on_unit j side unit rec d =
     (let d1 = flush_media j False (merge_record side rec d);
          word = (if truthy (jget rec ''void'') then ''void'' else if truthy (jget rec ''success'') then ''ok'' else ''fail'')
      in if d_raised d1 \<noteq> None then d1
         else say j (side @ '': '' @ unit_name rec @ '' '' @ word) (d1\<lparr>d_current := JNull\<rparr>))"

end
