(* ===== verification/Duel.thy ===== *)
theory Duel
  imports Duel_Run Store_Log
begin

text \<open>
  \<open>duel/orchestrate.py\<close>: a duel from request to published record. \<open>run_duel\<close> is \<open>Orchestrator.run\<close>
  on a host: it returns a result or the reason the duel stopped, and the host it leaves behind -
  the store, every run directory, the frames posted and the files mirrored.
\<close>

section \<open>Outcomes of a run\<close>

text \<open>\<open>Escaped\<close> is an exception raised outside the try of \<open>run\<close>.\<close>

datatype stop =
    Crown_Moved string "string option"
  | Harness_Unavailable string
  | Duel_Failed string
  | Escaped string

definition other_side :: "string \<Rightarrow> string" where
  "other_side side = (if side = ''challenger'' then ''king'' else ''challenger'')"

definition sides_of :: "duel_request \<Rightarrow> (string \<times> submission_ref) list" where
  "sides_of q = (''challenger'', q_challenger q) # (case q_king q of None \<Rightarrow> [] | Some k \<Rightarrow> [(''king'', k)])"

definition run_dir :: "int \<Rightarrow> duel_request \<Rightarrow> string" where
  "run_dir ver q = q_track q @ ''/'' @ take 16 (request_event_id ver q)"

section \<open>The run directory\<close>

definition holds_request :: "terms \<Rightarrow> duel_request \<Rightarrow> 'a hosting_scheme \<Rightarrow> bool" where
  "holds_request tm q st =
     (let doc = read_run_json (run_dir (tm_version tm) q) ''request.json'' st in
      is_obj doc \<and> py_eq (jdel doc ''started_at'') (request_dict (tm_version tm) (tm_size tm) q))"

definition record_request :: "terms \<Rightarrow> host \<Rightarrow> duel_request \<Rightarrow> 'a hosting_scheme \<Rightarrow> json \<times> 'a hosting_scheme" where
  "record_request tm ho q st =
     (let dir = run_dir (tm_version tm) q; existing = read_run_json dir ''request.json'' st;
          doc = jset (request_dict (tm_version tm) (tm_size tm) q) ''started_at'' (JStr (h_asked_at ho)) in
      if is_obj existing \<and> holds_request tm q st then (existing, st)
      else let st1 = (if is_obj existing then snd (move_aside dir ''stale'' st) else st)
           in (doc, write_run_json dir ''request.json'' doc st1))"

text \<open>\<open>outcome\<close>: nothing decided, a decision, or (\<open>None\<close>) a file that raises.\<close>

definition outcome_of :: "string \<Rightarrow> 'a hosting_scheme \<Rightarrow> duel_result option option" where
  "outcome_of dir st =
     (let doc = read_run_json dir ''outcome.json'' st in
      if is_obj doc then map_option Some (result_from_dict doc) else Some None)"

definition holder_of :: "string \<Rightarrow> store \<Rightarrow> json" where
  "holder_of trk st = (let holder = jget (or_empty (head trk st)) ''king'' in if truthy holder then holder else JNull)"

definition crown_held :: "duel_request \<Rightarrow> store \<Rightarrow> bool" where
  "crown_held q st \<longleftrightarrow> py_eq (holder_of (q_track q) st) (opt_json ref_as_dict (q_king q))"

text \<open>\<open>_check_crown\<close> when the crown has moved: the stop, and the host with the run moved aside.\<close>

definition crown_reason :: "duel_request \<Rightarrow> store \<Rightarrow> string" where
  "crown_reason q st =
     (let holder = holder_of (q_track q) st in
      ''the crown moved from '' @ (case q_king q of None \<Rightarrow> ''nobody'' | Some k \<Rightarrow> entry k) @ '' to ''
        @ (if is_obj holder then py_str (jget holder ''repo'') else ''nobody'') @ '' since this duel was asked for'')"

definition crown_stop :: "duel_request \<Rightarrow> string \<Rightarrow> 'a hosting_scheme \<Rightarrow> stop \<times> 'a hosting_scheme" where
  "crown_stop q dir st = (let (moved, st') = move_aside dir ''stale'' st in (Crown_Moved (crown_reason q (hs_store st)) moved, st'))"

section \<open>What was published\<close>

text \<open>\<open>_published\<close>: the newest record of the event; \<open>None\<close> where reading the index raises.\<close>

definition published :: "string \<Rightarrow> string \<Rightarrow> store \<Rightarrow> json option option" where
  "published trk ev st =
     map_option (\<lambda>rs. first_some (\<lambda>r. if jget r ''event_id'' = JStr ev then Some r else None) (rev rs)) (iter_index (disk st) trk)"

definition touch_files :: "string list \<Rightarrow> store \<Rightarrow> store" where
  "touch_files paths st = foldl (\<lambda>st p. if read_file (disk st) p = None then st else touch p st) st paths"

text \<open>\<open>_republished\<close>: the head rebuilt, the files touched and pushed, the outcome written.\<close>

definition republished :: "contract \<Rightarrow> terms \<Rightarrow> host \<Rightarrow> duel_request \<Rightarrow> json \<Rightarrow> 'a hosting_scheme
    \<Rightarrow> (stop + duel_result) \<times> 'a hosting_scheme" where
  "republished sp tm ho q rec st =
     (let trk = q_track q; ev = py_str (jget rec ''event_id'') in
      case rebuild_head sp (h_verify ho) (verify_key (h_signer ho)) trk (hs_store st) of
        (Inl e, store1) \<Rightarrow> (Inl (Escaped ''rebuild_head''), st\<lparr>hs_store := store1\<rparr>)
      | (Inr _, store1) \<Rightarrow>
          (let event = or_empty (read_event trk ev store1);
               units = filter is_obj (case jget event ''units'' of JArr us \<Rightarrow> us | _ \<Rightarrow> []);
               part = part_of sp (case as_int (jget rec ''seq'') of None \<Rightarrow> 1 | Some n \<Rightarrow> n);
               paths = [event_path trk ev, index_part_path trk part, head_path trk]
                 @ map (\<lambda>sha. media_path (tm_bucket tm) sha (tm_format tm)) (media_shas units);
               st1 = push_touched ho (st\<lparr>hs_store := touch_files paths store1\<rparr>);
               why = jget (jget event ''scoring'') ''reason'';
               dir = run_dir (tm_version tm) q;
               res = \<lparr>r_status = ''published'',
                 r_kind = (if truthy (jget rec ''kind'') then py_str (jget rec ''kind'') else request_kind q),
                 r_event_id = ev, r_duel_id = request_duel_id (tm_version tm) q,
                 r_reason = (if truthy why then py_str why else py_str (jget rec ''kind'')),
                 r_run_dir = dir, r_record = rec, r_units = units\<rparr>
           in (Inr res, write_run_json dir ''outcome.json'' (result_dict res) st1)))"

section \<open>Deciding without a record\<close>

definition decided :: "job \<Rightarrow> string \<Rightarrow> string \<Rightarrow> duel \<Rightarrow> duel_result \<times> duel" where
  "decided j status why d =
     (let res = \<lparr>r_status = status, r_kind = request_kind (j_req j), r_event_id = j_event_id j, r_duel_id = j_duel_id j,
            r_reason = why, r_run_dir = j_dir j, r_record = JNull, r_units = d_units d\<rparr>
      in (res, enter j ''failed'' None (status @ '': '' @ why)
           (write_run_json (j_dir j) ''outcome.json'' (jset (result_dict res) ''sides'' (JObj (d_sides d))) d)))"

definition void_duel :: "job \<Rightarrow> string \<Rightarrow> duel \<Rightarrow> duel_result \<times> duel" where
  "void_duel j why d = decided j ''void'' why d"

definition refused_duel :: "job \<Rightarrow> string \<Rightarrow> duel \<Rightarrow> duel_result \<times> duel" where
  "refused_duel j why d =
     decided j ''refused'' why
       (d\<lparr>d_units := map (\<lambda>r. jset (jset r ''challenger_success'' (JBool False)) ''challenger_error'' (JStr why)) (d_units d)\<rparr>)"

section \<open>Fetching and checking\<close>

fun fetch_sides :: "host \<Rightarrow> string list \<Rightarrow> string list \<Rightarrow> string table \<Rightarrow> stop + (string list \<times> string table)" where
  "fetch_sides ho [] fetched refused = Inr (fetched, refused)"
| "fetch_sides ho (s # ss) fetched refused =
     (if s \<in> set (map fst refused) then fetch_sides ho ss fetched refused
      else case h_fetch ho s of
        Given _ \<Rightarrow> fetch_sides ho ss (fetched @ [s]) refused
      | Refuses why \<Rightarrow> (if s = ''challenger'' then Inr (fetched, upd s why refused) else fetch_sides ho ss fetched (upd s why refused))
      | Down why \<Rightarrow> Inl (Harness_Unavailable (''fetching the '' @ s @ '': '' @ why))
      | Crashes why \<Rightarrow> Inl (Duel_Failed why))"

fun prepare_sides :: "job \<Rightarrow> string list \<Rightarrow> string list \<Rightarrow> string table \<Rightarrow> duel \<Rightarrow> (stop + string table) \<times> duel" where
  "prepare_sides j [] fetched refused d = (Inr refused, d)"
| "prepare_sides j (s # ss) fetched refused d =
     (if ''challenger'' \<in> set (map fst refused) then (Inr refused, d)
      else if s \<in> set (map fst refused) \<or> s \<notin> set fetched then prepare_sides j ss fetched refused d
      else let d1 = say j (''checking the '' @ s) d in
        case h_prepare (j_host j) s of
          Given doc \<Rightarrow> prepare_sides j ss fetched refused (d1\<lparr>d_prepared := upd s doc (d_prepared d1)\<rparr>)
        | Refuses why \<Rightarrow> prepare_sides j ss fetched (upd s why refused) d1
        | Down why \<Rightarrow> (Inl (Harness_Unavailable (''checking the '' @ s @ '': '' @ why)), d1)
        | Crashes why \<Rightarrow> (Inl (Duel_Failed why), d1))"

definition side_meta :: "job \<Rightarrow> string \<Rightarrow> submission_ref \<Rightarrow> string option \<Rightarrow> duel \<Rightarrow> json" where
  "side_meta j side ref refused d =
     jupdate (jupdate (ref_as_dict ref)
         (case map_of (d_prepared d) side of Some doc \<Rightarrow> jitems doc
          | None \<Rightarrow> [(''commit'', JNull), (''base_image_digest'', JNull)]))
       [(''runtime'', JStr (h_runtime (j_host j))), (''refused'', opt_json JStr refused)]"

section \<open>Evaluating a side\<close>

definition side_file :: "string \<Rightarrow> string" where
  "side_file side = side @ ''/results.jsonl''"

definition void_on_other :: "string \<Rightarrow> json table \<Rightarrow> string table" where
  "void_on_other side results =
     map (\<lambda>r. (fst r, ''void on the '' @ other_side side @ [CHR 0x27] @ ''s side: '' @ py_str (jget (snd r) ''error'')))
       (filter (\<lambda>r. truthy (jget (snd r) ''void'')) results)"

definition wall_total :: "json table \<Rightarrow> rat option" where
  "wall_total results = map_option (\<lambda>ws. round3 (fsum ws)) (all_some (map (\<lambda>r. float_or_zero (jget (snd r) ''wall_s'')) results))"

definition eval_args :: "job \<Rightarrow> string \<Rightarrow> duel \<Rightarrow> side_args" where
  "eval_args j side d =
     \<lparr>sa_side = side, sa_prepared = (map_of (d_prepared d) side \<noteq> None),
      sa_refused = (if side = ''king'' then d_forfeit d else None),
      sa_void_units = void_on_other side (read_results (run_file (j_dir j) (side_file (other_side side)) d)),
      sa_policy_budget = tm_policy_budget (j_terms j), sa_prompts = d_prompts d\<rparr>"

definition stop_side :: "job \<Rightarrow> duel \<Rightarrow> bool" where
  "stop_side j d \<longleftrightarrow> d_raised d \<noteq> None \<or> certainly_void j d"

definition set_run_text :: "string \<Rightarrow> string \<Rightarrow> string option \<Rightarrow> 'a hosting_scheme \<Rightarrow> 'a hosting_scheme" where
  "set_run_text dir name tx st = (case tx of None \<Rightarrow> st | Some t \<Rightarrow> set_run_file dir name t st)"

definition play_side :: "job \<Rightarrow> string \<Rightarrow> duel \<Rightarrow> duel" where
  "play_side j side d =
     (let out = run_side (eval_args j side d) (h_turn (j_host j) side) (stop_side j) (on_start j side) (on_unit j side)
            (j_defs j) (run_file (j_dir j) (side_file side) d) d
      in set_run_text (j_dir j) (side_file side) (s_text out) (s_caller out))"

definition evaluate :: "job \<Rightarrow> string \<Rightarrow> duel \<Rightarrow> duel" where
  "evaluate j side d =
     (let d1 = enter j ''evaluating'' (Some side) (''evaluating '' @ side) d;
          finished = map snd (read_results (run_file (j_dir j) (side_file side) d1)) in
      if \<not> list_all (\<lambda>r. has_row (unit_name r) (d_units d1)) finished then d1\<lparr>d_raised := Some ''StopIteration''\<rparr>
      else let d2 = play_side j side (foldl (\<lambda>d r. merge_record side r d) d1 finished) in
        if d_raised d2 \<noteq> None then d2
        else let d3 = flush_media j True d2; results = read_results (run_file (j_dir j) (side_file side) d3) in
          if d_raised d3 \<noteq> None then d3
          else case wall_total results of None \<Rightarrow> d3\<lparr>d_raised := Some ''TypeError''\<rparr>
          | Some wall \<Rightarrow>
              d3\<lparr>d_sides := upd side (jupdate (case map_of (d_sides d3) side of None \<Rightarrow> JObj [] | Some m \<Rightarrow> m)
                   [(''wall_seconds'', JFloat wall), (''units'', JInt (int (length results))),
                    (''void'', JInt (int (length (filter (\<lambda>r. truthy (jget (snd r) ''void'')) results))))]) (d_sides d3)\<rparr>)"

section \<open>Publishing\<close>

text \<open>\<open>f"{x:+.2f}"\<close> and \<open>f"{x:g}"\<close>.\<close>

definition points_text :: "rat \<Rightarrow> string" where
  "points_text x = (let n = nat (rne (\<bar>x\<bar> * 100)) in
     (if x < 0 then ''-'' else ''+'') @ str_of_nat (n div 100) @ ''.'' @ zpad 2 (n mod 100))"

definition general_text :: "rat \<Rightarrow> string" where
  "general_text x = (if x = 0 then ''0'' else
     let (d, k) = dec_round x 6; ds = digits_of (nat d);
         trim = (\<lambda>s. rev (dropWhile (\<lambda>c. c = CHR ''0'') (rev s)));
         dotted = (\<lambda>front rest. if rest = [] then front else front @ ''.'' @ rest);
         body = (if - 4 \<le> k \<and> k < 6 then
             (if k < 0 then ''0.'' @ replicate (nat (- k - 1)) (CHR ''0'') @ trim ds
              else dotted (take (nat k + 1) ds) (trim (drop (nat k + 1) ds)))
           else dotted (take 1 ds) (trim (drop 1 ds)) @ ''e'' @ (if k < 0 then ''-'' else ''+'') @ zpad 2 (nat \<bar>k\<bar>))
     in (if x < 0 then ''-'' else []) @ body)"

definition note_text :: "string \<Rightarrow> string \<Rightarrow> rat option \<Rightarrow> rat \<Rightarrow> string" where
  "note_text kind why delta margin =
     (if kind = ''genesis'' then ''The first entrant took the empty throne, scored on its own units.''
      else ''Crown rule: '' @ why @ '' ('' @ (case delta of None \<Rightarrow> ''unscored'' | Some x \<Rightarrow> points_text x @ '' points'')
        @ '' against a margin of '' @ general_text margin @ '').'')"

definition as_king :: "json \<Rightarrow> json" where
  "as_king row =
     jset (foldl (\<lambda>out f. jset (jset out (''king_'' @ f) (jget row (''challenger_'' @ f))) (''challenger_'' @ f) JNull) row
        [''success'', ''video'', ''progress'', ''metric'', ''steps'', ''error'']) ''outcome'' (JStr ''tie'')"

definition prompts_published :: "duel \<Rightarrow> json list" where
  "prompts_published d =
     map (\<lambda>e. jset e ''demo_video'' (jget (row_of (py_str (jget e ''unit_id'')) (d_units d)) ''demo_video'')) (published_prompts (d_prompts d))"

definition benchmark_info :: "job \<Rightarrow> json" where
  "benchmark_info j = JObj (map (\<lambda>b. (b, JObj [(''info'', h_info (j_host j) b),
     (''pin'', or_empty (case benchmark_pin (j_sp j) b of None \<Rightarrow> JNull | Some p \<Rightarrow> p)),
     (''installed_version'', h_installed (j_host j) b)])) (tm_benchmarks (j_terms j)))"

text \<open>What is scored: the rows published, the arguments of the record, and the scoring block.\<close>

definition scored_record :: "job \<Rightarrow> duel \<Rightarrow> json list \<times> record_args \<times> json" where
  "scored_record j d =
     (let tm = j_terms j; q = j_req j; genesis = (q_king q = None);
          units = (if genesis then map as_king (d_units d) else d_units d);
          v = verdict_of units (tm_margin tm) (tm_skills tm);
          args = \<lparr>a_schema = tm_schema tm, a_event_id = j_event_id j, a_kind = request_kind q, a_track = q_track q,
            a_block = q_block q, a_finished_at = h_finished_at (j_host j),
            a_king = (if genesis then Some (q_challenger q) else q_king q),
            a_challenger = (if genesis then None else Some (q_challenger q)),
            a_king_scores = Some (if genesis then skill_scores units ''king'' (tm_skills tm) else king_scores v),
            a_challenger_scores = (if genesis then None else Some (challenger_scores v)),
            a_score_margin = tm_margin tm, a_dethroned = (\<not> genesis \<and> dethroned v),
            a_new_king = (if \<not> genesis \<and> dethroned v then Some (q_challenger q) else None),
            a_tally = unit_tally units, a_media_count = length (media_shas units), a_duel_size = Some (tm_size tm),
            a_duel_id = Some (j_duel_id j)\<rparr>
      in (units, args,
          if genesis then JObj [(''reason'', JStr ''genesis''), (''score_margin'', JFloat (tm_margin tm)), (''delta_points'', JNull)]
          else verdict_as_dict v))"

definition published_event :: "job \<Rightarrow> duel \<Rightarrow> json list \<Rightarrow> json \<Rightarrow> json \<Rightarrow> json" where
  "published_event j d units record scoring =
     (let tm = j_terms j; q = j_req j;
          sides = (if q_king q = None
            then JObj [(''king'', case map_of (d_sides d) ''challenger'' of None \<Rightarrow> JObj [] | Some m \<Rightarrow> m)] else JObj (d_sides d));
          delta = (case jget scoring ''delta_points'' of JFloat x \<Rightarrow> Some x | _ \<Rightarrow> None);
          notes = JStr (note_text (request_kind q) (py_str (jget scoring ''reason'')) delta (tm_margin tm))
            # (case d_forfeit d of None \<Rightarrow> [] | Some why \<Rightarrow> if why = [] then [] else [JStr (''king forfeit: '' @ why)]);
          event = duel_event record (tm_version tm) (fingerprint (j_sp j)) units (tm_units tm) (j_started j) (h_wall (j_host j))
            sides notes (tm_demonstration tm) (prompts_published d)
      in jset (jset (jset event ''runtime'' (JStr (h_runtime (j_host j))))
           ''scoring'' (jset (jset scoring ''void_fraction'' (JFloat (void_fraction units))) ''max_void_fraction'' (JFloat (tm_max_void tm))))
           ''benchmarks'' (benchmark_info j))"

definition within_run :: "(stop + 'b) \<times> 'c \<Rightarrow> (stop + 'b) \<times> 'c" where
  "within_run r = (case r of (Inl (Escaped why), st) \<Rightarrow> (Inl (Duel_Failed why), st) | _ \<Rightarrow> r)"

text \<open>The event, the record and the outcome, in this order, once the crown is checked.\<close>

definition publish_record :: "job \<Rightarrow> duel \<Rightarrow> (stop + duel_result) \<times> duel" where
  "publish_record j d =
     (let ho = j_host j; q = j_req j; trk = q_track q; (units, args, scoring) = scored_record j d; record = index_record args;
          store1 = write_event trk (published_event j d units record scoring) (hs_store d) in
      case append_record (j_sp j) (h_verify ho) (Some (h_signer ho)) trk record store1 of
        (Inl _, store2) \<Rightarrow> (Inl (Duel_Failed ''RuntimeError''), d\<lparr>hs_store := store2\<rparr>)
      | (Inr seq, store2) \<Rightarrow>
          (let final = jset record ''seq'' (JInt seq);
               d2 = push_touched ho (d\<lparr>hs_store := store2\<rparr>);
               why = py_str (jget scoring ''reason'');
               res = \<lparr>r_status = ''published'', r_kind = request_kind q, r_event_id = j_event_id j,
                 r_duel_id = j_duel_id j, r_reason = why, r_run_dir = j_dir j, r_record = final, r_units = units\<rparr>;
               d3 = write_run_json (j_dir j) ''outcome.json'' (result_dict res) d2;
               moved = (if truthy (jget final ''dethroned'') \<or> request_kind q = ''genesis'' then ''moves'' else ''stays'')
           in (Inr res, enter j ''done'' None (''the crown '' @ moved @ '': '' @ why) d3)))"

definition publish :: "job \<Rightarrow> duel \<Rightarrow> (stop + duel_result) \<times> duel" where
  "publish j d =
     (let q = j_req j; d1 = enter j ''publishing'' None ''publishing the record'' d in
      case published (q_track q) (j_event_id j) (hs_store d1) of
        None \<Rightarrow> (Inl (Duel_Failed ''TypeError''), d1)
      | Some (Some rec) \<Rightarrow> within_run (republished (j_sp j) (j_terms j) (j_host j) q rec d1)
      | Some None \<Rightarrow>
          if \<not> crown_held q (hs_store d1) then
            (let (st, d2) = crown_stop q (j_dir j) d1
             in (Inl st, enter j ''failed'' None (''stale: '' @ crown_reason q (hs_store d1)) d2))
          else publish_record j d1)"

section \<open>The phases\<close>

fun refused_name :: "host \<Rightarrow> string list \<Rightarrow> string option" where
  "refused_name ho [] = None"
| "refused_name ho (b # bs) = (case h_resolve ho b of None \<Rightarrow> refused_name ho bs | Some why \<Rightarrow> Some why)"

definition derive_rows :: "job \<Rightarrow> duel \<Rightarrow> stop + (job \<times> duel)" where
  "derive_rows j d =
     (let tm = j_terms j; ho = j_host j in
      case refused_name ho (tm_benchmarks tm) of Some why \<Rightarrow> Inl (Harness_Unavailable why)
      | None \<Rightarrow>
          (case plugin_units (j_sp j) (h_derive ho) (q_track (j_req j)) (j_duel_id j) (Some (tm_size tm)) of
             Inl e \<Rightarrow> Inl (Duel_Failed (h_text ho e))
           | Inr us \<Rightarrow> Inr (j\<lparr>j_defs := us\<rparr>,
               d\<lparr>d_units := map (\<lambda>u. jset (unit_verdict_from_unit u (JStr (tm_view tm))) ''prompt_sha256'' JNull) us\<rparr>)))"

fun run_sides :: "job \<Rightarrow> string list \<Rightarrow> duel \<Rightarrow> (stop + duel_result) \<times> duel" where
  "run_sides j [] d = publish j d"
| "run_sides j (s # ss) d =
     (let d1 = evaluate j s d in
      case d_raised d1 of Some why \<Rightarrow> (Inl (Duel_Failed why), d1)
      | None \<Rightarrow>
          if certainly_void j d1 then
            (let (res, d2) = void_duel j (str_of_nat (length (filter (\<lambda>u. truthy (jget u ''void'')) (d_units d1))) @ '' of ''
                   @ str_of_nat (length (d_units d1)) @ '' units are void after the '' @ s @ [CHR 0x27] @ ''s side'') d1
             in (Inr res, d2))
          else run_sides j ss d1)"

definition materialize_phase :: "job \<Rightarrow> duel \<Rightarrow> (stop + unit) \<times> duel" where
  "materialize_phase j d =
     (let d1 = enter j ''materializing'' (d_side d) ''materializing the demonstrations'' d;
          tx = run_file (j_dir j) ''prompts/manifest.jsonl'' d1 in
      case materialize_units (h_mat (j_host j)) (stop_side j) (on_prompt j) (j_defs j) tx d1 of
        Inl st \<Rightarrow> (Inl (Duel_Failed ''TypeError''), set_run_text (j_dir j) ''prompts/manifest.jsonl'' (ms_text st) (ms_caller st))
      | Inr st \<Rightarrow>
          (let d2 = set_run_text (j_dir j) ''prompts/manifest.jsonl'' (ms_text st) (ms_caller st) in
           case d_raised d2 of Some why \<Rightarrow> (Inl (Duel_Failed why), d2)
           | None \<Rightarrow> (Inr (), push_touched (j_host j) (d2\<lparr>d_prompts := ms_prompts st\<rparr>))))"

definition play_phase :: "job \<Rightarrow> duel \<Rightarrow> (stop + duel_result) \<times> duel" where
  "play_phase j d =
     (case materialize_phase j d of
        (Inl st, d1) \<Rightarrow> (Inl st, d1)
      | (Inr _, d1) \<Rightarrow>
          if certainly_void j d1 then
            (let (res, d2) = void_duel j (str_of_nat (void_prompts (d_prompts d1)) @ '' of '' @ str_of_nat (length (d_units d1))
                   @ '' prompts are void'') d1 in (Inr res, d2))
          else run_sides j (map fst (sides_of (j_req j))) d1)"

definition check_phase :: "job \<Rightarrow> string table \<Rightarrow> string list \<Rightarrow> duel \<Rightarrow> (stop + duel_result) \<times> duel" where
  "check_phase j refused fetched d =
     (case prepare_sides j (map fst (sides_of (j_req j))) fetched refused (enter j ''checking'' (d_side d) ''checking and building'' d) of
        (Inl st, d1) \<Rightarrow> (Inl st, d1)
      | (Inr refused1, d1) \<Rightarrow>
          (let d2 = d1\<lparr>d_sides := foldl (\<lambda>m s. upd (fst s) (side_meta j (fst s) (snd s) (map_of refused1 (fst s)) d1) m)
                 (d_sides d1) (sides_of (j_req j))\<rparr> in
           case map_of refused1 ''challenger'' of
             Some why \<Rightarrow> (let (res, d3) = refused_duel j (''the challenger'' @ [CHR 0x27] @ ''s submission was refused: '' @ why) d2
                            in (Inr res, d3))
           | None \<Rightarrow>
               (let d3 = d2\<lparr>d_forfeit := map_of refused1 ''king''\<rparr>;
                    d4 = (case d_forfeit d3 of None \<Rightarrow> d3
                      | Some why \<Rightarrow> write_run_json (j_dir j) ''forfeit.json'' (JObj [(''side'', JStr ''king''), (''reason'', JStr why)]) d3)
                in play_phase j d4)))"

definition recorded_forfeit :: "job \<Rightarrow> duel \<Rightarrow> string table" where
  "recorded_forfeit j d =
     (let doc = read_run_json (j_dir j) ''forfeit.json'' d in
      if q_king (j_req j) \<noteq> None \<and> is_obj doc \<and> truthy (jget doc ''reason'') then [(''king'', py_str (jget doc ''reason''))] else [])"

definition run_phases :: "job \<Rightarrow> duel \<Rightarrow> (stop + duel_result) \<times> duel" where
  "run_phases j d =
     (case derive_rows j d of
        Inl st \<Rightarrow> (Inl st, d)
      | Inr (j1, d1) \<Rightarrow>
          (let refused = recorded_forfeit j1 d1;
               d2 = enter j1 ''fetching'' (d_side d1) ''fetching the submissions'' d1 in
           case fetch_sides (j_host j1) (map fst (sides_of (j_req j1))) [] refused of
             Inl st \<Rightarrow> (Inl st, d2)
           | Inr (fetched, refused1) \<Rightarrow> check_phase j1 refused1 fetched d2))"

definition failed_run :: "job \<Rightarrow> string \<Rightarrow> duel \<Rightarrow> duel" where
  "failed_run j why d = enter j ''failed'' None (''failed: '' @ why) (set_run_file (j_dir j) ''failed.txt'' (why @ [NL]) d)"

definition start_duel :: "'a hosting_scheme \<Rightarrow> duel" where
  "start_duel st =
     \<lparr>hs_store = hs_store st, hs_runs = hs_runs st, hs_frames = hs_frames st, hs_mirrored = hs_mirrored st, hs_pushes = hs_pushes st,
      d_units = [], d_prepared = [], d_prompts = [], d_sides = [], d_phase = ''fetching'', d_side = None, d_current = JNull,
      d_recent = JNull, d_message = [], d_pending = [], d_forfeit = None, d_raised = None\<rparr>"

definition fight :: "job \<Rightarrow> hosting \<Rightarrow> (stop + duel_result) \<times> hosting" where
  "fight j st =
     (case run_phases j (start_duel st) of
        (Inr res, d) \<Rightarrow> (Inr res, hosting.truncate (unlink_run_file (j_dir j) ''failed.txt'' d))
      | (Inl (Crown_Moved why moved), d) \<Rightarrow> (Inl (Crown_Moved why moved), hosting.truncate d)
      | (Inl (Harness_Unavailable why), d) \<Rightarrow> (Inl (Harness_Unavailable why), hosting.truncate (failed_run j why d))
      | (Inl (Duel_Failed why), d) \<Rightarrow> (Inl (Duel_Failed why), hosting.truncate (failed_run j why d))
      | (Inl (Escaped why), d) \<Rightarrow> (Inl (Duel_Failed why), hosting.truncate (failed_run j why d)))"

definition run_duel :: "contract \<Rightarrow> host \<Rightarrow> duel_request \<Rightarrow> hosting \<Rightarrow> (stop + duel_result) \<times> hosting" where
  "run_duel sp ho q st =
     (if q_track q \<notin> set (spec_tracks sp) then (Inl (Duel_Failed (''unknown track '' @ [CHR 0x27] @ q_track q @ [CHR 0x27])), st)
      else case terms_of sp (q_track q) (q_size q) of None \<Rightarrow> (Inl (Escaped ''KeyError''), st)
      | Some tm \<Rightarrow>
        (let dir = run_dir (tm_version tm) q; (request, st1) = record_request tm ho q st in
         case outcome_of dir st1 of
           None \<Rightarrow> (Inl (Escaped ''KeyError''), st1)
         | Some (Some res) \<Rightarrow> (Inr res, st1)
         | Some None \<Rightarrow>
           (case published (q_track q) (request_event_id (tm_version tm) q) (hs_store st1) of
              None \<Rightarrow> (Inl (Escaped ''TypeError''), st1)
            | Some (Some rec) \<Rightarrow> republished sp tm ho q rec st1
            | Some None \<Rightarrow>
                if \<not> crown_held q (hs_store st1) then (let (stp, st2) = crown_stop q dir st1 in (Inl stp, st2))
                else case key_of request ''started_at'' of
                  None \<Rightarrow> (Inl (Escaped ''KeyError''), st1)
                | Some started \<Rightarrow>
                    fight \<lparr>j_sp = sp, j_terms = tm, j_host = ho, j_req = q, j_dir = dir, j_started = py_str started, j_defs = []\<rparr> st1)))"

end
