(* ===== verification/Duel_Steady.thy ===== *)
theory Duel_Steady
  imports Duel
begin

text \<open>
  What a run of a duel leaves alone: until it publishes, no file under \<open>tracks/\<close> and not its own
  request. The properties of \<open>run_duel\<close> follow from that and from the store's log (\<open>Store_Log\<close>).
\<close>

named_theorems steady_rules

section \<open>What the phases leave alone\<close>

definition same_tracks :: "store \<Rightarrow> store \<Rightarrow> bool" where
  "same_tracks s s' \<longleftrightarrow> (\<forall>p. startswith p ''tracks/'' \<longrightarrow> read_file (disk s') p = read_file (disk s) p)"

definition steady :: "string \<Rightarrow> 'a hosting_scheme \<Rightarrow> 'b hosting_scheme \<Rightarrow> bool" where
  "steady dir st st' \<longleftrightarrow> same_tracks (hs_store st) (hs_store st')
     \<and> run_file dir ''request.json'' st' = run_file dir ''request.json'' st"

lemma same_tracks_refl [simp]: "same_tracks s s"
  by (simp add: same_tracks_def)

lemma same_tracks_trans: "same_tracks a b \<Longrightarrow> same_tracks b c \<Longrightarrow> same_tracks a c"
  by (simp add: same_tracks_def)

lemma steady_refl [simp]: "steady dir st st"
  by (simp add: steady_def)

lemma steady_trans: "steady dir a b \<Longrightarrow> steady dir b c \<Longrightarrow> steady dir a c"
  unfolding steady_def using same_tracks_trans by auto

lemma same_tracks_put: "\<not> startswith p ''tracks/'' \<Longrightarrow> same_tracks s (s\<lparr>disk := put p t (disk s)\<rparr>)"
  by (auto simp: same_tracks_def)

lemma same_tracks_touched [simp]:
  "same_tracks s (touch p s)" "same_tracks s (s\<lparr>touched := ps\<rparr>)" "same_tracks (touch p s) s' = same_tracks s s'"
  by (simp_all add: same_tracks_def touch_def)

lemma same_tracks_media: "same_tracks s (snd (put_media n bytes ext s))"
proof -
  have "\<not> startswith (media_path n sha ext) ''tracks/''" for sha by (simp add: media_path_def startswith_def)
  then show ?thesis by (auto simp: put_media_def Let_def same_tracks_def touch_def)
qed

lemma same_tracks_event: "same_tracks s (write_event trk ev s)"
proof -
  have "\<not> startswith (event_path trk e) ''tracks/''" for e by (simp add: event_path_def startswith_def)
  then show ?thesis by (auto simp: write_event_def Let_def write_json_def same_tracks_def touch_def)
qed

lemma same_tracks_touch_files: "same_tracks s (touch_files ps s)"
proof (induction ps arbitrary: s)
  case (Cons p ps)
  have "same_tracks s (if read_file (disk s) p = None then s else touch p s)" by simp
  from same_tracks_trans [OF this Cons.IH] show ?case by (simp add: touch_files_def)
qed (simp add: touch_files_def)

lemma frame_simps [simp]:
  "hs_store (post_frame j f d) = hs_store d" "hs_runs (post_frame j f d) = hs_runs d" "d_units (post_frame j f d) = d_units d"
  "d_raised (post_frame j f d) = d_raised d" "d_sides (post_frame j f d) = d_sides d" "d_prompts (post_frame j f d) = d_prompts d"
  "d_prepared (post_frame j f d) = d_prepared d" "d_forfeit (post_frame j f d) = d_forfeit d" "d_pending (post_frame j f d) = d_pending d"
  by (simp_all add: post_frame_def split: sum.split)

lemma enter_simps [simp]:
  "hs_store (enter j p s m d) = hs_store d" "hs_runs (enter j p s m d) = hs_runs d" "d_units (enter j p s m d) = d_units d"
  "d_raised (enter j p s m d) = d_raised d" "d_sides (enter j p s m d) = d_sides d" "d_prompts (enter j p s m d) = d_prompts d"
  "d_forfeit (enter j p s m d) = d_forfeit d"
  by (simp_all add: enter_def)

lemma say_simps [simp]:
  "hs_store (say j m d) = hs_store d" "hs_runs (say j m d) = hs_runs d" "d_units (say j m d) = d_units d"
  "d_raised (say j m d) = d_raised d" "d_sides (say j m d) = d_sides d"
  by (simp_all add: say_def)

lemma run_file_cong: "hs_runs st = hs_runs st' \<Longrightarrow> run_file dir n st = run_file dir n st'"
  by (simp add: run_file_def)

lemma steady_same: "hs_store st' = hs_store st \<Longrightarrow> hs_runs st' = hs_runs st \<Longrightarrow> steady dir st st'"
  using run_file_cong [of st' st] by (simp add: steady_def)

lemma steady_store: "same_tracks (hs_store st) (hs_store st') \<Longrightarrow> hs_runs st' = hs_runs st \<Longrightarrow> steady dir st st'"
  using run_file_cong [of st' st] by (simp add: steady_def)

lemma run_file_set: "run_file dir n (set_run_file dir' n' t st) = (if dir = dir' \<and> n = n' then Some t else run_file dir n st)"
  by (simp add: run_file_def set_run_file_def put_def read_file_def split: option.split)

lemma set_run_file_store [simp]: "hs_store (set_run_file dir n t st) = hs_store st"
  by (simp add: set_run_file_def)

lemma steady_set [steady_rules]: "n \<noteq> ''request.json'' \<Longrightarrow> steady dir st (set_run_file dir' n t st)"
  by (simp add: steady_def run_file_set)

lemma steady_write [steady_rules]: "n \<noteq> ''request.json'' \<Longrightarrow> steady dir st (write_run_json dir' n v st)"
  by (simp add: write_run_json_def steady_set)

lemma steady_text [steady_rules]: "n \<noteq> ''request.json'' \<Longrightarrow> steady dir st (set_run_text dir' n tx st)"
  by (simp add: set_run_text_def steady_set split: option.split)

lemma steady_unlink [steady_rules]: "n \<noteq> ''request.json'' \<Longrightarrow> steady dir st (unlink_run_file dir' n st)"
proof -
  assume n: "n \<noteq> ''request.json''"
  have "map_of (filter (\<lambda>f. fst f \<noteq> n) fs) ''request.json'' = map_of fs ''request.json''" for fs :: files
    using n by (induction fs) auto
  then show ?thesis by (auto simp: unlink_run_file_def steady_def run_file_def read_file_def split: option.split)
qed

lemma steady_push [steady_rules]: "steady dir st (push_touched ho st)"
  by (auto simp: push_touched_def drain_touched_def same_tracks_def Let_def intro!: steady_store split: option.split)

lemma steady_enter [steady_rules]: "steady dir st (enter j p s m st)"
  by (rule steady_same) simp_all

lemma steady_say [steady_rules]: "steady dir st (say j m st)"
  by (rule steady_same) simp_all

lemma steady_fields [steady_rules]:
  "steady dir st (st\<lparr>d_units := us\<rparr>)" "steady dir st (st\<lparr>d_raised := r\<rparr>)" "steady dir st (st\<lparr>d_pending := ps\<rparr>)"
  "steady dir st (st\<lparr>d_current := c\<rparr>)" "steady dir st (st\<lparr>d_sides := m\<rparr>)" "steady dir st (st\<lparr>d_prompts := pr\<rparr>)"
  "steady dir st (st\<lparr>d_prepared := pp\<rparr>)" "steady dir st (st\<lparr>d_forfeit := ff\<rparr>)"
  by (rule steady_same; simp)+

section \<open>What the phases keep of the rows\<close>

text \<open>A published row says its outcome: a void one counts for nobody, any other by the two successes.\<close>

definition row_ok :: "json \<Rightarrow> bool" where
  "row_ok u \<longleftrightarrow> (if truthy (jget u ''void'')
     then jget u ''king_success'' = JNull \<and> jget u ''challenger_success'' = JNull \<and> jget u ''outcome'' = JStr ''tie''
     else jget u ''outcome'' = JStr (paired_outcome (jget u ''king_success'') (jget u ''challenger_success'')))"

definition row_fresh :: "json \<Rightarrow> bool" where
  "row_fresh u \<longleftrightarrow> jget u ''king_success'' = JNull \<and> jget u ''challenger_success'' = JNull \<and> jget u ''outcome'' = JStr ''tie''"

lemma row_fresh_ok: "row_fresh u \<Longrightarrow> row_ok u"
  by (simp add: row_fresh_def row_ok_def paired_outcome_def)

abbreviation rows :: "(json \<Rightarrow> bool) \<Rightarrow> duel \<Rightarrow> bool" where
  "rows P d \<equiv> list_all P (d_units d)"

lemma rows_fresh_ok: "rows row_fresh d \<Longrightarrow> rows row_ok d"
  by (auto simp: list_all_iff row_fresh_ok)

definition going :: "(json \<Rightarrow> bool) \<Rightarrow> string \<Rightarrow> duel \<Rightarrow> duel \<Rightarrow> bool" where
  "going P dir d d' \<longleftrightarrow> steady dir d d' \<and> (rows P d \<longrightarrow> rows P d')"

lemma going_refl [simp]: "going P dir d d"
  by (simp add: going_def)

lemma going_trans: "going P dir a b \<Longrightarrow> going P dir b c \<Longrightarrow> going P dir a c"
  unfolding going_def using steady_trans by blast

lemma going_steady: "going P dir d d' \<Longrightarrow> steady dir d d'"
  by (simp add: going_def)

lemma going_same: "steady dir d d' \<Longrightarrow> d_units d' = d_units d \<Longrightarrow> going P dir d d'"
  by (simp add: going_def)

lemma set_run_units [simp]: "d_units (set_run_file dir n t d) = d_units d" "d_units (set_run_text dir n tx d) = d_units d"
  "d_units (write_run_json dir n v d) = d_units d"
  by (simp_all add: set_run_file_def set_run_text_def write_run_json_def split: option.split)

lemma push_units [simp]: "d_units (push_touched ho d) = d_units d"
  by (auto simp: push_touched_def Let_def split: option.split prod.split)

lemma going_set: "n \<noteq> ''request.json'' \<Longrightarrow> going P dir d (set_run_file dir' n t d)"
  "n \<noteq> ''request.json'' \<Longrightarrow> going P dir d (set_run_text dir' n tx d)" "n \<noteq> ''request.json'' \<Longrightarrow> going P dir d (write_run_json dir' n v d)"
  by (rule going_same; simp add: steady_rules)+

lemma going_push: "going P dir d (push_touched ho d)"
  by (rule going_same; simp add: steady_rules)

lemma going_enter: "going P dir d (enter j p s m d)"
  by (rule going_same; simp add: steady_rules)

lemma going_say: "going P dir d (say j m d)"
  by (rule going_same; simp add: steady_rules)

lemma going_fields: "going P dir d (d\<lparr>d_raised := r\<rparr>)" "going P dir d (d\<lparr>d_pending := ps\<rparr>)" "going P dir d (d\<lparr>d_current := c\<rparr>)"
  "going P dir d (d\<lparr>d_sides := m\<rparr>)" "going P dir d (d\<lparr>d_prompts := pr\<rparr>)" "going P dir d (d\<lparr>d_prepared := pp\<rparr>)"
  "going P dir d (d\<lparr>d_forfeit := ff\<rparr>)"
  by (rule going_same; simp add: steady_rules)+

lemma rows_update: "(\<And>r. P r \<Longrightarrow> P (f r)) \<Longrightarrow> list_all P us \<Longrightarrow> list_all P (update_row uid f us)"
  by (induction us) auto

lemma row_jset: "k \<notin> {''void'', ''king_success'', ''challenger_success'', ''outcome''} \<Longrightarrow> row_ok (jset r k v) = row_ok r"
  "k \<notin> {''king_success'', ''challenger_success'', ''outcome''} \<Longrightarrow> row_fresh (jset r k v) = row_fresh r"
  by (auto simp: row_ok_def row_fresh_def)

lemma side_keys [simp]: "side @ ''_video'' \<noteq> ''void''" "side @ ''_video'' \<noteq> ''king_success''"
  "side @ ''_video'' \<noteq> ''challenger_success''" "side @ ''_video'' \<noteq> ''outcome''"
  by (auto dest!: arg_cong [of _ _ rev])

lemma merged_row_ok: "row_ok (merged_row side rec row)"
  by (simp add: merged_row_def row_ok_def Let_def)

lemma prompt_row_fresh: "row_fresh r \<Longrightarrow> row_fresh (prompt_row p r)"
  by (simp add: prompt_row_def row_jset Let_def split: option.split)

section \<open>The callbacks and the sides\<close>

lemma steady_on_prompt: "steady dir d (on_prompt j u p d)"
  unfolding on_prompt_def Let_def case_prod_beta
  by (auto intro!: steady_store simp: same_tracks_media split: option.split)

lemma going_on_prompt: "going row_fresh dir d (on_prompt j u p d)"
proof -
  have "rows row_fresh d \<longrightarrow> rows row_fresh (on_prompt j u p d)"
    by (simp add: on_prompt_def Let_def case_prod_beta rows_update prompt_row_fresh row_jset split: option.split)
  then show ?thesis using steady_on_prompt by (simp add: going_def)
qed

lemma going_merge: "going row_ok dir d (merge_record side r d)"
proof -
  have "steady dir d (merge_record side r d)" by (rule steady_same) (simp_all add: merge_record_def Let_def)
  moreover have "rows row_ok d \<longrightarrow> rows row_ok (merge_record side r d)"
    by (simp add: merge_record_def Let_def rows_update merged_row_ok)
  ultimately show ?thesis by (simp add: going_def)
qed

lemma going_fold: "(\<And>x d. going P dir d (f d x)) \<Longrightarrow> going P dir d (foldl f d xs)"
proof (induction xs arbitrary: d)
  case (Cons x xs)
  from going_trans [OF Cons.prems Cons.IH [OF Cons.prems]] show ?case by simp
qed simp

lemma going_flush_one: "going row_ok dir d (flush_one j p d)"
proof -
  have "steady dir d (flush_one j p d)" unfolding flush_one_def Let_def case_prod_beta
    by (auto intro!: steady_store simp: same_tracks_media split: option.split)
  moreover have "rows row_ok d \<longrightarrow> rows row_ok (flush_one j p d)"
    by (auto simp: flush_one_def Let_def case_prod_beta row_jset intro!: rows_update split: option.split)
  ultimately show ?thesis by (simp add: going_def)
qed

lemma going_flush: "going row_ok dir d (flush_media j force d)"
proof -
  have "going row_ok dir d (foldl (\<lambda>d p. flush_one j p d) (d\<lparr>d_pending := []\<rparr>) (d_pending d))"
    by (rule going_trans [OF going_fields(2) going_fold]) (rule going_flush_one)
  from going_trans [OF this going_push] show ?thesis
    by (auto simp: flush_media_def going_fields split: option.split)
qed

lemma going_on_start: "going row_ok dir d (on_start j side u d)"
  unfolding on_start_def by (rule going_trans [OF going_fields(3) going_say])

lemma going_on_unit: "going row_ok dir d (on_unit j side u r d)"
proof -
  have f: "going row_ok dir d (flush_media j False (merge_record side r d))" by (rule going_trans [OF going_merge going_flush])
  note g = going_trans [OF f going_trans [OF going_fields(3) going_say]]
  show ?thesis unfolding on_unit_def Let_def using f g by simp
qed

lemma going_play: "going row_ok dir d (play_side j side d)"
proof -
  have "going row_ok dir d (s_caller (run_side (eval_args j side d) (h_turn (j_host j) side) (stop_side j) (on_start j side) (on_unit j side)
      (j_defs j) tx d))" for tx
    by (rule run_side_caller) (auto intro: going_trans going_on_start going_on_unit)
  then show ?thesis unfolding play_side_def Let_def
    by (rule going_trans) (rule going_set(2), simp add: side_file_def)
qed

lemma going_evaluate: "going row_ok dir d (evaluate j side d)"
proof -
  let ?e = "enter j ''evaluating'' (Some side) (''evaluating '' @ side) d"
  have p: "going row_ok dir d (play_side j side (foldl (\<lambda>d r. merge_record side r d) ?e rs))" for rs
    by (rule going_trans [OF going_enter going_trans [OF going_fold going_play]]) (rule going_merge)
  note f = going_trans [OF p going_flush]
  note w = going_trans [OF f going_fields(1)] going_trans [OF f going_fields(4)] going_trans [OF going_enter going_fields(1)]
  show ?thesis unfolding evaluate_def Let_def using p f w by (simp split: option.split)
qed

section \<open>The phases before publishing\<close>

lemma steady_decided [steady_rules]: "steady dir d (snd (decided j st why d))"
  unfolding decided_def Let_def snd_conv by (rule steady_trans [OF steady_write steady_enter]) simp

lemma steady_refused [steady_rules]: "steady dir d (snd (refused_duel j why d))"
  unfolding refused_duel_def by (rule steady_trans [OF steady_fields(1) steady_decided])

lemma steady_void [steady_rules]: "steady dir d (snd (void_duel j why d))"
  unfolding void_duel_def by (rule steady_decided)

lemma going_prepare: "prepare_sides j ss fetched refused d = (out, d') \<Longrightarrow> going P dir d d'"
proof (induction ss arbitrary: refused d)
  case (Cons x ss)
  define d1 where "d1 = say j (''checking the '' @ x) d"
  have d1: "going P dir d d1" unfolding d1_def by (rule going_say)
  have d2: "going P dir d (d1\<lparr>d_prepared := v\<rparr>)" for v by (rule going_trans [OF d1 going_fields(6)])
  from Cons.prems d1 show ?case unfolding prepare_sides.simps d1_def [symmetric] Let_def
    by (auto split: if_splits answer.splits intro: d1 going_trans [OF d1 Cons.IH] going_trans [OF d2 Cons.IH] Cons.IH)
qed simp

lemma derive_fresh: "derive_rows j d = Inr (j', d') \<Longrightarrow> steady dir d d' \<and> j' = j\<lparr>j_defs := j_defs j'\<rparr> \<and> rows row_fresh d'"
  by (auto simp: derive_rows_def Let_def unit_verdict_from_unit_def row_fresh_def list_all_iff jget_JObj
      intro!: steady_same split: option.splits sum.splits)

lemma going_mat_units:
  assumes "going row_fresh dir d e"
  shows "materialize_units ws stop (on_prompt j) us tx e = Inl st \<Longrightarrow> going row_fresh dir d (ms_caller st)"
    "materialize_units ws stop (on_prompt j) us tx e = Inr st \<Longrightarrow> going row_fresh dir d (ms_caller st)"
proof -
  have step: "going row_fresh dir d s \<Longrightarrow> going row_fresh dir d (on_prompt j u p s)" for u p s by (rule going_trans [OF _ going_on_prompt])
  have init: "going row_fresh dir d (ms_caller \<lparr>ms_text = tx, ms_prompts = [], ms_caller = e\<rparr>)" using assms by simp
  note loop = mat_loop_caller [where P = "going row_fresh dir d" and cb = "on_prompt j", OF step init]
  show "materialize_units ws stop (on_prompt j) us tx e = Inl st \<Longrightarrow> going row_fresh dir d (ms_caller st)"
    unfolding materialize_units_def by (rule loop(1))
  show "materialize_units ws stop (on_prompt j) us tx e = Inr st \<Longrightarrow> going row_fresh dir d (ms_caller st)"
    unfolding materialize_units_def by (rule loop(2))
qed

lemma going_materialize: "going row_fresh dir d (snd (materialize_phase j d))"
proof -
  define e where "e = enter j ''materializing'' (d_side d) ''materializing the demonstrations'' d"
  have e: "going row_fresh dir d e" unfolding e_def by (rule going_enter)
  define m where "m = materialize_units (h_mat (j_host j)) (stop_side j) (on_prompt j) (j_defs j) (run_file (j_dir j) ''prompts/manifest.jsonl'' e) e"
  have t: "going row_fresh dir d (set_run_text (j_dir j) ''prompts/manifest.jsonl'' tx c)" if "going row_fresh dir d c" for c :: duel and tx
    by (rule going_trans [OF that going_set(2)]) simp
  have p: "going row_fresh dir d (push_touched ho (set_run_text (j_dir j) ''prompts/manifest.jsonl'' tx c\<lparr>d_prompts := ps\<rparr>))"
    if "going row_fresh dir d c" for c :: duel and tx ho ps
    by (rule going_trans [OF t [OF that] going_trans [OF going_fields(5) going_push]])
  show ?thesis
  proof (cases m)
    case (Inl st)
    then have "going row_fresh dir d (ms_caller st)" using going_mat_units(1) [OF e] by (simp add: m_def)
    from t [OF this] show ?thesis unfolding materialize_phase_def e_def [symmetric] Let_def m_def [symmetric] Inl by simp
  next
    case (Inr st)
    then have c: "going row_fresh dir d (ms_caller st)" using going_mat_units(2) [OF e] by (simp add: m_def)
    from t [OF c] p [OF c] show ?thesis unfolding materialize_phase_def e_def [symmetric] Let_def m_def [symmetric] Inr
      by (simp split: option.split)
  qed
qed

section \<open>How a run settles\<close>

text \<open>The phases before publishing either reach it, or leave tracks and request alone: they decided the
  duel void or refused, with the outcome written, or could not run it.\<close>

definition quiet_end :: "stop + duel_result \<Rightarrow> job \<Rightarrow> duel \<Rightarrow> bool" where
  "quiet_end out j d \<longleftrightarrow>
     (case out of
        Inl st \<Rightarrow> (\<exists>why. st = Harness_Unavailable why \<or> st = Duel_Failed why)
      | Inr res \<Rightarrow> r_status res \<in> {''void'', ''refused''} \<and> r_record res = JNull
          \<and> (\<exists>sides. run_file (j_dir j) ''outcome.json'' d = Some (pretty_json (jset (result_dict res) ''sides'' (JObj sides)))))"

definition settles :: "job \<Rightarrow> duel \<Rightarrow> (stop + duel_result) \<times> duel \<Rightarrow> bool" where
  "settles j d r \<longleftrightarrow> (\<exists>d0. going row_ok (j_dir j) d d0 \<and> r = publish j d0) \<or> (steady (j_dir j) d (snd r) \<and> quiet_end (fst r) j (snd r))"

lemma settles_after: "going row_ok (j_dir j) d d1 \<Longrightarrow> settles j d1 r \<Longrightarrow> settles j d r"
  unfolding settles_def using going_trans steady_trans going_steady by blast

lemma settles_fresh: "steady (j_dir j) d d1 \<Longrightarrow> rows row_fresh d1 \<Longrightarrow> settles j d1 r \<Longrightarrow> settles j d r"
  unfolding settles_def going_def using steady_trans rows_fresh_ok by blast

lemma settles_stop: "steady (j_dir j) d d1 \<Longrightarrow> st = Harness_Unavailable why \<or> st = Duel_Failed why \<Longrightarrow> settles j d (Inl st, d1)"
  by (auto simp: settles_def quiet_end_def)

lemma quiet_decided: "st \<in> {''void'', ''refused''} \<Longrightarrow> quiet_end (Inr (fst (decided j st why d))) j (snd (decided j st why d))"
  by (auto simp: quiet_end_def decided_def Let_def write_run_json_def run_file_set run_file_cong [of "enter j _ _ _ _" "_ :: duel"])

lemma settles_decided:
  "st \<in> {''void'', ''refused''} \<Longrightarrow> settles j d (Inr (fst (decided j st why d)), snd (decided j st why d))"
  using steady_decided [of "j_dir j" d j st why] quiet_decided [of st j why d] by (simp add: settles_def)

lemma settles_void: "settles j d (case void_duel j why d of (res, d2) \<Rightarrow> (Inr res, d2))"
  using settles_decided [of "''void''" j d why] by (simp add: void_duel_def case_prod_beta)

lemma settles_refused: "settles j d (case refused_duel j why d of (res, d2) \<Rightarrow> (Inr res, d2))"
  proof -
  let ?d = "d\<lparr>d_units := map (\<lambda>r. jset (jset r ''challenger_success'' (JBool False)) ''challenger_error'' (JStr why)) (d_units d)\<rparr>"
  have q: "steady (j_dir j) d (snd (decided j ''refused'' why ?d))" by (rule steady_trans [OF steady_fields(1) steady_decided])
  have "quiet_end (Inr (fst (decided j ''refused'' why ?d))) j (snd (decided j ''refused'' why ?d))"
    by (rule quiet_decided) simp
  with q show ?thesis by (simp add: refused_duel_def case_prod_beta settles_def)
qed

lemma settles_run_sides: "settles j d (run_sides j ss d)"
proof (induction ss arbitrary: d)
  case Nil
  then show ?case by (auto simp: settles_def intro: exI [of _ d])
next
  case (Cons x ss)
  define d1 where "d1 = evaluate j x d"
  have d1: "going row_ok (j_dir j) d d1" unfolding d1_def by (rule going_evaluate)
  show ?case
  proof (cases "d_raised d1")
    case (Some why)
    then show ?thesis using settles_stop [OF going_steady [OF d1]] by (simp add: Let_def flip: d1_def)
  next
    case None
    show ?thesis
    proof (cases "certainly_void j d1")
      case True
      then show ?thesis using None settles_after [OF d1 settles_void] by (simp add: Let_def flip: d1_def)
    next
      case False
      then show ?thesis using None settles_after [OF d1 Cons.IH] by (simp add: Let_def flip: d1_def)
    qed
  qed
qed

lemma materialize_stop: "fst (materialize_phase j d) = Inl st \<Longrightarrow> \<exists>why. st = Duel_Failed why"
  by (auto simp: materialize_phase_def Let_def split: sum.splits option.splits)

lemma settles_play: assumes "rows row_fresh d" shows "settles j d (play_phase j d)"
proof (cases "materialize_phase j d")
  case (Pair out d1)
  have g: "going row_fresh (j_dir j) d d1" using going_materialize [of "j_dir j" d j] Pair by simp
  then have d1: "steady (j_dir j) d d1" "rows row_fresh d1" using assms by (simp_all add: going_def)
  show ?thesis
  proof (cases out)
    case (Inl st)
    then have "\<exists>why. st = Duel_Failed why" using materialize_stop [of j d st] Pair by simp
    then show ?thesis using settles_stop [OF d1(1)] by (auto simp: play_phase_def Pair Inl)
  next
    case (Inr u)
    then show ?thesis using settles_fresh [OF d1 settles_void] settles_fresh [OF d1 settles_run_sides] by (simp add: play_phase_def Pair)
  qed
qed

lemma prepare_stop: "fst (prepare_sides j ss fetched refused d) = Inl st \<Longrightarrow> \<exists>why. st = Harness_Unavailable why \<or> st = Duel_Failed why"
  by (induction ss arbitrary: refused d) (auto simp: Let_def split: if_splits answer.splits)

lemma settles_check: assumes "rows row_fresh d" shows "settles j d (check_phase j refused fetched d)"
proof -
  define e where "e = enter j ''checking'' (d_side d) ''checking and building'' d"
  obtain out d1 where p: "prepare_sides j (map fst (sides_of (j_req j))) fetched refused e = (out, d1)" by (cases "prepare_sides j (map fst (sides_of (j_req j))) fetched refused e")
  have g1: "going row_fresh (j_dir j) d d1" unfolding e_def by (rule going_trans [OF going_enter going_prepare [OF p [unfolded e_def]]])
  show ?thesis
  proof (cases out)
    case (Inl st)
    have "fst (prepare_sides j (map fst (sides_of (j_req j))) fetched refused e) = Inl st" by (simp add: p Inl)
    then have "\<exists>why. st = Harness_Unavailable why \<or> st = Duel_Failed why" by (rule prepare_stop)
    then show ?thesis using settles_stop [OF going_steady [OF g1]] by (auto simp: check_phase_def p Inl simp flip: e_def)
  next
    case (Inr refused1)
    define d2 where "d2 = d1\<lparr>d_sides := foldl (\<lambda>m s. upd (fst s) (side_meta j (fst s) (snd s) (map_of refused1 (fst s)) d1) m)
      (d_sides d1) (sides_of (j_req j))\<rparr>"
    have d2: "going row_fresh (j_dir j) d d2" unfolding d2_def by (rule going_trans [OF g1 going_fields(4)])
    define d3 where "d3 = d2\<lparr>d_forfeit := map_of refused1 ''king''\<rparr>"
    have d3: "going row_fresh (j_dir j) d d3" unfolding d3_def by (rule going_trans [OF d2 going_fields(7)])
    define d4 where "d4 = (case d_forfeit d3 of None \<Rightarrow> d3
      | Some why \<Rightarrow> write_run_json (j_dir j) ''forfeit.json'' (JObj [(''side'', JStr ''king''), (''reason'', JStr why)]) d3)"
    have d4: "going row_fresh (j_dir j) d d4"
      unfolding d4_def using d3 going_trans [OF d3 going_set(3)] by (simp split: option.split)
    have fresh: "steady (j_dir j) d d2" "rows row_fresh d2" "steady (j_dir j) d d4" "rows row_fresh d4"
      using d2 d4 assms by (simp_all add: going_def)
    show ?thesis
      using settles_fresh [OF fresh(1,2) settles_refused] settles_fresh [OF fresh(3,4) settles_play [OF fresh(4)]]
      by (simp add: check_phase_def p Inr Let_def split: option.split flip: e_def d2_def d3_def d4_def)
  qed
qed

lemma fetch_stop: "fetch_sides ho ss fetched refused = Inl st \<Longrightarrow> \<exists>why. st = Harness_Unavailable why \<or> st = Duel_Failed why"
  by (induction ss arbitrary: fetched refused) (auto split: if_splits answer.splits)

lemma derive_stop: "derive_rows j d = Inl st \<Longrightarrow> \<exists>why. st = Harness_Unavailable why \<or> st = Duel_Failed why"
  by (auto simp: derive_rows_def Let_def split: option.splits sum.splits)

lemma settles_phases: "\<exists>us. settles (j\<lparr>j_defs := us\<rparr>) d (run_phases j d)"
proof (cases "derive_rows j d")
  case (Inl st)
  have "settles (j\<lparr>j_defs := []\<rparr>) d (Inl st, d)" using derive_stop [OF Inl] settles_stop [OF steady_refl] by blast
  then show ?thesis by (auto simp: run_phases_def Inl)
next
  case (Inr r)
  obtain j1 d1 where r: "r = (j1, d1)" by (cases r)
  have dr: "steady (j_dir j1) d d1" "j1 = j\<lparr>j_defs := j_defs j1\<rparr>" "rows row_fresh d1"
    using derive_fresh [OF Inr [unfolded r]] by blast+
  define d2 where "d2 = enter j1 ''fetching'' (d_side d1) ''fetching the submissions'' d1"
  have d2: "steady (j_dir j1) d d2" unfolding d2_def by (rule steady_trans [OF dr(1) steady_enter])
  have f2: "rows row_fresh d2" using dr(3) by (simp add: d2_def)
  have "settles j1 d (run_phases j d)"
  proof (cases "fetch_sides (j_host j1) (map fst (sides_of (j_req j1))) [] (recorded_forfeit j1 d1)")
    case (Inl st)
    then show ?thesis using fetch_stop [OF Inl] settles_stop [OF d2] by (auto simp: run_phases_def Inr r Let_def simp flip: d2_def)
  next
    case (Inr fr)
    then show ?thesis using settles_fresh [OF d2 f2 settles_check [OF f2]] \<open>derive_rows j d = Inr r\<close>
      by (auto simp: run_phases_def r Let_def split: prod.split simp flip: d2_def)
  qed
  then show ?thesis using dr(2) by metis
qed

end
