(* ===== verification/Duel_Facts.thy ===== *)
theory Duel_Facts
  imports Duel_Steady
begin

text \<open>
  What a run of a duel does to the published records (\<open>Duel.run_duel\<close> over the log of \<open>Store_Log\<close>):
  nothing, or one record of its own event against the king the records crown.
\<close>

section \<open>Publishing\<close>

lemma startswith_tracks [simp]: "startswith (index_part_path trk p) ''tracks/''" "startswith (head_path trk) ''tracks/''"
  by (simp_all add: index_part_path_def head_path_def track_dir_def startswith_def)

lemma same_tracks_track_on: "same_tracks s s' \<Longrightarrow> track_on sp sg schema trk rs s \<Longrightarrow> track_on sp sg schema trk rs s'"
  by (simp add: same_tracks_def track_on_def log_on_def head_def read_json_def)

lemma same_tracks_head: "same_tracks s s' \<Longrightarrow> head trk s' = head trk s"
  by (simp add: same_tracks_def head_def read_json_def)

lemma first_some_iff: "first_some f xs = None \<longleftrightarrow> (\<forall>x\<in>set xs. f x = None)"
  by (induction xs) (simp_all split: option.split)

lemma first_some_Some: "first_some f xs = Some y \<Longrightarrow> \<exists>x\<in>set xs. f x = Some y"
  by (induction xs) (auto split: option.splits)

text \<open>The index is searched for the event among the records it holds.\<close>

lemma published_track:
  assumes "sound_signer verify sg" and "track_on sp sg schema trk rs st"
  shows "published trk ev st = Some None \<longleftrightarrow> (\<forall>r\<in>set rs. jget r ''event_id'' \<noteq> JStr ev)"
    and "published trk ev st \<noteq> None"
    and "published trk ev st = Some (Some r) \<Longrightarrow> rs \<noteq> [] \<and> jget r ''event_id'' = JStr ev \<and> (\<exists>r'\<in>set rs. r = jsort r')"
proof -
  have t: "records_ok rs" "log_on sg (nat (lines_per_part sp)) trk rs (disk st)" using assms(2) by (simp_all add: track_on_def)
  have it: "iter_index (disk st) trk = Some (map jsort rs)" by (rule iter_index_log [OF assms(1) t])
  have ev: "jget (jsort r) ''event_id'' = JStr ev \<longleftrightarrow> jget r ''event_id'' = JStr ev" if "r \<in> set rs" for r
    using records_ok_wf [OF t(1) that] by (simp add: jget_jsort)
  show "published trk ev st = Some None \<longleftrightarrow> (\<forall>r\<in>set rs. jget r ''event_id'' \<noteq> JStr ev)"
    using ev by (auto simp: published_def it first_some_iff)
  show "published trk ev st \<noteq> None" by (simp add: published_def it)
  show "published trk ev st = Some (Some r) \<Longrightarrow> rs \<noteq> [] \<and> jget r ''event_id'' = JStr ev \<and> (\<exists>r'\<in>set rs. r = jsort r')"
    using ev by (auto simp: published_def it dest!: first_some_Some split: if_splits)
qed

lemma index_record_fields: "fields_ok (index_record a) \<and> is_obj (index_record a) \<and> jget (index_record a) ''event_id'' = JStr (a_event_id a)
    \<and> jget (index_record a) ''seq'' = JInt 0"
  by (simp add: index_record_def fields_ok_def Let_def jget_JObj)

lemma wf_unset: "wf_json (jset d k v) \<Longrightarrow> is_obj d \<Longrightarrow> jhas d k \<Longrightarrow> wf_json (jget d k) \<Longrightarrow> wf_json d"
proof -
  assume w: "wf_json (jset d k v)" and o: "is_obj d" and h: "jhas d k" and g: "wf_json (jget d k)"
  obtain kvs where d: "d = JObj kvs" using o by (cases d) simp_all
  have keys: "map fst (upd k v ps) = map fst ps" if "k \<in> set (map fst ps)" for ps :: items
    using that by (induction k v ps rule: upd.induct) auto
  have others: "x \<in> set ps \<Longrightarrow> fst x \<noteq> k \<Longrightarrow> x \<in> set (upd k v ps)" for x and ps :: items
    by (induction k v ps rule: upd.induct) auto
  have dist: "distinct (map fst kvs)" using w h keys [of kvs] by (simp add: d jset_def jhas_def)
  have "wf_json (snd x)" if x: "x \<in> set kvs" for x
  proof (cases "fst x = k")
    case True
    then have "map_of kvs k = Some (snd x)" using x dist by (metis map_of_eq_Some_iff prod.collapse)
    then show ?thesis using g by (simp add: d jget_def)
  next
    case False
    from others [OF x this] w show ?thesis by (auto simp: d jset_def list_all_iff)
  qed
  then show ?thesis using dist by (simp add: d list_all_iff)
qed

lemma scored_record_simps [simp]: "a_event_id (fst (snd (scored_record j d))) = j_event_id j"
  by (simp add: scored_record_def Let_def)

lemma scored_record_cong: "d_units d = d_units d' \<Longrightarrow> scored_record j d = scored_record j d'"
  by (simp only: scored_record_def)

lemma event_fields: "jget (published_event j d units (index_record a) scoring) ''event_id'' = JStr (a_event_id a)"
  by (simp add: published_event_def duel_event_def index_record_def Let_def jupdate_def jget_jset jget_jdel jget_JObj)

lemma write_run_json_store [simp]: "hs_store (write_run_json dir n v st) = hs_store st"
  by (simp add: write_run_json_def)

lemma same_tracks_push: "same_tracks (hs_store st) (hs_store (push_touched ho st))"
  using steady_push unfolding steady_def by blast

lemma republished_track:
  assumes "sound_signer (h_verify ho) (h_signer ho)" and "store_schema sp = Some schema"
    and "track_on sp (h_signer ho) schema (q_track q) rs (hs_store st)" and "rs \<noteq> []"
  shows "track_on sp (h_signer ho) schema (q_track q) rs (hs_store (snd (republished sp tm ho q rec st)))
    \<and> (\<exists>res. fst (republished sp tm ho q rec st) = Inr res \<and> r_status res = ''published'' \<and> r_record res = rec)"
proof -
  have t: "records_ok rs" "list_all fields_ok rs" "log_on (h_signer ho) (nat (lines_per_part sp)) (q_track q) rs (disk (hs_store st))"
    using assms(3) by (simp_all add: track_on_def)
  from rebuild_log [OF assms(1) t(1,2) assms(4,2), of "q_track q" "hs_store st"] t(3)
  obtain s1 where s1: "rebuild_head sp (h_verify ho) (verify_key (h_signer ho)) (q_track q) (hs_store st) = (Inr (head_of schema rs), s1)"
      "track_on sp (h_signer ho) schema (q_track q) rs s1" by (auto simp: repair_log)
  have "track_on sp (h_signer ho) schema (q_track q) rs (hs_store (push_touched ho (st\<lparr>hs_store := touch_files ps s1\<rparr>)))" for ps
    using same_tracks_trans [OF same_tracks_touch_files same_tracks_push [of "st\<lparr>hs_store := touch_files ps s1\<rparr>" ho, simplified]]
      same_tracks_track_on s1(2) by blast
  then show ?thesis by (simp add: republished_def s1(1) Let_def)
qed

text \<open>How one run changes the records of its track: not at all, or by the one record of its own event,
  against the king the records crown.\<close>

definition crowned :: "json list \<Rightarrow> json" where
  "crowned rs = (if truthy (jsort (kings rs)) then jsort (kings rs) else JNull)"

definition one_more :: "duel_request \<Rightarrow> string \<Rightarrow> json list \<Rightarrow> stop + duel_result \<Rightarrow> json list \<Rightarrow> bool" where
  "one_more q ev rs out rs' \<longleftrightarrow> rs' = rs \<or>
     (\<exists>r res. rs' = rs @ [r] \<and> out = Inr res \<and> r_status res = ''published'' \<and> jget r ''event_id'' = JStr ev
        \<and> (\<forall>r'\<in>set rs. jget r' ''event_id'' \<noteq> JStr ev) \<and> py_eq (crowned rs) (opt_json ref_as_dict (q_king q))
        \<and> kings rs' = ref_as_dict (if q_king q = None \<or> jget r ''dethroned'' = JBool True then q_challenger q else the (q_king q)))"

lemma crowned_head:
  assumes "track_on sp sg schema trk rs st" shows "holder_of trk st = crowned rs"
proof -
  have wf: "\<And>r. r \<in> set rs \<Longrightarrow> wf_json r" using assms records_ok_wf unfolding track_on_def by blast
  have h: "jget (head trk st) ''king'' = jsort (kings rs)" using assms jget_head_of [OF wf] by (simp add: track_on_def)
  have "is_obj (head trk st)" using assms by (simp add: track_on_def head_of_def head_dict_def)
  then have "jget (or_empty (head trk st)) ''king'' = jsort (kings rs)" using h by simp
  then show ?thesis by (simp add: holder_of_def crowned_def Let_def)
qed

lemma ref_as_dict_truthy [simp]: "truthy (ref_as_dict r)" "ref_as_dict r \<noteq> JNull"
  by (simp_all add: ref_as_dict_def)

lemma published_king:
  assumes "scored_record j d = (units, args, scoring)"
  shows "king_after (stamped (index_record args) ev n) k
    = ref_as_dict (if q_king (j_req j) = None \<or> jget (stamped (index_record args) ev n) ''dethroned'' = JBool True
        then q_challenger (j_req j) else the (q_king (j_req j)))"
proof -
  have a: "args = fst (snd (scored_record j d))" using assms by simp
  show ?thesis
    by (cases "q_king (j_req j)")
      (simp_all add: a scored_record_def Let_def king_after_def stamped_def index_record_def jget_JObj request_kind_def ref_dict_def
        opt_json_def str_in_def CROWNING_def)
qed

lemma one_more_same [simp]: "one_more q ev rs out rs"
  by (simp add: one_more_def)

text \<open>Once the crown is checked nothing stops the record: the event is written, so the store takes it.\<close>

lemma publish_record_done:
  assumes schema: "store_schema (j_sp j) = Some schema" and sc: "scored_record j d = (units, args, scoring)"
  defines "store1 \<equiv> write_event (q_track (j_req j)) (published_event j d units (index_record args) scoring) (hs_store d)"
  shows "\<exists>res m s2. append_record (j_sp j) (h_verify (j_host j)) (Some (h_signer (j_host j))) (q_track (j_req j)) (index_record args) store1
        = (Inr m, s2)
      \<and> fst (publish_record j d) = Inr res \<and> r_status res = ''published'' \<and> r_event_id res = j_event_id j \<and> r_units res = units
      \<and> r_record res = jset (index_record args) ''seq'' (JInt m)
      \<and> hs_store (snd (publish_record j d)) = hs_store (push_touched (j_host j) (d\<lparr>hs_store := s2\<rparr>))"
    and "read_file (disk store1) (event_path (q_track (j_req j)) (py_str (jget (index_record args) ''event_id'')))
      = Some (pretty_json (published_event j d units (index_record args) scoring))"
    and "a_event_id args = j_event_id j"
proof -
  define event where "event = published_event j d units (index_record args) scoring"
  have ev: "jget event ''event_id'' = JStr (j_event_id j)" "a_event_id args = j_event_id j"
    using scored_record_simps [of j d] by (simp_all add: event_def event_fields sc)
  have s1: "store1 = write_event (q_track (j_req j)) event (hs_store d)" by (simp add: store1_def event_def)
  have stored: "read_file (disk store1) (event_path (q_track (j_req j)) (py_str (jget (index_record args) ''event_id''))) = Some (pretty_json event)"
    by (simp add: s1 write_event_def Let_def ev index_record_fields touch_def write_json_def)
  have has: "jhas (index_record args) ''seq''" "jhas (index_record args) ''event_id''" "jhas (index_record args) ''finished_at''"
    by (simp_all add: index_record_def Let_def jhas_JObj)
  obtain b where b: "jget (index_record args) ''block'' = JInt b" by (simp add: index_record_def Let_def jget_JObj)
  from append_record_eq [OF has(2,3) b schema stored refl refl refl refl refl]
  obtain m s2 where app: "append_record (j_sp j) (h_verify (j_host j)) (Some (h_signer (j_host j))) (q_track (j_req j)) (index_record args) store1
      = (Inr m, s2)" by blast
  define res where "res = \<lparr>r_status = ''published'', r_kind = request_kind (j_req j), r_event_id = j_event_id j,
        r_duel_id = j_duel_id j, r_reason = py_str (jget scoring ''reason''), r_run_dir = j_dir j,
        r_record = jset (index_record args) ''seq'' (JInt m), r_units = units\<rparr>"
  have "fst (publish_record j d) = Inr res" "hs_store (snd (publish_record j d)) = hs_store (push_touched (j_host j) (d\<lparr>hs_store := s2\<rparr>))"
    using app [unfolded s1] by (simp_all add: publish_record_def Let_def sc res_def flip: event_def)
  then show "\<exists>res m s2. append_record (j_sp j) (h_verify (j_host j)) (Some (h_signer (j_host j))) (q_track (j_req j)) (index_record args) store1
        = (Inr m, s2)
      \<and> fst (publish_record j d) = Inr res \<and> r_status res = ''published'' \<and> r_event_id res = j_event_id j \<and> r_units res = units
      \<and> r_record res = jset (index_record args) ''seq'' (JInt m)
      \<and> hs_store (snd (publish_record j d)) = hs_store (push_touched (j_host j) (d\<lparr>hs_store := s2\<rparr>))"
    using app by (intro exI [of _ res] exI [of _ m] exI [of _ s2]) (simp add: res_def)
  show "read_file (disk store1) (event_path (q_track (j_req j)) (py_str (jget (index_record args) ''event_id'')))
      = Some (pretty_json (published_event j d units (index_record args) scoring))" using stored by (simp add: event_def)
  show "a_event_id args = j_event_id j" by (rule ev(2))
qed

lemma jhas_index: "jhas (index_record a) ''seq''"
  by (simp add: index_record_def Let_def jhas_JObj)

lemma publish_record_track:
  assumes sg: "sound_signer (h_verify (j_host j)) (h_signer (j_host j))" and schema: "store_schema (j_sp j) = Some schema"
    and tr: "track_on (j_sp j) (h_signer (j_host j)) schema (q_track (j_req j)) rs (hs_store d)"
    and wf: "\<And>res. fst (publish_record j d) = Inr res \<Longrightarrow> wf_json (r_record res)"
    and fresh: "\<forall>r\<in>set rs. jget r ''event_id'' \<noteq> JStr (j_event_id j)" and held: "crown_held (j_req j) (hs_store d)"
  shows "\<exists>rs'. track_on (j_sp j) (h_signer (j_host j)) schema (q_track (j_req j)) rs' (hs_store (snd (publish_record j d)))
    \<and> one_more (j_req j) (j_event_id j) rs (fst (publish_record j d)) rs'"
proof -
  obtain units args scoring where sc: "scored_record j d = (units, args, scoring)" by (cases "scored_record j d")
  define event where "event = published_event j d units (index_record args) scoring"
  define s1 where "s1 = write_event (q_track (j_req j)) event (hs_store d)"
  note pub = publish_record_done [OF schema sc, folded event_def, folded s1_def]
  obtain res m s2 where app: "append_record (j_sp j) (h_verify (j_host j)) (Some (h_signer (j_host j))) (q_track (j_req j)) (index_record args) s1
      = (Inr m, s2)" and out: "fst (publish_record j d) = Inr res" "r_status res = ''published''"
        "r_record res = jset (index_record args) ''seq'' (JInt m)"
        "hs_store (snd (publish_record j d)) = hs_store (push_touched (j_host j) (d\<lparr>hs_store := s2\<rparr>))"
    using pub(1) by (elim exE conjE) (rule that)
  have tr2: "track_on (j_sp j) (h_signer (j_host j)) schema (q_track (j_req j)) rs s1"
    unfolding s1_def by (rule same_tracks_track_on [OF same_tracks_event tr])
  have "wf_json (jset (index_record args) ''seq'' (JInt m))" using wf [OF out(1)] out(3) by simp
  then have "wf_json (index_record args)"
    by (rule wf_unset) (simp_all add: index_record_fields jhas_index)
  from append_track [OF sg tr2 schema this _ _ pub(2)] index_record_fields [of args] app
  have s2: "track_on (j_sp j) (h_signer (j_host j)) schema (q_track (j_req j))
      (rs @ [stamped (index_record args) (pretty_json event) (int (length rs) + 1)]) s2" by auto
  define r where "r = stamped (index_record args) (pretty_json event) (int (length rs) + 1)"
  have r: "jget r ''event_id'' = JStr (j_event_id j)" using index_record_fields [of args] by (simp add: r_def stamped_def pub(3))
  have "kings (rs @ [r]) = ref_as_dict (if q_king (j_req j) = None \<or> jget r ''dethroned'' = JBool True
      then q_challenger (j_req j) else the (q_king (j_req j)))"
    unfolding kings_snoc r_def by (rule published_king [OF sc])
  moreover have "py_eq (crowned rs) (opt_json ref_as_dict (q_king (j_req j)))"
    using held crowned_head [OF tr] by (simp add: crown_held_def)
  ultimately have "one_more (j_req j) (j_event_id j) rs (fst (publish_record j d)) (rs @ [r])"
    using fresh r out(1,2) unfolding one_more_def by (intro disjI2 exI [of _ r] exI [of _ res]) simp
  moreover have "track_on (j_sp j) (h_signer (j_host j)) schema (q_track (j_req j)) (rs @ [r]) (hs_store (snd (publish_record j d)))"
    unfolding out(4) using same_tracks_track_on [OF same_tracks_push [of "d\<lparr>hs_store := s2\<rparr>" "j_host j"]] s2 by (simp add: r_def)
  ultimately show ?thesis by blast
qed

lemma publish_track:
  assumes sg: "sound_signer (h_verify (j_host j)) (h_signer (j_host j))" and schema: "store_schema (j_sp j) = Some schema"
    and tr: "track_on (j_sp j) (h_signer (j_host j)) schema (q_track (j_req j)) rs (hs_store d)"
    and wf: "\<And>res. fst (publish j d) = Inr res \<Longrightarrow> wf_json (r_record res)"
  shows "\<exists>rs'. track_on (j_sp j) (h_signer (j_host j)) schema (q_track (j_req j)) rs' (hs_store (snd (publish j d)))
    \<and> one_more (j_req j) (j_event_id j) rs (fst (publish j d)) rs'"
proof -
  define d1 where "d1 = enter j ''publishing'' None ''publishing the record'' d"
  have tr1: "track_on (j_sp j) (h_signer (j_host j)) schema (q_track (j_req j)) rs (hs_store d1)" using tr by (simp add: d1_def)
  note pub = published_track [OF sg tr1]
  obtain found where f: "published (q_track (j_req j)) (j_event_id j) (hs_store d1) = Some found" using pub(2) by auto
  show ?thesis
  proof (cases found)
    case (Some rec)
    then have ne: "rs \<noteq> []" using pub(3) f by simp
    have p: "publish j d = within_run (republished (j_sp j) (j_terms j) (j_host j) (j_req j) rec d1)"
      by (simp add: publish_def Let_def f Some flip: d1_def)
    have "snd (within_run r) = snd r" for r :: "(stop + duel_result) \<times> duel"
      by (auto simp: within_run_def split: prod.split sum.split stop.split)
    with republished_track [OF sg schema tr1 ne] show ?thesis unfolding p by (metis one_more_same)
  next
    case None
    note fresh = f [unfolded None]
    show ?thesis
    proof (cases "crown_held (j_req j) (hs_store d1)")
      case False
      have "hs_store (snd (crown_stop (j_req j) (j_dir j) d1)) = hs_store d1"
        by (simp add: crown_stop_def move_aside_def Let_def)
      then have "hs_store (snd (publish j d)) = hs_store d1"
        by (simp add: publish_def Let_def fresh False case_prod_beta flip: d1_def)
      then show ?thesis using tr1 one_more_same by metis
    next
      case True
      have p: "publish j d = publish_record j d1" by (simp add: publish_def Let_def fresh True flip: d1_def)
      show ?thesis unfolding p
        by (rule publish_record_track [OF sg schema tr1 _ _ True]) (use wf p pub(1) fresh in auto)
    qed
  qed
qed

section \<open>One run of the orchestrator\<close>

lemma truncate_simps [simp]: "hs_store (hosting.truncate d) = hs_store d" "hs_runs (hosting.truncate d) = hs_runs d"
  by (simp_all add: hosting.truncate_def)

lemma failed_run_store [simp]: "hs_store (failed_run j why d) = hs_store d"
  by (simp add: failed_run_def)

lemma start_duel_simps [simp]: "hs_store (start_duel st) = hs_store st" "hs_runs (start_duel st) = hs_runs st"
  by (simp_all add: start_duel_def)

lemma unlink_store [simp]: "hs_store (unlink_run_file dir n st) = hs_store st"
  by (simp add: unlink_run_file_def split: option.split)

lemma fight_outcome:
  "hs_store (snd (fight j st)) = hs_store (snd (run_phases j (start_duel st)))
   \<and> (\<forall>res. fst (fight j st) = Inr res \<longleftrightarrow> fst (run_phases j (start_duel st)) = Inr res)"
  by (auto simp: fight_def split: prod.split sum.split stop.split)

lemma one_more_Inr: "one_more q ev rs out rs' \<Longrightarrow> (\<And>res. out = Inr res \<Longrightarrow> out' = Inr res) \<Longrightarrow> one_more q ev rs out' rs'"
  unfolding one_more_def by blast

lemma fight_track:
  assumes sg: "sound_signer (h_verify (j_host j)) (h_signer (j_host j))" and schema: "store_schema (j_sp j) = Some schema"
    and tr: "track_on (j_sp j) (h_signer (j_host j)) schema (q_track (j_req j)) rs (hs_store st)"
    and wf: "\<And>res. fst (fight j st) = Inr res \<Longrightarrow> wf_json (r_record res)"
  shows "\<exists>rs'. track_on (j_sp j) (h_signer (j_host j)) schema (q_track (j_req j)) rs' (hs_store (snd (fight j st)))
    \<and> one_more (j_req j) (j_event_id j) rs (fst (fight j st)) rs'"
proof -
  obtain us where s: "settles (j\<lparr>j_defs := us\<rparr>) (start_duel st) (run_phases j (start_duel st))" using settles_phases by blast
  let ?r = "run_phases j (start_duel st)"
  have "\<exists>rs'. track_on (j_sp j) (h_signer (j_host j)) schema (q_track (j_req j)) rs' (hs_store (snd ?r)) \<and> one_more (j_req j) (j_event_id j) rs (fst ?r) rs'"
  proof (cases "\<exists>d0. going row_ok (j_dir j) (start_duel st) d0 \<and> ?r = publish (j\<lparr>j_defs := us\<rparr>) d0")
    case True
    then obtain d0 where d0: "steady (j_dir j) (start_duel st) d0" "?r = publish (j\<lparr>j_defs := us\<rparr>) d0" using going_steady by blast
    have "track_on (j_sp j) (h_signer (j_host j)) schema (q_track (j_req j)) rs (hs_store d0)"
      using d0(1) tr same_tracks_track_on by (simp add: steady_def) blast
    then show ?thesis
      using publish_track [of "j\<lparr>j_defs := us\<rparr>" schema rs d0] sg schema wf fight_outcome [of j st] d0(2) by (simp add: j_event_id_def)
  next
    case False
    then have "steady (j_dir j) (start_duel st) (snd ?r)" using s by (auto simp: settles_def)
    then have "track_on (j_sp j) (h_signer (j_host j)) schema (q_track (j_req j)) rs (hs_store (snd ?r))"
      using tr same_tracks_track_on by (simp add: steady_def) blast
    then show ?thesis using one_more_same by blast
  qed
  then show ?thesis using fight_outcome [of j st] one_more_Inr by metis
qed

lemma record_request_store [simp]: "hs_store (snd (record_request tm ho q st)) = hs_store st"
  by (simp add: record_request_def Let_def move_aside_def)

lemma terms_version: "terms_of sp trk sz = Some tm \<Longrightarrow> spec_version sp = Some (tm_version tm) \<and> store_schema sp = Some (tm_schema tm)"
  by (auto simp: terms_of_def bind_eq_Some_conv)

text \<open>What a run does once its request is recorded.\<close>

lemma run_duel_request:
  assumes "q_track q \<in> set (spec_tracks sp)" and "terms_of sp (q_track q) (q_size q) = Some tm"
    and "record_request tm ho q st = (request, st1)"
  shows "run_duel sp ho q st = (case outcome_of (run_dir (tm_version tm) q) st1 of
           None \<Rightarrow> (Inl (Escaped ''KeyError''), st1)
         | Some (Some res) \<Rightarrow> (Inr res, st1)
         | Some None \<Rightarrow>
           (case published (q_track q) (request_event_id (tm_version tm) q) (hs_store st1) of
              None \<Rightarrow> (Inl (Escaped ''TypeError''), st1)
            | Some (Some rec) \<Rightarrow> republished sp tm ho q rec st1
            | Some None \<Rightarrow>
                if \<not> crown_held q (hs_store st1) then (let (stp, st2) = crown_stop q (run_dir (tm_version tm) q) st1 in (Inl stp, st2))
                else case key_of request ''started_at'' of
                  None \<Rightarrow> (Inl (Escaped ''KeyError''), st1)
                | Some started \<Rightarrow>
                    fight \<lparr>j_sp = sp, j_terms = tm, j_host = ho, j_req = q, j_dir = run_dir (tm_version tm) q,
                      j_started = py_str started, j_defs = []\<rparr> st1))"
  using assms by (simp add: run_duel_def Let_def)

lemma run_duel_track:
  assumes sg: "sound_signer (h_verify ho) (h_signer ho)" and ver: "spec_version sp = Some ver" and schema: "store_schema sp = Some schema"
    and tr: "track_on sp (h_signer ho) schema (q_track q) rs (hs_store st)"
    and wf: "\<And>res. fst (run_duel sp ho q st) = Inr res \<Longrightarrow> wf_json (r_record res)"
  shows "\<exists>rs'. track_on sp (h_signer ho) schema (q_track q) rs' (hs_store (snd (run_duel sp ho q st)))
    \<and> one_more q (request_event_id ver q) rs (fst (run_duel sp ho q st)) rs'"
proof -
  have same: ?thesis if "hs_store (snd (run_duel sp ho q st)) = hs_store st" using that tr one_more_same by metis
  show ?thesis
  proof (cases "q_track q \<in> set (spec_tracks sp) \<and> terms_of sp (q_track q) (q_size q) \<noteq> None")
    case False
    then show ?thesis by (intro same) (auto simp: run_duel_def split: option.split)
  next
    case True
    then obtain tm where tm: "q_track q \<in> set (spec_tracks sp)" "terms_of sp (q_track q) (q_size q) = Some tm" by blast
    then have v: "tm_version tm = ver" using terms_version [OF tm(2)] ver by simp
    obtain request st1 where rq: "record_request tm ho q st = (request, st1)" by (cases "record_request tm ho q st")
    then have st1: "hs_store st1 = hs_store st" using record_request_store [of tm ho q st] by simp
    have tr1: "track_on sp (h_signer ho) schema (q_track q) rs (hs_store st1)" using tr st1 by simp
    note pub = published_track [OF sg tr1]
    note run = run_duel_request [OF tm rq]
    show ?thesis
    proof (cases "outcome_of (run_dir (tm_version tm) q) st1 = Some None")
      case False
      then show ?thesis by (intro same) (auto simp: run st1 split: option.split)
    next
      case open_: True
      obtain found where f: "published (q_track q) (request_event_id (tm_version tm) q) (hs_store st1) = Some found" using pub(2) by auto
      show ?thesis
      proof (cases found)
        case (Some rec)
        then have ne: "rs \<noteq> []" using pub(3) f by simp
        have "run_duel sp ho q st = republished sp tm ho q rec st1" by (simp add: run open_ f Some)
        then show ?thesis using republished_track [OF sg schema tr1 ne] one_more_same by metis
      next
        case None
        have crown: "hs_store (snd (crown_stop q dir st1)) = hs_store st1" for dir
          by (simp add: crown_stop_def move_aside_def Let_def)
        show ?thesis
        proof (cases "crown_held q (hs_store st1) \<and> key_of request ''started_at'' \<noteq> None")
          case False
          then show ?thesis by (intro same) (auto simp: run open_ f [unfolded None st1] crown st1 case_prod_beta split: option.split)
        next
          case True
          then obtain started where started: "key_of request ''started_at'' = Some started" by blast
          define j where "j = \<lparr>j_sp = sp, j_terms = tm, j_host = ho, j_req = q, j_dir = run_dir (tm_version tm) q,
            j_started = py_str started, j_defs = []\<rparr>"
          have r: "run_duel sp ho q st = fight j st1" using True by (simp add: run open_ f None started j_def)
          show ?thesis
            using fight_track [of j schema rs st1] sg schema tr1 wf r by (simp add: j_def j_event_id_def v)
        qed
      qed
    qed
  qed
qed

end
