(* ===== verification/Duel_Done.thy ===== *)
theory Duel_Done
  imports Duel_Facts
begin

text \<open>
  What a finished run leaves behind: a record whose counts are those of the rows it publishes, and an
  outcome that answers for the duel whenever it is asked for again. The sample at the end is a
  contract, a host and a request whose duel runs to its published record.
\<close>

section \<open>The record and the rows\<close>

lemma paired_sides: "paired_outcome (side_success u ''king'') (side_success u ''challenger'')
    = paired_outcome (jget u ''king_success'') (jget u ''challenger_success'')"
  by (simp add: paired_outcome_def side_success_def Let_def)

lemma row_ok_outcome: "row_ok u \<Longrightarrow> outcome_matches u"
  by (auto simp: row_ok_def outcome_matches_def paired_sides split: if_splits)

lemma as_king_fields: "jget (as_king u) ''void'' = jget u ''void''" "jget (as_king u) ''challenger_success'' = JNull"
  "jget (as_king u) ''outcome'' = JStr ''tie''"
  by (simp_all add: as_king_def)

lemma as_king_outcome: "outcome_matches (as_king u)"
  by (simp add: outcome_matches_def as_king_fields paired_sides) (simp add: paired_outcome_def)

definition record_agrees :: "job \<Rightarrow> duel_result \<Rightarrow> bool" where
  "record_agrees j res \<longleftrightarrow>
     (let us = r_units res; t = tally_of us; v = verdict_of us (tm_margin (j_terms j)) (tm_skills (j_terms j)); rec = r_record res in
      jget rec ''wins'' = JInt (int (t_wins t)) \<and> jget rec ''losses'' = JInt (int (t_losses t))
      \<and> jget rec ''ties'' = JInt (int (t_ties t)) \<and> jget rec ''decided'' = JInt (int (t_wins t + t_losses t))
      \<and> jget rec ''void'' = JInt (int (t_void t))
      \<and> jget rec ''king_scores'' = scores_json (Some (king_scores v))
      \<and> jget rec ''dethroned'' = JBool (q_king (j_req j) \<noteq> None \<and> dethroned v))"

lemma scored_tally:
  assumes "rows row_ok d" and "scored_record j d = (units, args, scoring)"
  shows "a_tally args = tally_as_dict (tally_of units)" and "a_dethroned args = (q_king (j_req j) \<noteq> None
    \<and> dethroned (verdict_of units (tm_margin (j_terms j)) (tm_skills (j_terms j))))"
    and "a_king_scores args = Some (king_scores (verdict_of units (tm_margin (j_terms j)) (tm_skills (j_terms j))))"
proof -
  have "units = (if q_king (j_req j) = None then map as_king (d_units d) else d_units d)"
    using assms(2) by (simp add: scored_record_def Let_def)
  then have "list_all outcome_matches units"
    using assms(1) by (simp add: list_all_iff row_ok_outcome as_king_outcome)
  then show "a_tally args = tally_as_dict (tally_of units)"
    using assms(2) by (auto simp: scored_record_def Let_def unit_tally_tally)
qed (use assms(2) in \<open>auto simp: scored_record_def Let_def verdict_of_def\<close>)

lemma decided_sum: "t_decided (tally_of us) = t_wins (tally_of us) + t_losses (tally_of us)"
  by (simp add: tally_of_def Let_def)

lemma publish_record_agrees:
  assumes "rows row_ok d" and "fst (publish_record j d) = Inr res"
  shows "record_agrees j res"
proof -
  obtain units args scoring where sc: "scored_record j d = (units, args, scoring)" by (cases "scored_record j d")
  have r: "r_units res = units" "\<exists>n. r_record res = jset (index_record args) ''seq'' n"
    using assms(2) by (auto simp: publish_record_def Let_def sc split: prod.splits sum.splits)
  have t: "truthy (a_tally args)" "\<And>k. jget (a_tally args) k = jget (tally_as_dict (tally_of units)) k"
    by (simp_all add: scored_tally(1) [OF assms(1) sc] tally_as_dict_def)
  show ?thesis using r t scored_tally(2,3) [OF assms(1) sc]
    by (auto simp: record_agrees_def Let_def index_record_def jget_JObj tally_as_dict_def decided_sum)
qed

lemma publish_agrees:
  assumes "rows row_ok d" and "published (q_track (j_req j)) (j_event_id j) (hs_store d) = Some None" and "fst (publish j d) = Inr res"
  shows "record_agrees j res"
proof -
  define d1 where "d1 = enter j ''publishing'' None ''publishing the record'' d"
  have "fst (publish_record j d1) = Inr res"
    using assms(2,3) by (auto simp: publish_def Let_def d1_def case_prod_beta split: if_splits)
  then show ?thesis by (rule publish_record_agrees [rotated]) (use assms(1) in \<open>simp add: d1_def\<close>)
qed

lemma start_duel_fields [simp]: "d_units (start_duel st) = []" "d_raised (start_duel st) = None" "d_prompts (start_duel st) = []"
    "d_forfeit (start_duel st) = None" "d_sides (start_duel st) = []" "d_pending (start_duel st) = []"
  by (simp_all add: start_duel_def)

lemma fight_agrees:
  assumes sg: "sound_signer (h_verify (j_host j)) (h_signer (j_host j))"
    and tr: "track_on (j_sp j) (h_signer (j_host j)) schema (q_track (j_req j)) rs (hs_store st)"
    and fresh: "\<forall>r\<in>set rs. jget r ''event_id'' \<noteq> JStr (j_event_id j)"
    and out: "fst (fight j st) = Inr res" and pub: "r_status res = ''published''"
  shows "record_agrees j res"
proof -
  obtain us where s: "settles (j\<lparr>j_defs := us\<rparr>) (start_duel st) (run_phases j (start_duel st))" using settles_phases by blast
  let ?j = "j\<lparr>j_defs := us\<rparr>"
  have r: "fst (run_phases j (start_duel st)) = Inr res" using conjunct2 [OF fight_outcome [of j st]] out by blast
  have "\<not> quiet_end (Inr res) ?j d" for d using pub by (simp add: quiet_end_def)
  then obtain d0 where d0: "going row_ok (j_dir ?j) (start_duel st) d0" "run_phases j (start_duel st) = publish ?j d0"
    using s r unfolding settles_def by auto
  have "track_on (j_sp j) (h_signer (j_host j)) schema (q_track (j_req j)) rs (hs_store d0)"
    using going_steady [OF d0(1)] tr same_tracks_track_on by (simp add: steady_def) blast
  then have "published (q_track (j_req j)) (j_event_id j) (hs_store d0) = Some None"
    using published_track(1) [OF sg] fresh by blast
  moreover have "rows row_ok d0" using d0(1) by (simp add: going_def)
  ultimately have "record_agrees ?j res"
    using publish_agrees [of d0 ?j res] r d0(2) by (simp add: j_event_id_def)
  then show ?thesis by (simp add: record_agrees_def)
qed

section \<open>Asked again\<close>

lemma py_eq_jsort: "wf_json j \<Longrightarrow> py_eq (jsort j) j"
proof (induction j)
  case (JArr xs)
  then show ?case by (auto simp: list_all_iff in_set_zip)
next
  case (JObj kvs)
  have "case map_of kvs (fst kv) of None \<Rightarrow> False | Some v \<Rightarrow> py_eq (snd kv) v"
    if kv: "kv \<in> set (sort_key fst (map (\<lambda>kv. (fst kv, jsort (snd kv))) kvs))" for kv
  proof -
    obtain x where x: "x \<in> set kvs" "kv = (fst x, jsort (snd x))" using kv by auto
    have "map_of kvs (fst x) = Some (snd x)" using JObj.prems x(1) by simp
    moreover have "py_eq (jsort (snd x)) (snd x)"
      using JObj.prems x(1) JObj.IH [OF x(1), of "snd x"] by (cases x) (auto simp: list_all_iff)
    ultimately show ?thesis by (simp add: x(2))
  qed
  then show ?case by (simp add: list_all_iff)
qed simp_all

lemma jdel_jsort: "is_obj d \<Longrightarrow> jdel (jsort d) k = jsort (jdel d k)"
  by (cases d) (simp_all add: jdel_def filter_sort filter_map comp_def)

lemma request_doc: "is_obj (request_dict ver sz q)" "jdel (jset (request_dict ver sz q) ''started_at'' v) ''started_at'' = request_dict ver sz q"
    "wf_json (request_dict ver sz q)"
  by (simp_all add: request_dict_def jset_def jdel_def opt_json_def split: option.split)

lemma record_request_held:
  assumes "record_request tm ho q st = (doc, st1)"
  shows "holds_request tm q st1 \<and> is_obj (read_run_json (run_dir (tm_version tm) q) ''request.json'' st1)"
proof -
  let ?dir = "run_dir (tm_version tm) q"
  let ?doc = "jset (request_dict (tm_version tm) (tm_size tm) q) ''started_at'' (JStr (h_asked_at ho))"
  show ?thesis
  proof (cases "is_obj (read_run_json ?dir ''request.json'' st) \<and> holds_request tm q st")
    case True
    then show ?thesis using assms by (simp add: record_request_def Let_def)
  next
    case False
    then obtain st0 where "st1 = write_run_json ?dir ''request.json'' ?doc st0"
      using assms by (auto simp: record_request_def Let_def)
    then have "read_run_json ?dir ''request.json'' st1 = jsort ?doc"
      using loads_pretty [of ?doc] request_doc(3) by (simp add: read_run_json_def write_run_json_def run_file_set wf_json_jset)
    then show ?thesis
      using request_doc(1) py_eq_jsort [OF request_doc(3)] by (simp add: holds_request_def jdel_jsort request_doc(2))
  qed
qed

definition reread :: "duel_result \<Rightarrow> duel_result" where
  "reread res = res\<lparr>r_record := jsort (r_record res), r_units := map jsort (r_units res)\<rparr>"

lemma result_reread:
  assumes "wf_json (result_dict res)" shows "result_from_dict (jsort (result_dict res)) = Some (reread res)"
proof -
  have g: "jget (jsort (result_dict res)) k = jsort (jget (result_dict res) k)" for k by (rule jget_jsort [OF assms])
  have f: "jget (result_dict res) ''status'' = JStr (r_status res)" "jget (result_dict res) ''kind'' = JStr (r_kind res)"
    "jget (result_dict res) ''event_id'' = JStr (r_event_id res)" "jget (result_dict res) ''duel_id'' = JStr (r_duel_id res)"
    "jget (result_dict res) ''reason'' = JStr (r_reason res)" "jget (result_dict res) ''run_dir'' = JStr (r_run_dir res)"
    "jget (result_dict res) ''record'' = r_record res" "jget (result_dict res) ''units'' = JArr (r_units res)"
    by (simp_all add: result_dict_def jget_JObj)
  have k: "key_of (jsort (result_dict res)) k = Some (JStr x)" if "jget (result_dict res) k = JStr x" for k x
    using key_of_nonnull [of "jsort (result_dict res)" k] by (simp add: g that)
  show ?thesis by (simp add: result_from_dict_def k f g reread_def)
qed

definition keeps_outcome :: "string \<Rightarrow> 'a hosting_scheme \<Rightarrow> 'b hosting_scheme \<Rightarrow> duel_result \<Rightarrow> bool" where
  "keeps_outcome dir st st1 res \<longleftrightarrow> run_file dir ''request.json'' st1 = run_file dir ''request.json'' st
     \<and> run_file dir ''outcome.json'' st1 = Some (pretty_json (result_dict res))"

lemma outcome_reread:
  assumes "keeps_outcome dir st st1 res" and "wf_json (result_dict res)"
  shows "outcome_of dir st1 = Some (Some (reread res))"
  using assms loads_pretty [of "result_dict res"] result_reread [of res]
  by (simp add: keeps_outcome_def outcome_of_def read_run_json_def) (simp add: result_dict_def)

lemma push_runs [simp]: "hs_runs (push_touched ho st) = hs_runs st"
  by (auto simp: push_touched_def Let_def split: option.split prod.split)

lemma keeps_write: "hs_runs st1 = hs_runs st \<Longrightarrow> keeps_outcome dir st (write_run_json dir ''outcome.json'' (result_dict res) st1) res"
  using run_file_cong [of st1 st] by (simp add: keeps_outcome_def write_run_json_def run_file_set)

lemma keeps_enter [simp]: "keeps_outcome dir st (enter j p sd m d) res = keeps_outcome dir st d res"
  using run_file_cong [of "enter j p sd m d" d] by (simp add: keeps_outcome_def)

lemma republished_keeps: "fst (republished sp tm ho q rec st) = Inr res \<Longrightarrow>
    keeps_outcome (run_dir (tm_version tm) q) st (snd (republished sp tm ho q rec st)) res"
  by (auto simp: republished_def Let_def keeps_write split: prod.splits sum.splits)

lemma publish_record_keeps: "fst (publish_record j d) = Inr res \<Longrightarrow> keeps_outcome (j_dir j) d (snd (publish_record j d)) res"
  by (auto simp: publish_record_def Let_def keeps_write split: prod.splits sum.splits)

lemma publish_keeps:
  assumes "j_dir j = run_dir (tm_version (j_terms j)) (j_req j)" and "fst (publish j d) = Inr res"
  shows "keeps_outcome (j_dir j) d (snd (publish j d)) res"
proof -
  define d1 where "d1 = enter j ''publishing'' None ''publishing the record'' d"
  have d1: "keeps_outcome (j_dir j) d1 r res \<Longrightarrow> keeps_outcome (j_dir j) d r res" for r :: duel
    using run_file_cong [of d1 d] by (simp add: d1_def keeps_outcome_def)
  have w: "snd (within_run r) = snd r" "fst (within_run r) = Inr res \<Longrightarrow> fst r = Inr res" for r :: "(stop + duel_result) \<times> duel"
    by (auto simp: within_run_def split: prod.splits sum.splits stop.splits)
  have p: "publish j d = (case published (q_track (j_req j)) (j_event_id j) (hs_store d1) of
        None \<Rightarrow> (Inl (Duel_Failed ''TypeError''), d1)
      | Some (Some rec) \<Rightarrow> within_run (republished (j_sp j) (j_terms j) (j_host j) (j_req j) rec d1)
      | Some None \<Rightarrow>
          if \<not> crown_held (j_req j) (hs_store d1) then
            (let (st, d2) = crown_stop (j_req j) (j_dir j) d1
             in (Inl st, enter j ''failed'' None (''stale: '' @ crown_reason (j_req j) (hs_store d1)) d2))
          else publish_record j d1)" unfolding publish_def Let_def d1_def by (rule refl)
  show ?thesis
  proof (cases "published (q_track (j_req j)) (j_event_id j) (hs_store d1)")
    case None
    then show ?thesis using assms(2) by (simp add: p)
  next
    case (Some found)
    show ?thesis
    proof (cases found)
      case None
      then show ?thesis using assms(2) Some publish_record_keeps [of j d1 res] d1
        by (cases "crown_held (j_req j) (hs_store d1)") (simp_all add: p case_prod_beta)
    next
      case (Some rec)
      have pr: "publish j d = within_run (republished (j_sp j) (j_terms j) (j_host j) (j_req j) rec d1)"
        using \<open>published _ _ _ = Some found\<close> by (simp add: p Some)
      show ?thesis using republished_keeps [OF w(2)] assms(2) d1 unfolding pr w(1) assms(1) by blast
    qed
  qed
qed

lemma keeps_end: "keeps_outcome dir st d res \<Longrightarrow> keeps_outcome dir st (hosting.truncate (unlink_run_file dir' ''failed.txt'' d)) res"
proof -
  have m: "map_of (filter (\<lambda>f. fst f \<noteq> n') fs) n = map_of fs n" if "n \<noteq> n'" for n n' and fs :: files
    using that by (induction fs) auto
  have "run_file dir n (hosting.truncate (unlink_run_file dir' ''failed.txt'' d)) = run_file dir n d" if "n \<noteq> ''failed.txt''" for n
    using that by (auto simp: run_file_def unlink_run_file_def hosting.truncate_def read_file_def m split: option.split)
  then show "keeps_outcome dir st d res \<Longrightarrow> ?thesis" by (simp add: keeps_outcome_def)
qed

lemma fight_keeps:
  assumes dir: "j_dir j = run_dir (tm_version (j_terms j)) (j_req j)" and out: "fst (fight j st) = Inr res" and pub: "r_status res = ''published''"
  shows "keeps_outcome (j_dir j) st (snd (fight j st)) res"
proof -
  obtain us where s: "settles (j\<lparr>j_defs := us\<rparr>) (start_duel st) (run_phases j (start_duel st))" using settles_phases by blast
  let ?j = "j\<lparr>j_defs := us\<rparr>"
  have r: "fst (run_phases j (start_duel st)) = Inr res" using conjunct2 [OF fight_outcome [of j st]] out by blast
  have "\<not> quiet_end (Inr res) ?j d" for d using pub by (simp add: quiet_end_def)
  then obtain d0 where d0: "going row_ok (j_dir ?j) (start_duel st) d0" "run_phases j (start_duel st) = publish ?j d0"
    using s r unfolding settles_def by auto
  have "keeps_outcome (j_dir j) d0 (snd (publish ?j d0)) res" using publish_keeps [of ?j d0 res] dir r d0(2) by simp
  moreover have "run_file (j_dir j) ''request.json'' d0 = run_file (j_dir j) ''request.json'' st"
    using going_steady [OF d0(1)] by (simp add: steady_def run_file_def)
  ultimately have "keeps_outcome (j_dir j) st (snd (run_phases j (start_duel st))) res" by (simp add: keeps_outcome_def d0(2))
  moreover have "snd (fight j st) = hosting.truncate (unlink_run_file (j_dir j) ''failed.txt'' (snd (run_phases j (start_duel st))))"
    using r by (auto simp: fight_def split: prod.split sum.split stop.split)
  ultimately show ?thesis by (simp add: keeps_end)
qed

lemma run_again:
  assumes "q_track q \<in> set (spec_tracks sp)" and "terms_of sp (q_track q) (q_size q) = Some tm"
    and "holds_request tm q st" and "is_obj (read_run_json (run_dir (tm_version tm) q) ''request.json'' st)"
    and "outcome_of (run_dir (tm_version tm) q) st = Some (Some res)"
  shows "run_duel sp ho q st = (Inr res, st)"
  using assms by (simp add: run_duel_def record_request_def Let_def)

lemma holds_request_cong: "run_file (run_dir (tm_version tm) q) ''request.json'' st' = run_file (run_dir (tm_version tm) q) ''request.json'' st \<Longrightarrow>
    read_run_json (run_dir (tm_version tm) q) ''request.json'' st' = read_run_json (run_dir (tm_version tm) q) ''request.json'' st
    \<and> holds_request tm q st' = holds_request tm q st"
  by (simp add: holds_request_def read_run_json_def)

lemma decided_again:
  assumes run: "run_duel sp ho q st = (Inr res, st2)" and pub: "r_status res = ''published''" and wf: "wf_json (result_dict res)"
  shows "\<exists>res'. run_duel sp ho' q st2 = (Inr res', st2) \<and> (res' = res \<or> res' = reread res)"
proof -
  have known: "q_track q \<in> set (spec_tracks sp)" using run by (simp add: run_duel_def split: if_splits)
  moreover obtain tm where tm: "terms_of sp (q_track q) (q_size q) = Some tm"
    using run by (auto simp: run_duel_def split: if_splits option.splits)
  define dir where "dir = run_dir (tm_version tm) q"
  obtain request st1 where rq: "record_request tm ho q st = (request, st1)" by (cases "record_request tm ho q st")
  note held = record_request_held [OF rq, folded dir_def]
  have again: "\<exists>res'. run_duel sp ho' q st2 = (Inr res', st2) \<and> (res' = res \<or> res' = reread res)"
    if "keeps_outcome dir st1 st2 res"
  proof -
    have "holds_request tm q st2" "is_obj (read_run_json dir ''request.json'' st2)"
      using held holds_request_cong [of tm q st2 st1] that by (simp_all add: keeps_outcome_def dir_def)
    then show ?thesis using run_again [OF known tm _ _ outcome_reread [OF that wf, unfolded dir_def]] by (simp add: dir_def)
  qed
  note r = run [unfolded run_duel_request [OF known tm rq], folded dir_def]
  show ?thesis
  proof (cases "outcome_of dir st1 = Some None")
    case False
    then have "outcome_of dir st1 = Some (Some res)" "st2 = st1" using r by (auto split: option.splits)
    then show ?thesis using run_again [OF known tm, of st1] held by (simp add: dir_def)
  next
    case open_: True
    obtain found where f: "published (q_track q) (request_event_id (tm_version tm) q) (hs_store st1) = Some found"
      using r open_ by (auto split: option.splits)
    show ?thesis
    proof (cases found)
      case (Some rec)
      then have "republished sp tm ho q rec st1 = (Inr res, st2)" using r by (simp add: open_ f)
      then show ?thesis using republished_keeps [of sp tm ho q rec st1 res] again by (simp add: dir_def)
    next
      case None
      obtain started where started: "key_of request ''started_at'' = Some started"
        using r by (auto simp: open_ f None case_prod_beta split: if_splits option.splits)
      define j where "j = \<lparr>j_sp = sp, j_terms = tm, j_host = ho, j_req = q, j_dir = dir, j_started = py_str started, j_defs = []\<rparr>"
      have "fight j st1 = (Inr res, st2)" using r by (simp add: open_ f None started case_prod_beta j_def split: if_splits)
      then have "keeps_outcome dir st1 st2 res" using fight_keeps [of j st1 res] pub by (simp add: j_def dir_def)
      then show ?thesis by (rule again)
    qed
  qed
qed

section \<open>A duel that publishes\<close>

definition small_spec :: contract where
  "small_spec = \<lparr>raw = JObj [(''spec_version'', JInt 7),
     (''tracks'', JObj [(''fa'', JObj [(''skills'', JArr []), (''default_size'', JStr ''smoke''),
        (''demonstration'', JObj [(''view'', JStr ''sensorimotor'')])])]),
     (''duel'', JObj [(''default_size'', JStr ''smoke''), (''sizes'', JObj [(''smoke'', JObj [(''units_per_skill'', JInt 2)])]),
        (''score_margin'', JInt 1), (''max_void_fraction'', JInt 1)]),
     (''budgets'', JObj [(''policy_budget_seconds'', JInt 1)]), (''media'', JObj [(''video'', JObj [(''format'', JStr ''mp4'')])]),
     (''store'', JObj [(''schema'', JInt 4), (''index_lines_per_part'', JInt 2), (''media_bucket_hex'', JInt 2)]),
     (''live'', JObj [(''media_flush_units'', JInt 4)])], fingerprint = []\<rparr>"

definition small_terms :: terms where
  "small_terms = \<lparr>tm_version = 7, tm_schema = 4, tm_size = ''smoke'', tm_skills = [], tm_margin = 1, tm_max_void = 1, tm_units = 2,
     tm_view = ''sensorimotor'', tm_demonstration = JObj [(''view'', JStr ''sensorimotor'')], tm_benchmarks = [], tm_format = ''mp4'',
     tm_demo_media = True, tm_bucket = 2, tm_policy_budget = 1, tm_flush = Some 4\<rparr>"

lemma small_terms_of: "terms_of small_spec ''fa'' None = Some small_terms"
  by code_simp

definition small_host :: host where
  "small_host = \<lparr>h_asked_at = ''t0'', h_finished_at = ''t1'', h_sent_at = (\<lambda>_. ''t''), h_wall = 1, h_runtime = ''docker'',
     h_resolve = (\<lambda>_. None), h_derive = (\<lambda>_ _ _ _ _. Inr []), h_text = (\<lambda>_. ''e''), h_fetch = (\<lambda>_. Given JNull), h_prepare = (\<lambda>_. Given (JObj [])),
     h_mat = sample_mat_world, h_turn = (\<lambda>_. sample_turn (Policy_Died [])), h_clip = (\<lambda>_. None), h_info = (\<lambda>_. JNull), h_installed = (\<lambda>_. JNull),
     h_mirror = None, h_signer = sample_signer, h_verify = sample_verify\<rparr>"

definition small_request :: duel_request where
  "small_request = \<lparr>q_track = ''fa'', q_challenger = make_ref sample_repo sample_sha, q_king = None, q_size = None, q_block = 1\<rparr>"

definition small_job :: job where
  "small_job = \<lparr>j_sp = small_spec, j_terms = small_terms, j_host = small_host, j_req = small_request, j_dir = run_dir 7 small_request,
     j_started = ''t0'', j_defs = []\<rparr>"

definition small_hosting :: hosting where
  "small_hosting = \<lparr>hs_store = sample_store, hs_runs = [], hs_frames = [], hs_mirrored = [], hs_pushes = 0\<rparr>"

lemma small_plugin: "plugin_units small_spec dv ''fa'' dd sz = Inr []"
  by (cases sz; simp add: plugin_units_def units_per_skill_def size_of_def sizes_def default_size_def duel_of_def skills_def track_def spec_section_def
    small_spec_def key_of_def jget_JObj jhas_JObj)

lemma small_simps [simp]: "j_sp small_job = small_spec" "j_terms small_job = small_terms" "j_host small_job = small_host"
    "j_req small_job = small_request" "j_dir small_job = run_dir 7 small_request" "j_started small_job = ''t0''" "j_defs small_job = []"
    "small_job\<lparr>j_defs := []\<rparr> = small_job" "tm_benchmarks small_terms = []" "tm_flush small_terms = Some 4" "tm_max_void small_terms = 1"
    "h_resolve small_host b = None" "h_fetch small_host x = Given JNull" "h_prepare small_host x = Given (JObj [])"
    "h_mirror small_host = None" "h_derive small_host = (\<lambda>_ _ _ _ _. Inr [])"
    "h_signer small_host = sample_signer" "h_verify small_host = sample_verify" "q_track small_request = ''fa''" "q_king small_request = None"
  by (simp_all add: small_job_def small_terms_def small_host_def small_request_def)

lemma set_run_keeps [simp]: "d_raised (set_run_file dir n t d) = d_raised d" "d_raised (set_run_text dir n tx d) = d_raised d"
  "d_pending (set_run_file dir n t d) = d_pending d" "d_pending (set_run_text dir n tx d) = d_pending d"
  "hs_store (set_run_text dir n tx d) = hs_store d"
  by (simp_all add: set_run_file_def set_run_text_def split: option.split)

lemma small_push [simp]: "push_touched small_host d = d"
  by (simp add: push_touched_def)

lemma small_derived: "derive_rows small_job d = Inr (small_job, d\<lparr>d_units := []\<rparr>)"
  by (simp add: derive_rows_def small_plugin Let_def)

definition quiet_duel :: "store \<Rightarrow> duel \<Rightarrow> bool" where
  "quiet_duel s d \<longleftrightarrow> hs_store d = s \<and> (\<forall>n. n \<noteq> ''request.json'' \<longrightarrow> run_file (run_dir 7 small_request) n d = None) \<and> d_units d = [] \<and> d_raised d = None \<and> d_pending d = []"

lemma pending_simps [simp]: "d_pending (enter j p sd m d) = d_pending d" "d_pending (say j m d) = d_pending d"
  by (simp_all add: enter_def say_def)

lemma quiet_simps: "quiet_duel s (enter j p sd m d) = quiet_duel s d" "quiet_duel s (say j m d) = quiet_duel s d"
  "quiet_duel s (d\<lparr>d_sides := ms\<rparr>) = quiet_duel s d" "quiet_duel s (d\<lparr>d_forfeit := ff\<rparr>) = quiet_duel s d"
  "quiet_duel s (d\<lparr>d_prompts := ps\<rparr>) = quiet_duel s d" "quiet_duel s (d\<lparr>d_prepared := pp\<rparr>) = quiet_duel s d"
  using run_file_cong [of "enter j p sd m d" d] run_file_cong [of "say j m d" d] by (simp_all add: quiet_duel_def run_file_def)

lemma quiet_files: "quiet_duel s d \<Longrightarrow> n \<noteq> ''request.json'' \<Longrightarrow> run_file (run_dir 7 small_request) n d = None"
  by (simp add: quiet_duel_def)

lemma side_file_name [simp]: "side_file s \<noteq> ''request.json''"
  by (auto simp: side_file_def dest!: arg_cong [of _ _ rev])

lemma small_evaluate: "quiet_duel s d \<Longrightarrow> quiet_duel s (evaluate small_job side d)"
proof -
  assume q: "quiet_duel s d"
  define d1 where "d1 = enter small_job ''evaluating'' (Some side) (''evaluating '' @ side) d"
  have d1: "quiet_duel s d1" using q by (simp add: quiet_simps d1_def)
  then have f: "run_file (run_dir 7 small_request) (side_file x) d1 = None" "d_raised d1 = None" "d_pending d1 = []" for x
    using quiet_files side_file_name by (simp_all add: quiet_duel_def)
  have play: "play_side small_job side d1 = d1" by (simp add: play_side_def Let_def f run_side_def set_run_text_def)
  have none: "read_results None = []" by (simp add: read_results_def read_table_def)
  obtain w where w: "wall_total [] = Some w" by (simp add: wall_total_def)
  have "flush_media small_job True d1 = d1" by (simp add: flush_media_def f)
  then have "\<exists>m. evaluate small_job side d = d1\<lparr>d_sides := m\<rparr>"
    unfolding evaluate_def Let_def d1_def [symmetric] by (auto simp: f play w none)
  then show ?thesis using d1 by (auto simp: quiet_simps)
qed

lemma quiet_never_void: "quiet_duel s d \<Longrightarrow> \<not> certainly_void small_job d"
  by (simp add: quiet_duel_def certainly_void_def too_void_def void_fraction_def)

lemma small_sides: "quiet_duel s d \<Longrightarrow> \<exists>d1. run_sides small_job [x] d = publish small_job d1 \<and> quiet_duel s d1"
  using small_evaluate [of s d x] quiet_never_void by (auto simp: Let_def quiet_duel_def)

lemma small_phase:
  assumes "quiet_duel s d" shows "\<exists>d1. play_phase small_job d = publish small_job d1 \<and> quiet_duel s d1"
proof -
  define e where "e = enter small_job ''materializing'' (d_side d) ''materializing the demonstrations'' d"
  have e: "quiet_duel s e" "d_raised e = None" using assms by (simp_all add: quiet_simps e_def) (simp add: quiet_duel_def)
  have "materialize_phase small_job d = (Inr (), e\<lparr>d_prompts := []\<rparr>)"
    using e quiet_files [OF e(1), of "''prompts/manifest.jsonl''"] unfolding materialize_phase_def materialize_units_def Let_def e_def [symmetric]
    by (simp add: set_run_text_def)
  then show ?thesis
    using small_sides [of s "e\<lparr>d_prompts := []\<rparr>" "''challenger''"] quiet_never_void [of s "e\<lparr>d_prompts := []\<rparr>"] e(1)
    by (simp add: play_phase_def sides_of_def quiet_simps del: run_sides.simps)
qed

lemma small_check:
  assumes "quiet_duel s d" shows "\<exists>d1. check_phase small_job [] [''challenger''] d = publish small_job d1 \<and> quiet_duel s d1"
  using assms unfolding check_phase_def sides_of_def by (simp add: Let_def small_phase quiet_simps)

lemma small_run: "quiet_duel s d \<Longrightarrow> \<exists>d1. run_phases small_job d = publish small_job d1 \<and> quiet_duel s d1"
proof -
  assume q: "quiet_duel s d"
  then have e: "quiet_duel s (enter small_job ''fetching'' (d_side d) ''fetching the submissions'' (d\<lparr>d_units := []\<rparr>))"
    unfolding quiet_simps by (simp add: quiet_duel_def run_file_def)
  show ?thesis using small_check [OF e]
    by (simp add: run_phases_def small_derived recorded_forfeit_def sides_of_def Let_def)
qed

lemma small_track: "track_on small_spec sample_signer 4 ''fa'' [] sample_store"
  using sample_track by (simp add: track_on_def log_on_def lines_per_part_def small_spec_def sample_spec_def spec_section_def sample_contract_def jget_JObj)

lemma small_schema: "store_schema small_spec = Some 4" "spec_version small_spec = Some 7" "spec_tracks small_spec = [''fa'']"
  by (simp_all add: store_schema_def spec_version_def spec_section_def spec_tracks_def small_spec_def jget_JObj)

lemma small_open: "published ''fa'' ev sample_store = Some None" "crown_held small_request sample_store"
  using published_track(1) [OF sample_sound small_track] crowned_head [OF small_track]
  by (simp_all add: crown_held_def crowned_def kings_def opt_json_def)

lemma small_published:
  assumes "quiet_duel sample_store d"
  shows "\<exists>res. fst (publish small_job d) = Inr res \<and> r_status res = ''published'' \<and> wf_json (result_dict res)"
proof -
  define d1 where "d1 = enter small_job ''publishing'' None ''publishing the record'' d"
  have d1: "d_units d1 = []" "hs_store d1 = sample_store" using assms by (simp_all add: d1_def quiet_duel_def)
  have p: "publish small_job d = publish_record small_job d1"
    using small_open assms by (simp add: publish_def Let_def quiet_duel_def d1_def)
  obtain units args scoring where sc: "scored_record small_job d1 = (units, args, scoring)" by (cases "scored_record small_job d1")
  have u: "units = []" using sc by (simp add: scored_record_def Let_def d1)
  have a: "a_king_scores args = Some (skill_scores [] ''king'' [])" "a_challenger_scores args = None" "a_score_margin args = 1"
      "a_tally args = unit_tally []"
    using sc u by (auto simp: scored_record_def Let_def d1 small_terms_def)
  have "skill_scores [] side [] = [(''average'', None)]" for side
    by (simp add: skill_scores_def per_skill_def average_def)
  then have args: "units = []" "wf_json (index_record args)"
    using u float_ok_1 by (simp_all add: index_record_def a Let_def scores_json_def opt_float_def opt_json_def ref_dict_def unit_tally_def jget_JObj
        split: option.split)
  obtain res m where "fst (publish_record small_job d1) = Inr res" "r_status res = ''published''" "r_units res = []"
      "r_record res = jset (index_record args) ''seq'' (JInt m)"
    using publish_record_done(1) [of small_job 4, OF _ sc] small_schema(1) args(1) by auto
  then show ?thesis unfolding p using args(2) by (simp add: result_dict_def wf_json_jset)
qed

text \<open>The run of a duel without units, from a host with an empty run directory: it publishes the genesis.\<close>

lemma small_fight:
  fixes st :: hosting
  assumes "hs_store st = sample_store" and "\<And>n. n \<noteq> ''request.json'' \<Longrightarrow> run_file (run_dir 7 small_request) n st = None"
  shows "\<exists>res d. fight small_job st = (Inr res, d) \<and> r_status res = ''published'' \<and> wf_json (result_dict res)"
proof -
  have "quiet_duel sample_store (start_duel st)" using assms by (simp add: quiet_duel_def run_file_def)
  from small_run [OF this] obtain d1 where d1: "run_phases small_job (start_duel st) = publish small_job d1" "quiet_duel sample_store d1" by blast
  then show ?thesis using small_published [OF d1(2)] fight_outcome [of small_job st] by (metis prod.collapse)
qed

lemma small_duel:
  "\<exists>res st. run_duel small_spec small_host small_request small_hosting = (Inr res, st) \<and> r_status res = ''published'' \<and> wf_json (result_dict res)"
proof -
  let ?dir = "run_dir 7 small_request"
  let ?doc = "jset (request_dict 7 ''smoke'' small_request) ''started_at'' (JStr ''t0'')"
  define st where "st = write_run_json ?dir ''request.json'' ?doc small_hosting"
  have st: "hs_store st = sample_store" "\<And>n. n \<noteq> ''request.json'' \<Longrightarrow> run_file ?dir n st = None"
    by (simp_all add: st_def small_hosting_def write_run_json_def run_file_set) (simp add: run_file_def)
  have "record_request small_terms small_host small_request small_hosting = (?doc, st)"
    by (simp add: record_request_def Let_def st_def small_terms_def read_run_json_def run_file_def small_hosting_def) (simp add: small_host_def)
  moreover have "outcome_of ?dir st = Some None" using st(2) [of "''outcome.json''"] by (simp add: outcome_of_def read_run_json_def)
  moreover have "key_of ?doc ''started_at'' = Some (JStr ''t0'')" using key_of_nonnull [of ?doc "''started_at''"] by simp
  moreover have "q_size small_request = None" "tm_version small_terms = 7" by (simp_all add: small_request_def small_terms_def)
  ultimately have "run_duel small_spec small_host small_request small_hosting = fight small_job st"
    using small_schema(3) small_open by (simp add: run_duel_def small_terms_of Let_def st(1) small_job_def)
  then show ?thesis using small_fight [OF st] by auto
qed

lemma one_more_distinct: "one_more q ev rs out rs' \<Longrightarrow> distinct (map (\<lambda>r. jget r ''event_id'') rs) \<Longrightarrow> distinct (map (\<lambda>r. jget r ''event_id'') rs')"
  by (fastforce simp: one_more_def)

section \<open>Properties\<close>



text \<open>C34. A published duel is decided for good: asked for again - by a restarted daemon, on a host that
  would answer anything else - it returns what it returned, as its outcome file reads, and changes
  nothing of the store, the run directories, the frames and the mirror.\<close>

theorem decided_once:
  assumes "run_duel sp ho q st = (Inr res, st')" and "r_status res = ''published''" and "wf_json (result_dict res)"
  shows "\<exists>res'. run_duel sp ho' q st' = (Inr res', st') \<and> (res' = res \<or> res' = reread res)"
  by (rule decided_again [OF assms])

theorem decided_once_witness:
  "\<exists>res st. run_duel small_spec small_host small_request small_hosting = (Inr res, st) \<and> r_status res = ''published''
    \<and> (\<exists>res'. run_duel small_spec small_host small_request st = (Inr res', st))"
  using small_duel decided_once [of small_spec small_host small_request small_hosting] by blast



end
