(* ===== verification/Duel_Void.thy ===== *)
theory Duel_Void
  imports Duel_Done
begin

text \<open>
  Void units stay void: whatever a duel merges, prompts or flushes afterwards, so a duel that is
  certainly void (\<open>certainly_void\<close>, checked after every unit and every side) would be void at its end.
  And what a contract without \<open>live.media_flush_units\<close> does to every duel asked of it.
\<close>

section \<open>Void units\<close>

definition voids_stay :: "duel \<Rightarrow> duel \<Rightarrow> bool" where
  "voids_stay d d' \<longleftrightarrow> list_all2 (\<lambda>u u'. truthy (jget u ''void'') \<longrightarrow> truthy (jget u' ''void'')) (d_units d) (d_units d')"

lemma voids_refl [simp]: "voids_stay d d"
  by (simp add: voids_stay_def list.rel_refl)

lemma voids_trans: "voids_stay a b \<Longrightarrow> voids_stay b c \<Longrightarrow> voids_stay a c"
  unfolding voids_stay_def by (erule (1) list_all2_trans [rotated]) blast

lemma voids_same: "d_units d' = d_units d \<Longrightarrow> voids_stay d d'"
  by (simp add: voids_stay_def list.rel_refl)

lemma voids_update:
  "(\<And>r. truthy (jget r ''void'') \<Longrightarrow> truthy (jget (f r) ''void'')) \<Longrightarrow>
   list_all2 (\<lambda>u u'. truthy (jget u ''void'') \<longrightarrow> truthy (jget u' ''void'')) us (update_row uid f us)"
  by (induction us) (auto simp: list.rel_refl)

lemma merged_void: "truthy (jget r ''void'') \<Longrightarrow> truthy (jget (merged_row side rec r) ''void'')"
  by (auto simp: merged_row_def Let_def)

lemma voids_merge: "voids_stay d (merge_record side r d)"
  by (simp add: voids_stay_def merge_record_def Let_def voids_update merged_void)

lemma voids_fold: "(\<And>x d. voids_stay d (f d x)) \<Longrightarrow> voids_stay d (foldl f d xs)"
  by (induction xs arbitrary: d) (auto intro: voids_trans)

lemma voids_flush_one: "voids_stay d (flush_one j p d)"
  by (auto simp: voids_stay_def flush_one_def Let_def case_prod_beta list.rel_refl intro!: voids_update split: option.split)

lemma voids_flush: "voids_stay d (flush_media j force d)"
proof -
  have "voids_stay d (foldl (\<lambda>d p. flush_one j p d) (d\<lparr>d_pending := []\<rparr>) (d_pending d))"
    by (rule voids_trans [OF voids_same voids_fold]) (simp_all add: voids_flush_one)
  then show ?thesis by (auto simp: flush_media_def voids_stay_def list.rel_refl split: option.split)
qed

lemma voids_on_start: "voids_stay d (on_start j side u d)"
  by (rule voids_same) (simp add: on_start_def)

lemma voids_on_unit: "voids_stay d (on_unit j side u r d)"
  using voids_trans [OF voids_merge [of d side r] voids_flush [of _ j False]]
  by (auto simp: on_unit_def Let_def voids_stay_def)

lemma voids_play: "voids_stay d (play_side j side d)"
proof -
  have "voids_stay d (s_caller (run_side (eval_args j side d) (h_turn (j_host j) side) (stop_side j) (on_start j side) (on_unit j side)
      (j_defs j) tx d))" for tx
    by (rule run_side_caller) (auto intro: voids_trans voids_on_start voids_on_unit)
  then show ?thesis by (auto simp: play_side_def Let_def voids_stay_def)
qed

lemma voids_evaluate: "voids_stay d (evaluate j side d)"
proof -
  let ?e = "enter j ''evaluating'' (Some side) (''evaluating '' @ side) d"
  have p: "voids_stay d (play_side j side (foldl (\<lambda>d r. merge_record side r d) ?e rs))" for rs
    by (rule voids_trans [OF voids_trans [OF voids_same voids_fold] voids_play]) (simp_all add: voids_merge)
  have u: "voids_stay d e \<Longrightarrow> d_units e' = d_units e \<Longrightarrow> voids_stay d e'" for e e' by (simp add: voids_stay_def)
  note f = voids_trans [OF p voids_flush]
  show ?thesis unfolding evaluate_def Let_def
    using p f u [OF f] voids_same by (simp split: option.split)
qed

lemma voids_prompt: "voids_stay d (on_prompt j u p d)"
proof -
  have "truthy (jget r ''void'') \<Longrightarrow> truthy (jget (prompt_row p r) ''void'')" for r
    by (simp add: prompt_row_def Let_def split: option.split)
  note v = voids_update [OF this]
  have w: "list_all2 (\<lambda>u u'. truthy (jget u ''void'') \<longrightarrow> truthy (jget u' ''void'')) (d_units d)
     (update_row uid (\<lambda>r. jset r ''demo_video'' x) (update_row (p_unit p) (prompt_row p) (d_units d)))" for uid x
    by (rule list_all2_trans [OF _ v voids_update]) auto
  show ?thesis using v w by (simp add: on_prompt_def Let_def case_prod_beta voids_stay_def split: option.split)
qed

lemma voids_fraction: "voids_stay d d' \<Longrightarrow> void_fraction (d_units d) \<le> void_fraction (d_units d')"
proof -
  assume v: "voids_stay d d'"
  let ?n = "\<lambda>us. length (filter (\<lambda>u. truthy (jget u ''void'')) us)"
  have len: "length (d_units d) = length (d_units d')" using v unfolding voids_stay_def by (rule list_all2_lengthD)
  have "?n (d_units d) \<le> ?n (d_units d')"
    using v unfolding voids_stay_def by (induction rule: list_all2_induct) auto
  then have "of_nat (?n (d_units d)) / of_nat (length (d_units d)) \<le> (of_nat (?n (d_units d')) / of_nat (length (d_units d')) :: rat)"
    by (simp add: len divide_right_mono)
  then show ?thesis using fl64_mono len by (auto simp: void_fraction_def fdiv_def)
qed

lemma voids_certain: "voids_stay d d' \<Longrightarrow> certainly_void j d \<Longrightarrow> certainly_void j d'"
  using voids_fraction [of d d'] by (simp add: certainly_void_def too_void_def)

section \<open>Without a flush setting\<close>

lemma flush_unset: "tm_flush (j_terms j) = None \<Longrightarrow> d_raised (flush_media j force d) \<noteq> None"
  by (simp add: flush_media_def)

lemma evaluate_unset:
  assumes "tm_flush (j_terms j) = None" shows "d_raised (evaluate j side d) \<noteq> None"
  using flush_unset [OF assms, of True] unfolding evaluate_def Let_def by (simp split: option.split)

lemma run_sides_unset: "tm_flush (j_terms j) = None \<Longrightarrow> \<exists>why. fst (run_sides j (s # ss) d) = Inl (Duel_Failed why)"
  using evaluate_unset [of j s d] by (auto simp: Let_def)

section \<open>Properties\<close>

definition small_void :: duel where
  "small_void = (start_duel small_hosting)\<lparr>d_units := [JObj [(''unit_id'', JStr ''pk-000''), (''void'', JBool True)]]\<rparr>"

text \<open>C36. Stopping early is final: once enough units are void for the duel to be void, no prompt, no
  unit's record and no side played afterwards makes it less so - a duel stopped after a unit would
  have been void at its end too.\<close>

theorem certainly_void_final:
  assumes "certainly_void j d"
  shows "certainly_void j (on_prompt j u p d) \<and> certainly_void j (on_unit j side u r d) \<and> certainly_void j (evaluate j side d)"
  using assms voids_prompt voids_on_unit voids_evaluate voids_certain by blast

theorem certainly_void_final_witness:
  "certainly_void (small_job\<lparr>j_terms := small_terms\<lparr>tm_max_void := 1/2\<rparr>\<rparr>)
     (evaluate (small_job\<lparr>j_terms := small_terms\<lparr>tm_max_void := 1/2\<rparr>\<rparr>) ''king'' small_void)"
proof -
  have "fdiv 1 1 = 1" using fl64_of_int [of 1] by (simp add: fdiv_def)
  then have "certainly_void (small_job\<lparr>j_terms := small_terms\<lparr>tm_max_void := 1/2\<rparr>\<rparr>) small_void"
    by (simp add: certainly_void_def too_void_def void_fraction_def small_void_def jget_JObj)
  from certainly_void_final [OF this] show ?thesis by blast
qed

text \<open>C37. The contract does not ask for \<open>live.media_flush_units\<close>, which every side reads: a contract
  accepted without it cannot decide a duel whose sides are played - the first side always fails the
  run, whatever its units did.\<close>

theorem accepted_contract_fails_every_duel:
  "validate_spec (raw sample_spec) = Some [] \<and>
   (\<exists>tm. terms_of sample_spec ''fa'' None = Some tm
     \<and> (\<forall>j s ss d. \<exists>why. fst (run_sides (j\<lparr>j_terms := tm\<rparr>) (s # ss) d) = Inl (Duel_Failed why)))"
proof -
  have "case terms_of sample_spec ''fa'' None of None \<Rightarrow> False | Some tm \<Rightarrow> tm_flush tm = None" by code_simp
  then obtain tm where tm: "terms_of sample_spec ''fa'' None = Some tm" "tm_flush tm = None" by (auto split: option.splits)
  then show ?thesis using sample_accepted run_sides_unset by auto
qed

end
