(* ===== verification/Daemon.thy ===== *)
theory Daemon
  imports Queue Duel
begin

text \<open>
  \<open>daemon.py\<close>: the loop from queue to duel. A step takes one track's next entry, or resumes the duel
  in progress, and runs it to its end; what the orchestrator answers (\<open>Orchestrator.run\<close>) is the
  runner of the settings, and what other processes do to a queue file between two of the daemon's
  accesses is the list of operations they commit there.
\<close>

section \<open>The daemon and its surroundings\<close>

type_synonym runner = "duel_request \<Rightarrow> hosting \<Rightarrow> (stop + duel_result) \<times> hosting"

text \<open>\<open>w_now\<close> and \<open>w_others\<close> are read at the number of the access: \<open>now_iso\<close> there, and what the intake
  and the commands did to a track's queue before it.\<close>

record settings =
  w_spec :: contract
  w_host :: host
  w_run :: runner
  w_now :: "nat \<Rightarrow> string"
  w_others :: "nat \<Rightarrow> string \<Rightarrow> queue_op list"

record serving_state =
  dm_hosting :: hosting
  dm_queues :: queue_files
  dm_stalled :: "string list"
  dm_reads :: nat

datatype daemon_error = Queue_Raises queue_error | Run_Raises string | Bad_Head | Bad_Contract

type_synonym 'a act = "serving_state \<Rightarrow> (daemon_error + 'a) \<times> serving_state"

definition give :: "'a \<Rightarrow> 'a act" where
  "give x s = (Inr x, s)"

definition throw :: "daemon_error \<Rightarrow> 'a act" where
  "throw e s = (Inl e, s)"

definition andthen :: "'a act \<Rightarrow> ('a \<Rightarrow> 'b act) \<Rightarrow> 'b act" where
  "andthen m f s = (case m s of (Inl e, s') \<Rightarrow> (Inl e, s') | (Inr x, s') \<Rightarrow> f x s')"

definition on_hosting :: "(hosting \<Rightarrow> hosting) \<Rightarrow> unit act" where
  "on_hosting f s = (Inr (), s\<lparr>dm_hosting := f (dm_hosting s)\<rparr>)"

definition meanwhile :: "queue_op list \<Rightarrow> string option \<Rightarrow> string option" where
  "meanwhile ops file = foldl (\<lambda>f op. case run_op op f of None \<Rightarrow> f | Some f' \<Rightarrow> f') file ops"

text \<open>One access to a queue file: another process's operations first, then this one's, which saves
  nothing when it raises.\<close>

definition at_queue :: "settings \<Rightarrow> string \<Rightarrow> (string \<Rightarrow> string option \<Rightarrow> queue_error + ('a \<times> string option)) \<Rightarrow> 'a act" where
  "at_queue w trk f s =
     (let n = dm_reads s; file = meanwhile (w_others w n trk) (dm_queues s trk);
          s1 = s\<lparr>dm_queues := (dm_queues s)(trk := file), dm_reads := n + 1\<rparr> in
      case f (w_now w n) file of
        Inl e \<Rightarrow> (Inl (Queue_Raises e), s1)
      | Inr (x, file') \<Rightarrow> (Inr x, s1\<lparr>dm_queues := (dm_queues s)(trk := file')\<rparr>))"

definition reload :: "settings \<Rightarrow> string \<Rightarrow> queue_state act" where
  "reload w trk = at_queue w trk (\<lambda>now file. bindE (load file) (\<lambda>st. Inr (st, file)))"

definition saving :: "settings \<Rightarrow> string \<Rightarrow> (string \<Rightarrow> queue_state \<Rightarrow> 'a \<times> queue_state) \<Rightarrow> 'a act" where
  "saving w trk body = at_queue w trk (\<lambda>now file. bindE (locked (body now) file) (\<lambda>(x, tx). Inr (x, Some tx)))"

section \<open>State\<close>

definition track_head :: "string \<Rightarrow> json act" where
  "track_head trk s = (let h = or_empty (head trk (hs_store (dm_hosting s))) in if is_obj h then (Inr h, s) else (Inl Bad_Head, s))"

definition current_king :: "string \<Rightarrow> submission_ref option act" where
  "current_king trk = andthen (track_head trk) (\<lambda>h.
     case ref_from_dict (jget h ''king'') of None \<Rightarrow> throw Bad_Head | Some k \<Rightarrow> give k)"

definition head_block :: "json \<Rightarrow> int option" where
  "head_block h = (if truthy (jget h ''block'') then as_int (jget h ''block'') else Some 0)"

definition next_block :: "settings \<Rightarrow> string \<Rightarrow> int act" where
  "next_block w trk = andthen (track_head trk) (\<lambda>h. andthen (reload w trk) (\<lambda>st.
     case head_block h of None \<Rightarrow> throw Bad_Head | Some b \<Rightarrow> give (max (block st) b + 1)))"

definition publish_queue :: "settings \<Rightarrow> string \<Rightarrow> unit act" where
  "publish_queue w trk = andthen (current_king trk) (\<lambda>king.
     case store_schema (w_spec w) of None \<Rightarrow> throw Bad_Contract
     | Some schema \<Rightarrow>
         andthen (at_queue w trk (\<lambda>now file. bindE (load file) (\<lambda>st. Inr (snapshot trk king schema now st, file)))) (\<lambda>snap.
         on_hosting (\<lambda>h. push_touched (w_host w) (h\<lparr>hs_store := write_queue trk snap (hs_store h)\<rparr>))))"

section \<open>Helpers\<close>

definition benchmarks_ready :: "settings \<Rightarrow> string \<Rightarrow> bool act" where
  "benchmarks_ready w trk = (case benchmarks_of (w_spec w) trk of None \<Rightarrow> throw Bad_Contract
     | Some names \<Rightarrow> give (refused_name (w_host w) names = None))"

text \<open>\<open>Orchestrator.record_request\<close> and the request's event id, which need the contract's version and
  sizes.\<close>

definition ask :: "settings \<Rightarrow> duel_request \<Rightarrow> string act" where
  "ask w q = (if q_track q \<notin> set (spec_tracks (w_spec w)) then throw (Run_Raises ''DuelFailed'')
     else case terms_of (w_spec w) (q_track q) (q_size q) of None \<Rightarrow> throw Bad_Contract
     | Some tm \<Rightarrow> andthen (on_hosting (\<lambda>h. snd (record_request tm (w_host w) q h))) (\<lambda>_. give (request_event_id (tm_version tm) q)))"

definition is_baseline :: "json \<Rightarrow> submission_ref \<Rightarrow> bool" where
  "is_baseline b r \<longleftrightarrow> jget b ''repo'' = JStr (repo r) \<and> jget b ''revision'' = JStr (revision r)"

definition entry_of :: "settings \<Rightarrow> string \<Rightarrow> string \<Rightarrow> duel_request \<Rightarrow> queue_entry option" where
  "entry_of w trk now q =
     (if q_king q = None \<and> (case baseline (w_spec w) trk of None \<Rightarrow> False | Some b \<Rightarrow> is_baseline b (q_challenger q)) then None
      else Some \<lparr>e_key = key (q_challenger q), e_repo = repo (q_challenger q), e_revision = revision (q_challenger q),
        commit_block = q_block q, duel_size = q_size q, accepted_at = now, e_source = ''requeued''\<rparr>)"

definition settle :: "settings \<Rightarrow> string \<Rightarrow> bool act" where
  "settle w trk = andthen (saving w trk (\<lambda>now. finish_body)) (\<lambda>_. andthen (publish_queue w trk) (\<lambda>_. give True))"

definition requeue :: "settings \<Rightarrow> string \<Rightarrow> duel_request \<Rightarrow> bool act" where
  "requeue w trk q =
     andthen (at_queue w trk (\<lambda>now file. bindE (put_back (entry_of w trk now q) file) (\<lambda>(x, tx). Inr (x, Some tx)))) (\<lambda>_.
     andthen (publish_queue w trk) (\<lambda>_. give True))"

text \<open>\<open>_run\<close>: an unavailable harness leaves the duel in progress, a moved crown puts its entry back, a
  result or a failure finishes it; what else \<open>run\<close> raises goes through, with the duel in progress.\<close>

definition run_asked :: "settings \<Rightarrow> string \<Rightarrow> duel_request \<Rightarrow> bool act" where
  "run_asked w trk q s =
     (let (out, h) = w_run w q (dm_hosting s); s1 = s\<lparr>dm_hosting := h\<rparr> in
      case out of
        Inr res \<Rightarrow> settle w trk s1
      | Inl (Duel_Failed why) \<Rightarrow> settle w trk s1
      | Inl (Harness_Unavailable why) \<Rightarrow> give False s1
      | Inl (Crown_Moved why moved) \<Rightarrow> requeue w trk q s1
      | Inl (Escaped why) \<Rightarrow> throw (Run_Raises why) s1)"

definition resume :: "settings \<Rightarrow> string \<Rightarrow> in_progress_duel \<Rightarrow> bool act" where
  "resume w trk p s =
     (let doc = read_run_json (trk @ ''/'' @ take 16 (ip_event_id p)) ''request.json'' (dm_hosting s) in
      case (if is_obj doc then request_from_dict doc else None) of
        None \<Rightarrow> settle w trk s
      | Some q \<Rightarrow> (case spec_version (w_spec w) of None \<Rightarrow> throw Bad_Contract s
          | Some ver \<Rightarrow> if request_event_id ver q \<noteq> ip_event_id p then settle w trk s else run_asked w trk q s))"

definition stall :: "string \<Rightarrow> unit act" where
  "stall trk s = (Inr (), s\<lparr>dm_stalled := (if trk \<in> set (dm_stalled s) then dm_stalled s else dm_stalled s @ [trk])\<rparr>)"

definition baseline_genesis :: "settings \<Rightarrow> string \<Rightarrow> json \<Rightarrow> bool act" where
  "baseline_genesis w trk b =
     (case resolved_ref (py_str (jget b ''repo'')) (py_str (jget b ''revision'')) of
        Inl e \<Rightarrow> andthen (stall trk) (\<lambda>_. give False)
      | Inr r \<Rightarrow>
          andthen (benchmarks_ready w trk) (\<lambda>ready.
          if \<not> ready then give False
          else andthen (next_block w trk) (\<lambda>blk.
            let q = \<lparr>q_track = trk, q_challenger = r, q_king = None, q_size = None, q_block = blk\<rparr> in
            andthen (ask w q) (\<lambda>ev.
            andthen (saving w trk (\<lambda>now. set_block_body blk)) (\<lambda>_.
            andthen (saving w trk (\<lambda>now. start_body ev r now)) (\<lambda>_.
            andthen (publish_queue w trk) (\<lambda>_.
            andthen (run_asked w trk q) (\<lambda>fin.
            if \<not> fin then give False
            else andthen (current_king trk) (\<lambda>king.
              if king = None then andthen (stall trk) (\<lambda>_. give True) else give True)))))))))"

section \<open>One step\<close>

definition drop_king :: "settings \<Rightarrow> string \<Rightarrow> string \<Rightarrow> bool act" where
  "drop_king w trk k = andthen (saving w trk (\<lambda>now. remove_body k)) (\<lambda>_. andthen (publish_queue w trk) (\<lambda>_. give True))"

definition take_entry :: "settings \<Rightarrow> string \<Rightarrow> submission_ref option \<Rightarrow> queue_entry \<Rightarrow> bool act" where
  "take_entry w trk king e =
     andthen (next_block w trk) (\<lambda>blk.
     let q = \<lparr>q_track = trk, q_challenger = entry_ref e, q_king = king, q_size = duel_size e, q_block = blk\<rparr> in
     andthen (ask w q) (\<lambda>ev.
     andthen (saving w trk (\<lambda>now. take_body (e_key e) blk ev now)) (\<lambda>taken.
     if taken = None then give True
     else andthen (publish_queue w trk) (\<lambda>_. run_asked w trk q))))"

definition next_entry :: "settings \<Rightarrow> string \<Rightarrow> submission_ref option \<Rightarrow> bool act" where
  "next_entry w trk king = andthen (reload w trk) (\<lambda>st.
     case entries st of [] \<Rightarrow> give False
     | e # _ \<Rightarrow> andthen (benchmarks_ready w trk) (\<lambda>ready.
         if \<not> ready then give False
         else if king \<noteq> None \<and> key (the king) = e_key e then drop_king w trk (e_key e)
         else take_entry w trk king e))"

definition step :: "settings \<Rightarrow> string \<Rightarrow> bool act" where
  "step w trk = andthen (reload w trk) (\<lambda>st.
     case in_progress st of
       Some p \<Rightarrow> andthen (benchmarks_ready w trk) (\<lambda>ready. if \<not> ready then give False else resume w trk p)
     | None \<Rightarrow> (\<lambda>s.
         if trk \<in> set (dm_stalled s) then give False s
         else andthen (current_king trk) (\<lambda>king.
           case (king, baseline (w_spec w) trk) of
             (None, Some b) \<Rightarrow> baseline_genesis w trk b
           | _ \<Rightarrow> next_entry w trk king) s))"

fun step_all :: "settings \<Rightarrow> string list \<Rightarrow> bool act" where
  "step_all w [] = give False"
| "step_all w (trk # trks) = andthen (step w trk) (\<lambda>busy. andthen (step_all w trks) (\<lambda>more. give (busy \<or> more)))"

section \<open>The loop\<close>

definition BACKOFF_START_S :: rat where "BACKOFF_START_S = 1"
definition MAX_BACKOFF_S :: rat where "MAX_BACKOFF_S = 300"

definition backoff_s :: "rat \<Rightarrow> nat \<Rightarrow> rat" where
  "backoff_s most crashes = min most (BACKOFF_START_S * 2 ^ min (max crashes 1 - 1) 60)"

text \<open>\<open>run\<close> from when the store is held: every queue published, then a round for each settings of the
  list, with the sleeps between them. The list is as long as the loop runs.\<close>

record rounds =
  rd_state :: serving_state
  rd_crashes :: nat
  rd_slept :: "rat list"

definition round_of :: "rat \<Rightarrow> rat \<Rightarrow> string list \<Rightarrow> settings \<Rightarrow> rounds \<Rightarrow> rounds" where
  "round_of idle most trks w r =
     (case step_all w trks (rd_state r) of
        (Inl e, s) \<Rightarrow> r\<lparr>rd_state := s, rd_crashes := rd_crashes r + 1, rd_slept := rd_slept r @ [backoff_s most (rd_crashes r + 1)]\<rparr>
      | (Inr busy, s) \<Rightarrow> r\<lparr>rd_state := s, rd_crashes := 0, rd_slept := rd_slept r @ (if busy then [] else [idle])\<rparr>)"

fun publish_all :: "settings \<Rightarrow> string list \<Rightarrow> unit act" where
  "publish_all w [] = give ()"
| "publish_all w (trk # trks) = andthen (publish_queue w trk) (\<lambda>_. publish_all w trks)"

definition serve :: "rat \<Rightarrow> rat \<Rightarrow> string list \<Rightarrow> settings \<Rightarrow> settings list \<Rightarrow> serving_state \<Rightarrow> daemon_error + rounds" where
  "serve idle most trks w ws s =
     (case publish_all w trks s of
        (Inl e, _) \<Rightarrow> Inl e
      | (Inr _, s') \<Rightarrow> Inr (foldl (\<lambda>r w. round_of idle most trks w r) \<lparr>rd_state = s', rd_crashes = 0, rd_slept = []\<rparr> ws))"

end
