(* ===== verification/Daemon_Facts.thy ===== *)
theory Daemon_Facts
  imports Daemon
begin

text \<open>
  What a step of the daemon does with the keys of its track's queue, while the intake adds to it: an
  act leaves the queue as it is (\<open>quiet\<close>), or moves a key between the entries, the duel in progress
  and the duels that ended.
\<close>

section \<open>What a queue file says\<close>

definition waiting :: "queue_state \<Rightarrow> string set" where
  "waiting st = e_key ` set (entries st)"

text \<open>The duel in progress: its event, and the key of the entry it was taken from.\<close>

definition owner :: "queue_state \<Rightarrow> (string \<times> string option) option" where
  "owner st = map_option (\<lambda>p. (ip_event_id p, if truthy (ip_entry p) then as_str (jget (ip_entry p) ''key'') else None)) (in_progress st)"

definition holds :: "string option \<Rightarrow> string set \<Rightarrow> (string \<times> string option) option \<Rightarrow> bool" where
  "holds f W ow \<longleftrightarrow> (\<exists>st. load f = Inr st \<and> queue_ok st \<and> W \<subseteq> waiting st \<and> owner st = ow)"

fun intake :: "queue_op \<Rightarrow> bool" where
  "intake (Add _ _ _ _ _) = True"
| "intake (Offer _ _ _ _ _) = True"
| "intake _ = False"

definition intake_only :: "settings \<Rightarrow> bool" where
  "intake_only w \<longleftrightarrow> (\<forall>n trk. list_all intake (w_others w n trk))"

lemma norm_waiting [simp]: "waiting (norm_state st) = waiting st"
  by (simp add: waiting_def)

lemma owner_norm: "queue_ok st \<Longrightarrow> owner (norm_state st) = owner st"
  by (auto simp: owner_def norm_state_def norm_in_progress_def queue_ok_def wf_progress_def wf_in_progress_def jget_jsort
      split: option.splits)

lemma holds_save: "queue_ok st \<Longrightarrow> W \<subseteq> waiting st \<Longrightarrow> owner st = ow \<Longrightarrow> holds (Some (save_text st)) W ow"
  unfolding holds_def using load_save_ok [of st] owner_norm [of st] queue_ok_norm [of st] by auto

lemma intake_change: "intake op \<Longrightarrow> change op st = Inr st' \<Longrightarrow> waiting st \<subseteq> waiting st' \<and> owner st' = owner st"
proof (cases op)
  case (Add rp rv ds src now)
  assume "change op st = Inr st'"
  then show ?thesis
    by (auto simp: Add with_ref_def add_body_def waiting_def owner_def drop_key_def new_entry_def Let_def split: sum.splits)
next
  case (Offer rp rv ds src now)
  assume "change op st = Inr st'"
  then obtain r where st': "st' = snd (offer_body r ds src now st)" by (auto simp: Offer with_ref_def split: sum.splits)
  have "in_progress st' = in_progress st" unfolding st' by (subst offer_rest) simp
  moreover have "waiting st \<subseteq> waiting st'" unfolding st' waiting_def using offer_entries [of r ds src now st] by auto
  ultimately show ?thesis by (simp add: owner_def)
qed simp_all

lemma meanwhile_holds: "list_all intake ops \<Longrightarrow> holds f W ow \<Longrightarrow> holds (meanwhile ops f) W ow"
proof (induction ops arbitrary: f)
  case (Cons op ops)
  have "holds (case run_op op f of None \<Rightarrow> f | Some f' \<Rightarrow> f') W ow"
  proof (cases "run_op op f")
    case (Some f')
    obtain st where st: "load f = Inr st" "queue_ok st" "W \<subseteq> waiting st" "owner st = ow" using Cons.prems(2) by (auto simp: holds_def)
    then obtain st' where st': "change op st = Inr st'" "f' = Some (save_text st')"
      using Some by (auto simp: run_op_def split: sum.splits)
    show ?thesis
      using holds_save [OF change_ok [OF st(2) st'(1)]] intake_change [OF _ st'(1)] Cons.prems(1) st(3,4) by (simp add: Some st'(2)) blast
  qed (use Cons.prems(2) in simp)
  then show ?case using Cons by (simp add: meanwhile_def)
qed (simp add: meanwhile_def)

definition queue_at :: "serving_state \<Rightarrow> string \<Rightarrow> string set \<Rightarrow> (string \<times> string option) option \<Rightarrow> bool" where
  "queue_at s trk W ow \<longleftrightarrow> holds (dm_queues s trk) W ow"

lemma queue_at_mono: "queue_at s trk W ow \<Longrightarrow> V \<subseteq> W \<Longrightarrow> queue_at s trk V ow"
  unfolding queue_at_def holds_def by blast

lemma queue_at_simps [simp]:
  "queue_at (s\<lparr>dm_hosting := h\<rparr>) trk W ow = queue_at s trk W ow" "queue_at (s\<lparr>dm_stalled := ts\<rparr>) trk W ow = queue_at s trk W ow"
  by (simp_all add: queue_at_def)

section \<open>Acts that leave a queue as it is\<close>

definition keeps :: "(serving_state \<Rightarrow> bool) \<Rightarrow> 'a act \<Rightarrow> bool" where
  "keeps P m \<longleftrightarrow> (\<forall>s. P s \<longrightarrow> P (snd (m s)))"

lemma keeps_give [simp, intro]: "keeps P (give x)" "keeps P (throw e)"
  by (simp_all add: keeps_def give_def throw_def)

lemma keeps_andthen: "keeps P m \<Longrightarrow> (\<And>x. keeps P (f x)) \<Longrightarrow> keeps P (andthen m f)"
  unfolding keeps_def andthen_def by (fastforce split: prod.split sum.split)

lemma andthen_Inr: "m s = (Inr x, s') \<Longrightarrow> andthen m f s = f x s'"
  by (simp add: andthen_def)

lemma keepsD: "keeps P m \<Longrightarrow> P s \<Longrightarrow> P (snd (m s))"
  by (simp add: keeps_def)

lemma keeps_state: "(\<And>s. P s \<Longrightarrow> keeps P (m s)) \<Longrightarrow> keeps P (\<lambda>s. m s s)"
  by (simp add: keeps_def)

abbreviation quiet :: "string \<Rightarrow> string set \<Rightarrow> (string \<times> string option) option \<Rightarrow> 'a act \<Rightarrow> bool" where
  "quiet trk W ow \<equiv> keeps (\<lambda>s. queue_at s trk W ow)"

lemma at_queue_holds:
  assumes "intake_only w" and "queue_at s trk W ow" and "at_queue w trk f s = (out, s')"
    and "\<And>now f0 x f1. holds f0 W ow \<Longrightarrow> f now f0 = Inr (x, f1) \<Longrightarrow> Q x f1"
  shows "case out of Inl e \<Rightarrow> queue_at s' trk W ow | Inr x \<Rightarrow> Q x (dm_queues s' trk)"
proof -
  define f0 where "f0 = meanwhile (w_others w (dm_reads s) trk) (dm_queues s trk)"
  have h: "holds f0 W ow"
    unfolding f0_def by (rule meanwhile_holds) (use assms(1,2) in \<open>simp_all add: intake_only_def queue_at_def\<close>)
  show ?thesis using assms(3,4) h by (auto simp: at_queue_def Let_def queue_at_def simp flip: f0_def split: sum.splits)
qed

lemma quiet_at_queue:
  assumes "intake_only w" and "\<And>now f0 x f1. holds f0 W ow \<Longrightarrow> f now f0 = Inr (x, f1) \<Longrightarrow> holds f1 W ow"
  shows "quiet trk W ow (at_queue w trk f)"
  unfolding keeps_def
proof (intro allI impI)
  fix s assume q: "queue_at s trk W ow"
  obtain out s' where r: "at_queue w trk f s = (out, s')" by (cases "at_queue w trk f s")
  from at_queue_holds [OF assms(1) q r, where Q = "\<lambda>x f1. holds f1 W ow"] assms(2)
  show "queue_at (snd (at_queue w trk f s)) trk W ow" by (auto simp: r queue_at_def split: sum.splits)
qed

lemma quiet_reload: "intake_only w \<Longrightarrow> quiet trk W ow (reload w trk)"
  unfolding reload_def by (rule quiet_at_queue) (auto simp: bindE_Inr_iff)

lemma quiet_hosting: "quiet trk W ow (on_hosting f)"
  by (simp add: keeps_def on_hosting_def)

lemma quiet_stall: "quiet trk W ow (stall t)"
  by (simp add: keeps_def stall_def)

lemma quiet_head: "quiet trk W ow (track_head t)"
  by (simp add: keeps_def track_head_def Let_def)

lemma quiet_king: "quiet trk W ow (current_king t)"
  unfolding current_king_def by (rule keeps_andthen [OF quiet_head]) (auto split: option.split)

lemma quiet_next_block: "intake_only w \<Longrightarrow> quiet trk W ow (next_block w trk)"
  unfolding next_block_def by (intro keeps_andthen quiet_head quiet_reload) (auto split: option.split)

lemma quiet_publish: "intake_only w \<Longrightarrow> quiet trk W ow (publish_queue w trk)"
  unfolding publish_queue_def
  by (intro keeps_andthen quiet_king, split option.split, intro conjI allI impI keeps_give keeps_andthen quiet_at_queue quiet_hosting)
    (auto simp: bindE_Inr_iff)

lemma quiet_ready: "quiet trk W ow (benchmarks_ready w t)"
  by (auto simp: benchmarks_ready_def split: option.split)

lemma quiet_ask: "quiet trk W ow (ask w q)"
  by (auto simp: ask_def split: option.split intro: keeps_andthen quiet_hosting)


section \<open>Acts that change a queue\<close>

lemma saving_result:
  assumes "intake_only w" and "queue_at s trk W ow"
    and "\<And>now st. queue_ok st \<Longrightarrow> W \<subseteq> waiting st \<Longrightarrow> owner st = ow \<Longrightarrow> queue_ok (snd (body now st)) \<and> Q (fst (body now st)) (snd (body now st))"
  shows "\<exists>x st s'. saving w trk body s = (Inr x, s') \<and> Q x st \<and> queue_ok st \<and> dm_queues s' trk = Some (save_text st)
    \<and> dm_hosting s' = dm_hosting s"
proof -
  define f0 where "f0 = meanwhile (w_others w (dm_reads s) trk) (dm_queues s trk)"
  have "holds f0 W ow"
    unfolding f0_def by (rule meanwhile_holds) (use assms(1,2) in \<open>simp_all add: intake_only_def queue_at_def\<close>)
  then obtain st where st: "load f0 = Inr st" "queue_ok st" "W \<subseteq> waiting st" "owner st = ow" by (auto simp: holds_def)
  note b = assms(3) [OF st(2-4)]
  show ?thesis
    using b by (simp add: saving_def at_queue_def Let_def locked_def st(1) case_prod_beta flip: f0_def) blast
qed

definition ended :: "stop + duel_result \<Rightarrow> bool" where
  "ended out \<longleftrightarrow> (case out of Inr _ \<Rightarrow> True | Inl (Duel_Failed _) \<Rightarrow> True | _ \<Rightarrow> False)"

lemma queue_at_save: "queue_ok st \<Longrightarrow> dm_queues s trk = Some (save_text st) \<Longrightarrow> W \<subseteq> waiting st \<Longrightarrow> owner st = ow \<Longrightarrow> queue_at s trk W ow"
  by (simp add: queue_at_def holds_save)

lemma then_published: "intake_only w \<Longrightarrow> quiet trk W ow (andthen (publish_queue w trk) (\<lambda>_. give x))"
  by (intro keeps_andthen quiet_publish keeps_give)

lemma settle_queue:
  assumes "intake_only w" and "queue_at s trk W ow" shows "queue_at (snd (settle w trk s)) trk W None"
proof -
  from saving_result [OF assms, of "\<lambda>now. finish_body" "\<lambda>_ st. W \<subseteq> waiting st \<and> owner st = None"]
  obtain x st s' where s: "saving w trk (\<lambda>now. finish_body) s = (Inr x, s')" "W \<subseteq> waiting st" "owner st = None" "queue_ok st"
      "dm_queues s' trk = Some (save_text st)"
    by (auto simp: finish_body_def waiting_def owner_def queue_ok_def)
  have "queue_at s' trk W None" by (rule queue_at_save [OF s(4,5,2,3)])
  with s(1) show ?thesis unfolding settle_def by (simp only: andthen_Inr) (rule keepsD [OF then_published [OF assms(1)]])
qed

lemma entry_key: "entry_of_json d = Some e \<Longrightarrow> as_str (jget d ''key'') = Some (e_key e)"
  by (auto simp: entry_of_json_def split: option.splits if_splits)

lemma put_back_queue:
  assumes "queue_ok st" and "owner st = Some (ev, k)" and "W \<subseteq> waiting st"
  shows "\<exists>e st'. put_back_body fb st = Some (e, st') \<and> queue_ok st' \<and> W \<union> set_option k \<subseteq> waiting st' \<and> owner st' = None"
proof -
  obtain p where p: "in_progress st = Some p" using assms(2) by (auto simp: owner_def)
  obtain e where e: "(if truthy (ip_entry p) then map_option Some (entry_of_json (ip_entry p)) else Some fb) = Some e"
    using assms(1) p by (cases "truthy (ip_entry p)") (auto simp: queue_ok_def wf_progress_def)
  have k: "set_option k \<subseteq> e_key ` set_option e"
    using assms(2) e p by (auto simp: owner_def dest: entry_key split: if_splits)
  show ?thesis
  proof (intro exI conjI)
    show r: "put_back_body fb st = Some (e, st\<lparr>entries := (case e of None \<Rightarrow> entries st | Some x \<Rightarrow> x # drop_key (e_key x) (entries st)), in_progress := None\<rparr>)"
      using e p by (simp add: put_back_body_def Let_def)
    show "queue_ok (st\<lparr>entries := (case e of None \<Rightarrow> entries st | Some x \<Rightarrow> x # drop_key (e_key x) (entries st)), in_progress := None\<rparr>)"
      using change_ok [OF assms(1), of "Put_Back fb"] r by simp
    show "W \<union> set_option k \<subseteq> waiting (st\<lparr>entries := (case e of None \<Rightarrow> entries st | Some x \<Rightarrow> x # drop_key (e_key x) (entries st)), in_progress := None\<rparr>)"
      using k assms(3) by (cases e) (auto simp: waiting_def drop_key_def)
  qed (simp add: owner_def)
qed

lemma requeue_queue:
  assumes "intake_only w" and "queue_at s trk W (Some (ev, k))" shows "queue_at (snd (requeue w trk q s)) trk (W \<union> set_option k) None"
proof -
  let ?f = "\<lambda>now f0. bindE (put_back (entry_of w trk now q) f0) (\<lambda>(x, tx). Inr (x, Some tx))"
  define f0 where "f0 = meanwhile (w_others w (dm_reads s) trk) (dm_queues s trk)"
  have "holds f0 W (Some (ev, k))"
    unfolding f0_def by (rule meanwhile_holds) (use assms in \<open>simp_all add: intake_only_def queue_at_def\<close>)
  then obtain st where st: "load f0 = Inr st" "queue_ok st" "W \<subseteq> waiting st" "owner st = Some (ev, k)" by (auto simp: holds_def)
  obtain e st' where b: "put_back_body (entry_of w trk (w_now w (dm_reads s)) q) st = Some (e, st')" "queue_ok st'"
      "W \<union> set_option k \<subseteq> waiting st'" "owner st' = None"
    using put_back_queue [OF st(2,4,3)] by blast
  define s1 where "s1 = s\<lparr>dm_reads := dm_reads s + 1, dm_queues := (dm_queues s)(trk := Some (save_text st'))\<rparr>"
  have "at_queue w trk ?f s = (Inr e, s1)"
    by (simp add: at_queue_def Let_def put_back_def st(1) b(1) s1_def flip: f0_def)
  moreover have "queue_at s1 trk (W \<union> set_option k) None" by (rule queue_at_save [OF b(2) _ b(3,4)]) (simp add: s1_def)
  ultimately show ?thesis unfolding requeue_def by (simp only: andthen_Inr) (rule keepsD [OF then_published [OF assms(1)]])
qed

lemma run_asked_queue:
  assumes "intake_only w" and "queue_at s trk W (Some (ev, k))"
  shows "queue_at (snd (run_asked w trk q s)) trk W (Some (ev, k)) \<or> queue_at (snd (run_asked w trk q s)) trk (W \<union> set_option k) None
    \<or> queue_at (snd (run_asked w trk q s)) trk W None \<and> ended (fst (w_run w q (dm_hosting s)))"
proof -
  obtain out h where r: "w_run w q (dm_hosting s) = (out, h)" by (cases "w_run w q (dm_hosting s)")
  define s1 where "s1 = s\<lparr>dm_hosting := h\<rparr>"
  have s1: "queue_at s1 trk W (Some (ev, k))" using assms(2) by (simp add: s1_def)
  note se = settle_queue [OF assms(1) s1] and rq = requeue_queue [OF assms(1) s1, of q]
  show ?thesis
  proof (cases out)
    case (Inr res)
    then show ?thesis using se by (simp add: run_asked_def r ended_def flip: s1_def)
  next
    case (Inl st)
    then show ?thesis using se rq s1 by (cases st) (simp_all add: run_asked_def r ended_def give_def throw_def flip: s1_def)
  qed
qed


section \<open>A step and the keys of its queue\<close>

definition still :: "serving_state \<Rightarrow> string \<Rightarrow> string \<Rightarrow> bool" where
  "still s trk k \<longleftrightarrow> (\<exists>ow. queue_at s trk {k} ow) \<or> (\<exists>ev. queue_at s trk {} (Some (ev, Some k)))"

lemma stillI: "queue_at s trk W ow \<Longrightarrow> k \<in> W \<Longrightarrow> still s trk k" "queue_at s trk W (Some (ev, Some k)) \<Longrightarrow> still s trk k"
  unfolding still_def using queue_at_mono [of s trk W _ "{k}"] queue_at_mono [of s trk W _ "{}"] by auto

definition leads :: "(serving_state \<Rightarrow> bool) \<Rightarrow> 'a act \<Rightarrow> (serving_state \<Rightarrow> bool) \<Rightarrow> bool" where
  "leads P m Q \<longleftrightarrow> (\<forall>s. P s \<longrightarrow> Q (snd (m s)))"

lemma leads_keeps: "keeps P m \<Longrightarrow> (\<And>s. P s \<Longrightarrow> Q s) \<Longrightarrow> leads P m Q"
  by (simp add: leads_def keeps_def)

lemma leads_andthen: "keeps P m \<Longrightarrow> (\<And>s. P s \<Longrightarrow> Q s) \<Longrightarrow> (\<And>x. leads P (f x) Q) \<Longrightarrow> leads P (andthen m f) Q"
  unfolding keeps_def leads_def andthen_def by (fastforce split: prod.split sum.split)

lemma still_simps [simp]: "still (s\<lparr>dm_stalled := ts\<rparr>) trk k = still s trk k"
  by (simp add: still_def)

text \<open>What a step may have done with a key it no longer has.\<close>

definition decided_key :: "settings \<Rightarrow> submission_ref option \<Rightarrow> string \<Rightarrow> bool" where
  "decided_key w king k \<longleftrightarrow> (\<exists>q h. key (q_challenger q) = k \<and> q_king q = king \<and> ended (fst (w_run w q h)))"

lemma run_taken:
  assumes "intake_only w" and "queue_at s trk W (Some (ev, Some k))" and "x \<in> W \<or> x = k"
    and "key (q_challenger q) = k" and "q_king q = king"
  shows "still (snd (run_asked w trk q s)) trk x \<or> x = k \<and> decided_key w king k"
  using run_asked_queue [OF assms(1,2), of q] assms(3-5) unfolding decided_key_def by (auto intro: stillI)

lemma take_body_queue:
  assumes "queue_ok st" and "W \<subseteq> waiting st" and "owner st = None"
  shows "queue_ok (snd (take_body k b ev now st)) \<and>
     (if fst (take_body k b ev now st) = None then W \<subseteq> waiting (snd (take_body k b ev now st)) \<and> owner (snd (take_body k b ev now st)) = None
      else W - {k} \<subseteq> waiting (snd (take_body k b ev now st)) \<and> owner (snd (take_body k b ev now st)) = Some (ev, Some k))"
proof -
  have "queue_ok (snd (take_body k b ev now st))" using change_ok [OF assms(1), of "Take k b ev now"] by simp
  moreover have "owner (snd (take_body k b ev now st)) = Some (ev, Some k) \<and> W - {k} \<subseteq> waiting (snd (take_body k b ev now st))"
    if "List.find (\<lambda>e. e_key e = k) (entries st) = Some e" for e
  proof -
    have "e_key e = k" using that by (auto simp: find_Some_iff)
    then show ?thesis using that assms(2) by (auto simp: take_body_def owner_def waiting_def drop_key_def entry_dict_def jget_JObj)
  qed
  moreover have "fst (take_body k b ev now st) = List.find (\<lambda>e. e_key e = k) (entries st)"
    "List.find (\<lambda>e. e_key e = k) (entries st) = None \<Longrightarrow> snd (take_body k b ev now st) = st"
    by (simp_all add: take_body_def split: option.split)
  ultimately show ?thesis using assms(2,3) by (cases "List.find (\<lambda>e. e_key e = k) (entries st)") simp_all
qed

lemma take_entry_still:
  assumes w: "intake_only w" and x: "x \<in> W"
  shows "leads (\<lambda>s. queue_at s trk W None) (take_entry w trk king e) (\<lambda>s. still s trk x \<or> x = e_key e \<and> decided_key w king x)"
proof -
  let ?q = "\<lambda>blk. \<lparr>q_track = trk, q_challenger = entry_ref e, q_king = king, q_size = duel_size e, q_block = blk\<rparr>"
  have taken: "leads (\<lambda>s. queue_at s trk W None) (andthen (saving w trk (\<lambda>now. take_body (e_key e) blk ev now))
     (\<lambda>taken. if taken = None then give True else andthen (publish_queue w trk) (\<lambda>_. run_asked w trk (?q blk))))
     (\<lambda>s. still s trk x \<or> x = e_key e \<and> decided_key w king x)" for blk ev
    unfolding leads_def
  proof (intro allI impI)
    fix s assume s: "queue_at s trk W None"
    from saving_result [OF w s, of "\<lambda>now. take_body (e_key e) blk ev now"
        "\<lambda>taken st. if taken = None then W \<subseteq> waiting st \<and> owner st = None else W - {e_key e} \<subseteq> waiting st \<and> owner st = Some (ev, Some (e_key e))"]
      take_body_queue [of _ W "e_key e" blk ev]
    obtain taken st s' where t: "saving w trk (\<lambda>now. take_body (e_key e) blk ev now) s = (Inr taken, s')" "queue_ok st"
        "dm_queues s' trk = Some (save_text st)"
        "if taken = None then W \<subseteq> waiting st \<and> owner st = None else W - {e_key e} \<subseteq> waiting st \<and> owner st = Some (ev, Some (e_key e))"
      by blast
    show "still (snd (andthen (saving w trk (\<lambda>now. take_body (e_key e) blk ev now))
       (\<lambda>taken. if taken = None then give True else andthen (publish_queue w trk) (\<lambda>_. run_asked w trk (?q blk))) s)) trk x
       \<or> x = e_key e \<and> decided_key w king x"
    proof (cases "taken = None")
      case True
      then have "queue_at s' trk W None" using t(2-4) by (simp add: queue_at_save)
      then show ?thesis using x True by (simp add: andthen_def t(1) give_def stillI)
    next
      case False
      then have "queue_at s' trk (W - {e_key e}) (Some (ev, Some (e_key e)))" using t(2-4) by (simp add: queue_at_save)
      moreover have "leads (\<lambda>s. queue_at s trk (W - {e_key e}) (Some (ev, Some (e_key e)))) (andthen (publish_queue w trk) (\<lambda>_. run_asked w trk (?q blk)))
          (\<lambda>s. still s trk x \<or> x = e_key e \<and> decided_key w king (e_key e))"
        using x run_taken [OF w, of _ trk "W - {e_key e}" ev "e_key e" x "?q blk" king]
        by (intro leads_andthen quiet_publish w) (auto simp: leads_def entry_ref_def intro: stillI)
      ultimately show ?thesis using False by (auto simp: andthen_Inr [of "saving w trk (\<lambda>now. take_body (e_key e) blk ev now)" s, OF t(1)] leads_def)
    qed
  qed
  have kept: "queue_at s trk W None \<Longrightarrow> still s trk x \<or> x = e_key e \<and> decided_key w king x" for s using x by (auto intro: stillI)
  show ?thesis unfolding take_entry_def Let_def
    by (rule leads_andthen [OF quiet_next_block [OF w] kept], assumption, rule leads_andthen [OF quiet_ask kept], assumption, rule taken)
qed


lemma leadsD: "leads P m Q \<Longrightarrow> P s \<Longrightarrow> Q (snd (m s))"
  by (simp add: leads_def)

lemma drop_king_still:
  assumes w: "intake_only w" and x: "x \<in> W" and s: "queue_at s trk W None"
  shows "still (snd (drop_king w trk k s)) trk x \<or> x = k"
proof -
  from saving_result [OF w s, of "\<lambda>now. remove_body k" "\<lambda>_ st. W - {k} \<subseteq> waiting st \<and> owner st = None"]
  obtain b st s' where r: "saving w trk (\<lambda>now. remove_body k) s = (Inr b, s')" "queue_ok st" "dm_queues s' trk = Some (save_text st)"
      "W - {k} \<subseteq> waiting st" "owner st = None"
    by (auto simp: remove_body_def Let_def waiting_def owner_def drop_key_def queue_ok_def distinct_map_filter)
  have "queue_at s' trk (W - {k}) None" by (rule queue_at_save [OF r(2-5)])
  then have "queue_at (snd (andthen (publish_queue w trk) (\<lambda>_. give True) s')) trk (W - {k}) None"
    by (rule keepsD [OF then_published [OF w]])
  then show ?thesis using x r(1) by (auto simp: drop_king_def andthen_Inr [of "saving w trk (\<lambda>now. remove_body k)" s] intro: stillI)
qed

definition accounted :: "settings \<Rightarrow> submission_ref option \<Rightarrow> string \<Rightarrow> bool" where
  "accounted w king k \<longleftrightarrow> decided_key w king k \<or> (\<exists>r. king = Some r \<and> key r = k)"

lemma next_entry_still:
  assumes w: "intake_only w" and x: "x \<in> W"
  shows "leads (\<lambda>s. queue_at s trk W None) (next_entry w trk king) (\<lambda>s. still s trk x \<or> accounted w king x)"
proof -
  have kept: "queue_at s trk W None \<Longrightarrow> still s trk x \<or> accounted w king x" for s using x by (auto intro: stillI)
  have g: "leads (\<lambda>s. queue_at s trk W None) (give b) (\<lambda>s. still s trk x \<or> accounted w king x)" for b
    by (rule leads_keeps [OF keeps_give(1) kept])
  have d: "leads (\<lambda>s. queue_at s trk W None) (drop_king w trk (e_key e)) (\<lambda>s. still s trk x \<or> accounted w king x)"
    if "king \<noteq> None \<and> key (the king) = e_key e" for e
    using drop_king_still [OF w x, of _ trk "e_key e"] that by (auto simp: leads_def accounted_def)
  have t: "leads (\<lambda>s. queue_at s trk W None) (take_entry w trk king e) (\<lambda>s. still s trk x \<or> accounted w king x)" for e
    using take_entry_still [OF w x, of trk king e] by (auto simp: leads_def accounted_def)
  show ?thesis unfolding next_entry_def
  proof (rule leads_andthen [OF quiet_reload [OF w] kept], assumption)
    fix st
    show "leads (\<lambda>s. queue_at s trk W None) (case entries st of [] \<Rightarrow> give False
       | e # _ \<Rightarrow> andthen (benchmarks_ready w trk) (\<lambda>ready. if \<not> ready then give False
         else if king \<noteq> None \<and> key (the king) = e_key e then drop_king w trk (e_key e) else take_entry w trk king e))
       (\<lambda>s. still s trk x \<or> accounted w king x)"
    proof (cases "entries st")
      case (Cons e es)
      have "leads (\<lambda>s. queue_at s trk W None) (if \<not> ready then give False
         else if king \<noteq> None \<and> key (the king) = e_key e then drop_king w trk (e_key e) else take_entry w trk king e)
         (\<lambda>s. still s trk x \<or> accounted w king x)" for ready
        using g [of False] d [of e] t [of e] by simp
      note b = this
      show ?thesis unfolding Cons list.case by (rule leads_andthen [OF quiet_ready kept b])
    qed (simp add: g)
  qed
qed

text \<open>The request a duel in progress is resumed from, if its run directory still holds it.\<close>

definition recorded :: "settings \<Rightarrow> string \<Rightarrow> string \<Rightarrow> hosting \<Rightarrow> duel_request option" where
  "recorded w trk ev h =
     (let doc = read_run_json (trk @ ''/'' @ take 16 ev) ''request.json'' h in
      case (if is_obj doc then request_from_dict doc else None) of None \<Rightarrow> None
      | Some q \<Rightarrow> if map_option (\<lambda>ver. request_event_id ver q) (spec_version (w_spec w)) = Some ev then Some q else None)"

definition over :: "settings \<Rightarrow> string \<Rightarrow> string \<Rightarrow> hosting \<Rightarrow> bool" where
  "over w trk ev h \<longleftrightarrow> (case recorded w trk ev h of None \<Rightarrow> True | Some q \<Rightarrow> ended (fst (w_run w q h)))"

lemma resume_still:
  assumes w: "intake_only w" and s: "queue_at s trk W (Some (ip_event_id p, k))" and x: "x \<in> W \<or> k = Some x"
  shows "still (snd (resume w trk p s)) trk x \<or> k = Some x \<and> over w trk (ip_event_id p) (dm_hosting s)"
proof -
  let ?doc = "read_run_json (trk @ ''/'' @ take 16 (ip_event_id p)) ''request.json'' (dm_hosting s)"
  have se: "still (snd (settle w trk s)) trk x \<or> k = Some x" using settle_queue [OF w s] x by (auto intro: stillI)
  show ?thesis
  proof (cases "if is_obj ?doc then request_from_dict ?doc else None")
    case None
    then show ?thesis using se unfolding resume_def Let_def over_def recorded_def None by simp
  next
    case (Some q)
    show ?thesis
    proof (cases "spec_version (w_spec w)")
      case None
      then show ?thesis using s x unfolding resume_def Let_def Some by (auto simp: throw_def intro: stillI)
    next
      case (Some ver)
      note q = \<open>(if is_obj ?doc then request_from_dict ?doc else None) = Some q\<close>
      have r: "recorded w trk (ip_event_id p) (dm_hosting s) = (if request_event_id ver q = ip_event_id p then Some q else None)"
        unfolding recorded_def Let_def q by (simp add: Some)
      show ?thesis
      proof (cases "request_event_id ver q = ip_event_id p")
        case True
        then have "resume w trk p s = run_asked w trk q s" unfolding resume_def Let_def q by (simp add: Some)
        then show ?thesis using run_asked_queue [OF w s, of q] x True by (auto simp: over_def r intro: stillI)
      next
        case False
        then have "resume w trk p s = settle w trk s" unfolding resume_def Let_def q by (simp add: Some)
        then show ?thesis using se False by (simp add: over_def r)
      qed
    qed
  qed
qed

lemma baseline_still:
  assumes w: "intake_only w" and x: "x \<in> W"
  shows "leads (\<lambda>s. queue_at s trk W None) (baseline_genesis w trk b) (\<lambda>s. still s trk x)"
proof -
  have kept: "queue_at s trk W ow \<Longrightarrow> still s trk x" for s ow using x by (auto intro: stillI)
  have g: "leads (\<lambda>s. queue_at s trk W ow) m (\<lambda>s. still s trk x)" if "quiet trk W ow m" for m :: "bool act" and ow
    by (rule leads_keeps [OF that kept])
  have after: "keeps (\<lambda>s. still s trk x) (current_king trk)" "keeps (\<lambda>s. still s trk x) (stall trk)"
    by (simp_all add: keeps_def current_king_def track_head_def andthen_def stall_def give_def throw_def Let_def split: option.split)
  have ran: "still (snd (andthen (run_asked w trk q) (\<lambda>fin. if \<not> fin then give False
            else andthen (current_king trk) (\<lambda>king. if king = None then andthen (stall trk) (\<lambda>_. give True) else give True)) s)) trk x"
    if "queue_at s trk W (Some (ev, None))" for q ev s
  proof -
    have r: "still (snd (run_asked w trk q s)) trk x" using run_asked_queue [OF w that, of q] kept by auto
    have "keeps (\<lambda>s. still s trk x) (if \<not> fin then give False
            else andthen (current_king trk) (\<lambda>king. if king = None then andthen (stall trk) (\<lambda>_. give True) else give True))" for fin
      using after by (auto intro!: keeps_andthen)
    from keepsD [OF this] r show ?thesis
      by (cases "run_asked w trk q s") (auto simp: andthen_def split: sum.split)
  qed
  have start: "still (snd (andthen (saving w trk (\<lambda>now. start_body ev r now)) (\<lambda>_. andthen (publish_queue w trk) (\<lambda>_.
        andthen (run_asked w trk q) (\<lambda>fin. if \<not> fin then give False
            else andthen (current_king trk) (\<lambda>king. if king = None then andthen (stall trk) (\<lambda>_. give True) else give True)))) s)) trk x"
    if s: "queue_at s trk W None" for q ev r s
  proof -
    from saving_result [OF w s, of "\<lambda>now. start_body ev r now" "\<lambda>_ st. W \<subseteq> waiting st \<and> owner st = Some (ev, None)"]
    obtain b st s' where r: "saving w trk (\<lambda>now. start_body ev r now) s = (Inr b, s')" "queue_ok st" "dm_queues s' trk = Some (save_text st)"
        "W \<subseteq> waiting st" "owner st = Some (ev, None)"
      by (auto simp: start_body_def waiting_def owner_def queue_ok_def)
    have "queue_at s' trk W (Some (ev, None))" by (rule queue_at_save [OF r(2-5)])
    moreover have "leads (\<lambda>s. queue_at s trk W (Some (ev, None))) (andthen (publish_queue w trk) (\<lambda>_.
        andthen (run_asked w trk q) (\<lambda>fin. if \<not> fin then give False
            else andthen (current_king trk) (\<lambda>king. if king = None then andthen (stall trk) (\<lambda>_. give True) else give True))))
        (\<lambda>s. still s trk x)"
      by (rule leads_andthen [OF quiet_publish [OF w] kept], assumption) (simp add: leads_def ran)
    ultimately show ?thesis
      unfolding andthen_Inr [of "saving w trk (\<lambda>now. start_body ev r now)" s, OF r(1)] by (rule leadsD [rotated])
  qed
  have set_block: "quiet trk W None (saving w trk (\<lambda>now. set_block_body blk))" for blk
    unfolding keeps_def
  proof (intro allI impI)
    fix s assume s: "queue_at s trk W None"
    from saving_result [OF w s, of "\<lambda>now. set_block_body blk" "\<lambda>_ st. W \<subseteq> waiting st \<and> owner st = None"]
    obtain b st s' where r: "saving w trk (\<lambda>now. set_block_body blk) s = (Inr b, s')" "queue_ok st" "dm_queues s' trk = Some (save_text st)"
        "W \<subseteq> waiting st" "owner st = None"
      by (auto simp: set_block_body_def waiting_def owner_def queue_ok_def)
    show "queue_at (snd (saving w trk (\<lambda>now. set_block_body blk) s)) trk W None" unfolding r(1) snd_conv by (rule queue_at_save [OF r(2-5)])
  qed
  show ?thesis
  proof (cases "resolved_ref (py_str (jget b ''repo'')) (py_str (jget b ''revision''))")
    case (Inl e)
    then show ?thesis unfolding baseline_genesis_def by (simp add: g keeps_andthen quiet_stall)
  next
    case (Inr r)
    have m: "leads (\<lambda>s. queue_at s trk W None) (andthen (ask w q) (\<lambda>ev. andthen (saving w trk (\<lambda>now. set_block_body blk)) (\<lambda>_.
        andthen (saving w trk (\<lambda>now. start_body ev r now)) (\<lambda>_. andthen (publish_queue w trk) (\<lambda>_. andthen (run_asked w trk q) (\<lambda>fin.
        if \<not> fin then give False else andthen (current_king trk) (\<lambda>king. if king = None then andthen (stall trk) (\<lambda>_. give True) else give True)))))))
        (\<lambda>s. still s trk x)" for q blk
      by (rule leads_andthen [OF quiet_ask kept], assumption, rule leads_andthen [OF set_block kept], assumption) (simp add: leads_def start)
    have n: "leads (\<lambda>s. queue_at s trk W None) (if \<not> ready then give False else andthen (next_block w trk) (\<lambda>blk.
            let q = \<lparr>q_track = trk, q_challenger = r, q_king = None, q_size = None, q_block = blk\<rparr> in
            andthen (ask w q) (\<lambda>ev. andthen (saving w trk (\<lambda>now. set_block_body blk)) (\<lambda>_.
        andthen (saving w trk (\<lambda>now. start_body ev r now)) (\<lambda>_. andthen (publish_queue w trk) (\<lambda>_. andthen (run_asked w trk q) (\<lambda>fin.
        if \<not> fin then give False else andthen (current_king trk) (\<lambda>king. if king = None then andthen (stall trk) (\<lambda>_. give True) else give True))))))))
        (\<lambda>s. still s trk x)" for ready
      unfolding Let_def
      by (cases ready, simp, rule leads_andthen [OF quiet_next_block [OF w] kept], assumption, rule m) (simp add: g)
    show ?thesis unfolding baseline_genesis_def Inr sum.case
      by (rule leads_andthen [OF quiet_ready kept], assumption, rule n)
  qed
qed


lemma reload_result:
  assumes "intake_only w" and "queue_at s trk W ow"
  shows "\<exists>st s'. reload w trk s = (Inr st, s') \<and> queue_at s' trk W ow \<and> queue_ok st \<and> owner st = ow \<and> load (dm_queues s' trk) = Inr st
    \<and> dm_hosting s' = dm_hosting s \<and> dm_stalled s' = dm_stalled s"
proof -
  define f0 where "f0 = meanwhile (w_others w (dm_reads s) trk) (dm_queues s trk)"
  have h: "holds f0 W ow"
    unfolding f0_def by (rule meanwhile_holds) (use assms in \<open>simp_all add: intake_only_def queue_at_def\<close>)
  then obtain st where st: "load f0 = Inr st" "queue_ok st" "owner st = ow" by (auto simp: holds_def)
  show ?thesis using st h by (simp add: reload_def at_queue_def Let_def queue_at_def flip: f0_def)
qed

lemma king_state: "snd (current_king trk s) = s"
  by (simp add: current_king_def track_head_def andthen_def give_def throw_def Let_def split: option.split)

lemma king_cong: "dm_hosting s' = dm_hosting s \<Longrightarrow> fst (current_king trk s') = fst (current_king trk s)"
  by (simp add: current_king_def track_head_def andthen_def give_def throw_def Let_def split: option.split)

lemma step_accounts:
  assumes w: "intake_only w" and s: "queue_at s trk W ow" and x: "x \<in> W \<or> (\<exists>ev. ow = Some (ev, Some x))"
  shows "still (snd (step w trk s)) trk x
     \<or> (case ow of Some (ev, k) \<Rightarrow> k = Some x \<and> over w trk ev (dm_hosting s)
        | None \<Rightarrow> \<exists>king. fst (current_king trk s) = Inr king \<and> accounted w king x)"
proof -
  obtain st s1 where r: "reload w trk s = (Inr st, s1)" "queue_at s1 trk W ow" "owner st = ow" "dm_hosting s1 = dm_hosting s"
    using reload_result [OF w s] by blast
  show ?thesis
  proof (cases "in_progress st")
    case (Some p)
    then obtain k where ow: "ow = Some (ip_event_id p, k)" using r(3) by (auto simp: owner_def)
    have st: "step w trk s = andthen (benchmarks_ready w trk) (\<lambda>ready. if \<not> ready then give False else resume w trk p) s1"
      by (simp add: step_def andthen_def r(1) Some)
    have "still s1 trk x" using r(2) x ow by (auto intro: stillI)
    moreover have "still (snd (resume w trk p s1)) trk x \<or> k = Some x \<and> over w trk (ip_event_id p) (dm_hosting s)"
      using resume_still [OF w r(2) [unfolded ow], of x] x ow r(4) by auto
    ultimately show ?thesis
      by (auto simp: st ow benchmarks_ready_def andthen_def give_def throw_def split: option.split)
  next
    case None
    then have ow: "ow = None" using r(3) by (simp add: owner_def)
    then have xW: "x \<in> W" using x by simp
    have kept: "still s1 trk x" using r(2) xW by (rule stillI)
    have st: "step w trk s = (if trk \<in> set (dm_stalled s1) then give False s1
         else andthen (current_king trk) (\<lambda>king.
           case (king, baseline (w_spec w) trk) of
             (None, Some b) \<Rightarrow> baseline_genesis w trk b
           | _ \<Rightarrow> next_entry w trk king) s1)" by (simp add: step_def andthen_def r(1) None)
    obtain out where k: "current_king trk s1 = (out, s1)" using king_state [of trk s1] by (metis prod.collapse)
    have ks: "fst (current_king trk s) = out" using king_cong [OF r(4), of trk] k by simp
    show ?thesis
    proof (cases out)
      case (Inl e)
      then show ?thesis using kept by (simp add: st andthen_def k give_def)
    next
      case (Inr king)
      have n: "still (snd (next_entry w trk king s1)) trk x \<or> accounted w king x"
        using leadsD [OF next_entry_still [OF w xW, of trk king]] r(2) ow by simp
      have b: "still (snd (baseline_genesis w trk b s1)) trk x" for b
        using leadsD [OF baseline_still [OF w xW, of trk b]] r(2) ow by simp
      show ?thesis using kept n b
        by (auto simp: st andthen_def k Inr give_def ow ks split: option.split)
    qed
  qed
qed

end
