(* ===== verification/Daemon_Served.thy ===== *)
theory Daemon_Served
  imports Daemon_Facts Duel_Done
begin

text \<open>
  The daemon gets through its queues: where nothing stands in the way of a track (\<open>fit\<close>: its contract,
  its benchmarks and its head can be read, and every duel asked for ends), each step does one thing
  the queue holds (\<open>does\<close>: the act returns, and its result and state are as said). And how long the
  loop waits.
\<close>

section \<open>Acts that return\<close>

definition readable :: "string \<Rightarrow> hosting \<Rightarrow> bool" where
  "readable trk h \<longleftrightarrow> (let d = or_empty (head trk (hs_store h)) in is_obj d \<and> ref_from_dict (jget d ''king'') \<noteq> None \<and> head_block d \<noteq> None)"

definition fit :: "settings \<Rightarrow> string \<Rightarrow> bool" where
  "fit w trk \<longleftrightarrow> (\<forall>n t. w_others w n t = []) \<and> trk \<in> set (spec_tracks (w_spec w)) \<and> (\<forall>sz. terms_of (w_spec w) trk sz \<noteq> None)
     \<and> baseline (w_spec w) trk = None \<and> (\<exists>names. benchmarks_of (w_spec w) trk = Some names \<and> refused_name (w_host w) names = None)
     \<and> (\<forall>q h. readable trk h \<longrightarrow> ended (fst (w_run w q h)) \<and> readable trk (snd (w_run w q h)))"

lemma fit_terms: "fit w trk \<Longrightarrow> \<exists>tm. terms_of (w_spec w) trk sz = Some tm"
  unfolding fit_def by blast

definition tidy :: "string \<Rightarrow> queue_state \<Rightarrow> serving_state \<Rightarrow> bool" where
  "tidy trk st s \<longleftrightarrow> load (dm_queues s trk) = Inr st \<and> queue_ok st \<and> readable trk (dm_hosting s) \<and> trk \<notin> set (dm_stalled s)"

definition does :: "'a act \<Rightarrow> serving_state \<Rightarrow> ('a \<Rightarrow> serving_state \<Rightarrow> bool) \<Rightarrow> bool" where
  "does m s Q \<longleftrightarrow> (\<exists>x s'. m s = (Inr x, s') \<and> Q x s')"

lemma does_andthen: "does m s (\<lambda>x s'. does (f x) s' Q) \<Longrightarrow> does (andthen m f) s Q"
  by (auto simp: does_def andthen_def)

lemma does_mono: "does m s P \<Longrightarrow> (\<And>x s'. P x s' \<Longrightarrow> Q x s') \<Longrightarrow> does m s Q"
  by (auto simp: does_def)

lemma does_give [simp]: "does (give x) s Q = Q x s"
  by (simp add: does_def give_def)

lemma does_queue:
  assumes "fit w trk" and "f (w_now w (dm_reads s)) (dm_queues s trk) = Inr (x, f1)"
    and "\<And>s'. dm_queues s' trk = f1 \<Longrightarrow> dm_hosting s' = dm_hosting s \<Longrightarrow> dm_stalled s' = dm_stalled s \<Longrightarrow> Q x s'"
  shows "does (at_queue w trk f) s Q"
  using assms by (simp add: does_def at_queue_def fit_def meanwhile_def Let_def)

lemma does_reload: "fit w trk \<Longrightarrow> tidy trk st s \<Longrightarrow> does (reload w trk) s (\<lambda>x s'. x = st \<and> tidy trk st s')"
  unfolding reload_def by (rule does_queue [where x = st and ?f1.0 = "dm_queues s trk"]) (simp_all add: tidy_def)

lemma does_king: "tidy trk st s \<Longrightarrow> does (current_king trk) s (\<lambda>x s'. s' = s)"
  by (auto simp: does_def tidy_def readable_def current_king_def track_head_def andthen_def give_def Let_def)

lemma does_next_block: "fit w trk \<Longrightarrow> tidy trk st s \<Longrightarrow> does (next_block w trk) s (\<lambda>x s'. tidy trk st s')"
  unfolding next_block_def
proof (rule does_andthen)
  assume f: "fit w trk" and t: "tidy trk st s"
  obtain b where b: "head_block (or_empty (head trk (hs_store (dm_hosting s)))) = Some b" using t by (auto simp: tidy_def readable_def Let_def)
  have "does (andthen (reload w trk) (\<lambda>st. case head_block (or_empty (head trk (hs_store (dm_hosting s)))) of None \<Rightarrow> throw Bad_Head
      | Some b \<Rightarrow> give (max (block st) b + 1))) s (\<lambda>x. tidy trk st)"
    by (rule does_andthen, rule does_mono [OF does_reload [OF f t]]) (simp add: b)
  then show "does (track_head trk) s (\<lambda>h s'. does (andthen (reload w trk) (\<lambda>st. case head_block h of None \<Rightarrow> throw Bad_Head
      | Some b \<Rightarrow> give (max (block st) b + 1))) s' (\<lambda>x. tidy trk st))"
    using t by (simp add: does_def [of "track_head trk"] track_head_def tidy_def readable_def Let_def)
qed

lemma head_other: "p \<noteq> head_path trk \<Longrightarrow> head trk (touch p' (write_json p v st)) = head trk st"
  by (simp add: head_def read_json_def touch_def write_json_def)

lemma readable_cong: "head trk (hs_store h') = head trk (hs_store h) \<Longrightarrow> readable trk h' = readable trk h"
  by (simp add: readable_def)

lemma readable_queue: "readable trk (push_touched ho (h\<lparr>hs_store := write_queue trk v (hs_store h)\<rparr>)) = readable trk h"
proof (rule readable_cong)
  have "queue_path trk \<noteq> head_path trk" by (simp add: queue_path_def head_path_def)
  then show "head trk (hs_store (push_touched ho (h\<lparr>hs_store := write_queue trk v (hs_store h)\<rparr>))) = head trk (hs_store h)"
    by (auto simp: push_touched_def write_queue_def head_other drain_touched_def Let_def head_def read_json_def touch_def write_json_def
        split: option.split)
qed

lemma does_publish: "fit w trk \<Longrightarrow> tidy trk st s \<Longrightarrow> does (publish_queue w trk) s (\<lambda>x s'. tidy trk st s')"
  unfolding publish_queue_def
proof (rule does_andthen, rule does_mono [OF does_king], assumption)
  fix king s' assume f: "fit w trk" and t: "tidy trk st s" and s': "s' = s"
  obtain tm where "terms_of (w_spec w) trk None = Some tm" using fit_terms [OF f] by blast
  then obtain schema where sc: "store_schema (w_spec w) = Some schema" by (auto simp: terms_of_def bind_eq_Some_conv)
  have "does (at_queue w trk (\<lambda>now f0. bindE (load f0) (\<lambda>st. Inr (snapshot trk king schema now st, f0)))) s
      (\<lambda>snap s'. does (on_hosting (\<lambda>h. push_touched (w_host w) (h\<lparr>hs_store := write_queue trk snap (hs_store h)\<rparr>))) s' (\<lambda>x. tidy trk st))"
    using t by (intro does_queue [OF f, where x = "snapshot trk king schema (w_now w (dm_reads s)) st" and ?f1.0 = "dm_queues s trk"])
      (simp_all add: tidy_def does_def on_hosting_def readable_queue)
  then show "does (case store_schema (w_spec w) of None \<Rightarrow> throw Bad_Contract | Some schema \<Rightarrow>
       andthen (at_queue w trk (\<lambda>now f0. bindE (load f0) (\<lambda>st. Inr (snapshot trk king schema now st, f0))))
         (\<lambda>snap. on_hosting (\<lambda>h. push_touched (w_host w) (h\<lparr>hs_store := write_queue trk snap (hs_store h)\<rparr>)))) s' (\<lambda>x. tidy trk st)"
    unfolding sc option.case s' by (rule does_andthen)
qed

lemma does_saving:
  assumes "fit w trk" and "tidy trk st s" and "\<And>now. queue_ok (snd (body now st))"
  shows "does (saving w trk body) s (\<lambda>x s'. \<exists>now. x = fst (body now st) \<and> tidy trk (norm_state (snd (body now st))) s')"
proof -
  define now where "now = w_now w (dm_reads s)"
  have "bindE (locked (body now) (dm_queues s trk)) (\<lambda>(x, tx). Inr (x, Some tx)) = Inr (fst (body now st), Some (save_text (snd (body now st))))"
    using assms(2) by (simp add: tidy_def locked_def case_prod_beta Let_def)
  then show ?thesis unfolding saving_def
    by (intro does_queue [where f = "\<lambda>now f0. bindE (locked (body now) f0) (\<lambda>(x, tx). Inr (x, Some tx))"
        and x = "fst (body now st)" and ?f1.0 = "Some (save_text (snd (body now st)))", OF assms(1)], unfold now_def [symmetric], assumption)
      (use assms(2,3) in \<open>auto simp: tidy_def load_save_ok queue_ok_norm intro!: exI [of _ now]\<close>)
qed

lemma does_ready: "fit w trk \<Longrightarrow> does (benchmarks_ready w trk) s (\<lambda>x s'. x \<and> s' = s)"
  by (auto simp: does_def benchmarks_ready_def fit_def give_def)

lemma does_ask: "fit w trk \<Longrightarrow> q_track q = trk \<Longrightarrow> tidy trk st s \<Longrightarrow> does (ask w q) s (\<lambda>x s'. tidy trk st s')"
proof -
  have r: "hs_store (snd (record_request tm ho q h)) = hs_store h" for tm ho and h :: hosting
    by (simp add: record_request_def Let_def move_aside_def write_run_json_def set_run_file_def)
  assume f: "fit w trk" and q: "q_track q = trk" and t: "tidy trk st s"
  obtain tm where tm: "terms_of (w_spec w) trk (q_size q) = Some tm" using fit_terms [OF f] by blast
  have "trk \<in> set (spec_tracks (w_spec w))" using f by (simp add: fit_def)
  moreover have "readable trk (snd (record_request tm (w_host w) q (dm_hosting s))) = readable trk (dm_hosting s)"
    by (rule readable_cong) (simp add: r)
  ultimately show ?thesis using t
    by (simp add: does_def ask_def tm q andthen_def on_hosting_def give_def tidy_def)
qed

lemma does_settle: "fit w trk \<Longrightarrow> tidy trk st s \<Longrightarrow>
    does (settle w trk) s (\<lambda>x s'. x \<and> tidy trk (st\<lparr>in_progress := None\<rparr>) s')"
proof -
  assume f: "fit w trk" and t: "tidy trk st s"
  have ok: "queue_ok (snd (finish_body st))" using t by (simp add: tidy_def queue_ok_def finish_body_def)
  have n: "norm_state (snd (finish_body st)) = st\<lparr>in_progress := None\<rparr>" by (simp add: finish_body_def norm_state_def)
  have pub: "does (andthen (publish_queue w trk) (\<lambda>_. give True)) s' (\<lambda>x s'. x \<and> tidy trk (st\<lparr>in_progress := None\<rparr>) s')"
    if "tidy trk (st\<lparr>in_progress := None\<rparr>) s'" for s'
    by (rule does_andthen, rule does_mono [OF does_publish [OF f that]]) simp
  show ?thesis unfolding settle_def
    by (rule does_andthen, rule does_mono [OF does_saving [where body = "\<lambda>now. finish_body", OF f t ok]]) (auto simp: n intro: pub)
qed

lemma does_run: "fit w trk \<Longrightarrow> tidy trk st s \<Longrightarrow> does (run_asked w trk q) s (\<lambda>x s'. x \<and> tidy trk (st\<lparr>in_progress := None\<rparr>) s')"
proof -
  assume f: "fit w trk" and t: "tidy trk st s"
  obtain out h where r: "w_run w q (dm_hosting s) = (out, h)" by (cases "w_run w q (dm_hosting s)")
  have e: "ended out" "readable trk h" using f t r by (auto simp: fit_def tidy_def dest!: spec [of _ q] spec [of _ "dm_hosting s"])
  then have "tidy trk st (s\<lparr>dm_hosting := h\<rparr>)" using t by (simp add: tidy_def)
  from does_settle [OF f this] have "does (settle w trk) (s\<lparr>dm_hosting := h\<rparr>) (\<lambda>x s'. x \<and> tidy trk (st\<lparr>in_progress := None\<rparr>) s')" .
  then show ?thesis using e(1) by (auto simp: does_def run_asked_def r ended_def split: sum.splits stop.splits)
qed


text \<open>How much there is to do: the entries and the duel in progress.\<close>

definition load_of :: "queue_state \<Rightarrow> nat" where
  "load_of st = length (entries st) + (if in_progress st = None then 0 else 1)"

definition one_less :: "string \<Rightarrow> queue_state \<Rightarrow> bool \<Rightarrow> serving_state \<Rightarrow> bool" where
  "one_less trk st busy s \<longleftrightarrow> busy = (load_of st \<noteq> 0) \<and> (\<exists>st'. tidy trk st' s \<and> load_of st' = load_of st - 1)"

lemma one_lessI: "busy \<Longrightarrow> tidy trk st' s \<Longrightarrow> load_of st = Suc (load_of st') \<Longrightarrow> one_less trk st busy s"
  by (auto simp: one_less_def)

lemma dropped_length: "distinct (map e_key (e # es)) \<Longrightarrow> drop_key (e_key e) (e # es) = es"
  by (auto simp: drop_key_def intro!: filter_True) (metis image_eqI)

lemma does_drop:
  assumes f: "fit w trk" and t: "tidy trk st s" and e: "entries st = e # es" and i: "in_progress st = None"
  shows "does (drop_king w trk (e_key e)) s (\<lambda>x s'. x \<and> tidy trk (st\<lparr>entries := es\<rparr>) s')"
proof -
  have d: "distinct (map e_key (e # es))" using t e by (simp add: tidy_def queue_ok_def)
  have b: "snd (remove_body (e_key e) st) = st\<lparr>entries := es\<rparr>" using dropped_length [OF d] by (simp add: remove_body_def Let_def e)
  have ok: "queue_ok (snd (remove_body (e_key e) st))" using t e by (simp add: b tidy_def queue_ok_def)
  have n: "norm_state (snd (remove_body (e_key e) st)) = st\<lparr>entries := es\<rparr>" by (simp add: b norm_state_def i)
  have "does (andthen (publish_queue w trk) (\<lambda>_. give True)) s' (\<lambda>x s'. x \<and> tidy trk (st\<lparr>entries := es\<rparr>) s')"
    if "tidy trk (st\<lparr>entries := es\<rparr>) s'" for s'
    by (rule does_andthen, rule does_mono [OF does_publish [OF f that]]) simp
  then show ?thesis unfolding drop_king_def
    by (intro does_andthen [OF does_mono [OF does_saving [where body = "\<lambda>now. remove_body (e_key e)", OF f t ok]]]) (auto simp: n)
qed

lemma does_take:
  assumes f: "fit w trk" and t: "tidy trk st s" and e: "entries st = e # es"
  shows "does (take_entry w trk king e) s (\<lambda>x s'. x \<and> (\<exists>st'. tidy trk st' s' \<and> entries st' = es \<and> in_progress st' = None))"
proof -
  have d: "distinct (map e_key (e # es))" using t e by (simp add: tidy_def queue_ok_def)
  have b: "take_body (e_key e) blk ev now st = (Some e, snd (take_body (e_key e) blk ev now st))
      \<and> entries (snd (take_body (e_key e) blk ev now st)) = es" for blk ev now
    using dropped_length [OF d] by (simp add: take_body_def e)
  have taken: "fst (take_body (e_key e) blk ev now st) = Some e" for blk ev now using b by (metis fst_conv)
  have ok: "queue_ok (snd (take_body (e_key e) blk ev now st))" for blk ev now
    using change_ok [of st "Take (e_key e) blk ev now"] t by (simp add: tidy_def)
  have run: "does (andthen (publish_queue w trk) (\<lambda>_. run_asked w trk q)) s'
      (\<lambda>x s'. x \<and> (\<exists>st'. tidy trk st' s' \<and> entries st' = es \<and> in_progress st' = None))"
    if "tidy trk (norm_state (snd (take_body (e_key e) blk ev now st))) s'" for q s' blk ev now
  proof -
    have "does (run_asked w trk q) s1 (\<lambda>x s'. x \<and> (\<exists>st'. tidy trk st' s' \<and> entries st' = es \<and> in_progress st' = None))"
      if "tidy trk (norm_state (snd (take_body (e_key e) blk ev now st))) s1" for s1
      by (rule does_mono [OF does_run [OF f that]]) (use b [of blk ev now] in auto)
    then show ?thesis by (intro does_andthen [OF does_mono [OF does_publish [OF f that]]])
  qed
  have save: "does (andthen (saving w trk (\<lambda>now. take_body (e_key e) blk ev now))
      (\<lambda>taken. if taken = None then give True else andthen (publish_queue w trk) (\<lambda>_. run_asked w trk q))) s1
      (\<lambda>x s'. x \<and> (\<exists>st'. tidy trk st' s' \<and> entries st' = es \<and> in_progress st' = None))" if "tidy trk st s1" for blk ev q s1
    by (rule does_andthen [OF does_mono [OF does_saving [where body = "\<lambda>now. take_body (e_key e) blk ev now", OF f that ok]]])
      (use b in \<open>auto intro: run simp: taken\<close>)
  show ?thesis unfolding take_entry_def Let_def
    by (rule does_andthen, rule does_mono [OF does_next_block [OF f t]], rule does_andthen, rule does_mono [OF does_ask [OF f]])
      (auto intro: save)
qed

lemma does_resume:
  assumes f: "fit w trk" and t: "tidy trk st s"
  shows "does (resume w trk p) s (\<lambda>x s'. x \<and> tidy trk (st\<lparr>in_progress := None\<rparr>) s')"
proof -
  obtain tm where "terms_of (w_spec w) trk None = Some tm" using fit_terms [OF f] by blast
  then obtain ver where "spec_version (w_spec w) = Some ver" by (auto simp: terms_of_def bind_eq_Some_conv)
  then show ?thesis using does_settle [OF f t] does_run [OF f t]
    by (auto simp: resume_def does_def Let_def split: option.split)
qed

lemma step_drains:
  assumes f: "fit w trk" and t: "tidy trk st s"
  shows "does (step w trk) s (one_less trk st)"
  unfolding step_def
proof (rule does_andthen [OF does_mono [OF does_reload [OF f t]]], goal_cases)
  case (1 x s1)
  then have x: "x = st" and t1: "tidy trk st s1" by simp_all
  show ?case unfolding x
  proof (cases "in_progress st")
    case (Some p)
    have "does (if \<not> ready then give False else resume w trk p) s1
      (one_less trk st)" if ready for ready
      using that by simp (rule does_mono [OF does_resume [OF f t1]], auto intro!: one_lessI simp: load_of_def Some)
    then show "does (case in_progress st of Some p \<Rightarrow> andthen (benchmarks_ready w trk) (\<lambda>ready. if \<not> ready then give False else resume w trk p)
       | None \<Rightarrow> (\<lambda>s. if trk \<in> set (dm_stalled s) then give False s else andthen (current_king trk) (\<lambda>king.
           case (king, baseline (w_spec w) trk) of (None, Some b) \<Rightarrow> baseline_genesis w trk b | _ \<Rightarrow> next_entry w trk king) s)) s1
       (one_less trk st)"
      unfolding Some option.case by (intro does_andthen [OF does_mono [OF does_ready [OF f]]]) auto
  next
    case None
    have entry: "does (next_entry w trk king) s1 (one_less trk st)" for king
      unfolding next_entry_def
    proof (rule does_andthen [OF does_mono [OF does_reload [OF f t1]]], goal_cases)
      case (1 x s2)
      then have x: "x = st" and t2: "tidy trk st s2" by simp_all
      show ?case unfolding x
      proof (cases "entries st")
        case Nil
        then show "does (case entries st of [] \<Rightarrow> give False | e # _ \<Rightarrow> andthen (benchmarks_ready w trk) (\<lambda>ready.
           if \<not> ready then give False else if king \<noteq> None \<and> key (the king) = e_key e then drop_king w trk (e_key e)
           else take_entry w trk king e)) s2
           (one_less trk st)"
          using t2 None by (auto simp: load_of_def one_less_def)
      next
        case (Cons e es)
        have dr: "does (drop_king w trk (e_key e)) s2 (one_less trk st)"
          by (rule does_mono [OF does_drop [OF f t2 Cons None]]) (auto intro!: one_lessI simp: load_of_def None Cons)
        have tk: "does (take_entry w trk king e) s2 (one_less trk st)"
          by (rule does_mono [OF does_take [OF f t2 Cons]]) (auto intro!: one_lessI simp: load_of_def None Cons)
        have "does (if \<not> ready then give False else if king \<noteq> None \<and> key (the king) = e_key e then drop_king w trk (e_key e)
           else take_entry w trk king e) s2
           (one_less trk st)" if ready for ready
          using that dr tk by simp
        then show "does (case entries st of [] \<Rightarrow> give False | e # _ \<Rightarrow> andthen (benchmarks_ready w trk) (\<lambda>ready.
           if \<not> ready then give False else if king \<noteq> None \<and> key (the king) = e_key e then drop_king w trk (e_key e)
           else take_entry w trk king e)) s2
           (one_less trk st)"
          unfolding Cons list.case by (intro does_andthen [OF does_mono [OF does_ready [OF f]]]) auto
      qed
    qed
    have stall: "trk \<notin> set (dm_stalled s1)" and base: "baseline (w_spec w) trk = None" using t1 f by (simp_all add: tidy_def fit_def)
    have "does (andthen (current_king trk) (\<lambda>king. case (king, baseline (w_spec w) trk) of (None, Some b) \<Rightarrow> baseline_genesis w trk b
       | _ \<Rightarrow> next_entry w trk king)) s1 (one_less trk st)"
      by (rule does_andthen [OF does_mono [OF does_king [OF t1]]]) (use entry in \<open>simp add: base split: option.split\<close>)
    then show "does (case in_progress st of Some p \<Rightarrow> andthen (benchmarks_ready w trk) (\<lambda>ready. if \<not> ready then give False else resume w trk p)
       | None \<Rightarrow> (\<lambda>s. if trk \<in> set (dm_stalled s) then give False s else andthen (current_king trk) (\<lambda>king.
           case (king, baseline (w_spec w) trk) of (None, Some b) \<Rightarrow> baseline_genesis w trk b | _ \<Rightarrow> next_entry w trk king) s)) s1
       (one_less trk st)"
      using stall by (simp add: None does_def)
  qed
qed


text \<open>Many steps, each at its own time and on its own host.\<close>

definition steps :: "string \<Rightarrow> settings list \<Rightarrow> serving_state \<Rightarrow> serving_state" where
  "steps trk ws s = foldl (\<lambda>s w. snd (step w trk s)) s ws"

lemma steps_drain:
  "list_all (\<lambda>w. fit w trk) ws \<Longrightarrow> tidy trk st s \<Longrightarrow> \<exists>st'. tidy trk st' (steps trk ws s) \<and> load_of st' = load_of st - length ws"
proof (induction ws arbitrary: st s)
  case (Cons w ws)
  obtain x s1 st1 where s1: "step w trk s = (Inr x, s1)" "tidy trk st1 s1" "load_of st1 = load_of st - 1"
    using step_drains [of w trk st s] Cons.prems by (auto simp: does_def one_less_def)
  from Cons.IH [OF _ s1(2)] Cons.prems(1) show ?case by (auto simp: steps_def s1(1,3))
qed (auto simp: steps_def)

section \<open>The waits\<close>

lemma backoff_range: "1 \<le> most \<Longrightarrow> 1 \<le> backoff_s most n \<and> backoff_s most n \<le> most"
  by (simp add: backoff_s_def BACKOFF_START_S_def)

lemma backoff_mono: "m \<le> n \<Longrightarrow> backoff_s most m \<le> backoff_s most n"
proof -
  assume "m \<le> n"
  then have "(2::rat) ^ min (max m 1 - 1) 60 \<le> 2 ^ min (max n 1 - 1) 60" by (intro power_increasing) auto
  then show ?thesis by (simp add: backoff_s_def BACKOFF_START_S_def min_le_iff_disj)
qed

lemma backoff_doubles: "0 < n \<Longrightarrow> n \<le> 60 \<Longrightarrow> backoff_s most (n + 1) = min most (2 * (BACKOFF_START_S * 2 ^ (n - 1)))"
  by (cases n) (simp_all add: backoff_s_def max_def min_def)

definition slept_ok :: "rat \<Rightarrow> rat \<Rightarrow> rounds \<Rightarrow> bool" where
  "slept_ok idle most r \<longleftrightarrow> list_all (\<lambda>x. x = idle \<or> 1 \<le> x \<and> x \<le> most) (rd_slept r)"

lemma round_slept: "1 \<le> most \<Longrightarrow> slept_ok idle most r \<Longrightarrow> slept_ok idle most (round_of idle most trks w r)
    \<and> rd_crashes (round_of idle most trks w r) \<le> rd_crashes r + 1 \<and> length (rd_slept (round_of idle most trks w r)) \<le> length (rd_slept r) + 1"
  using backoff_range [of most "rd_crashes r + 1"] by (auto simp: round_of_def slept_ok_def split: prod.split sum.split)

lemma rounds_slept: "1 \<le> most \<Longrightarrow> slept_ok idle most r \<Longrightarrow> slept_ok idle most (foldl (\<lambda>r w. round_of idle most trks w r) r ws)
    \<and> rd_crashes (foldl (\<lambda>r w. round_of idle most trks w r) r ws) \<le> rd_crashes r + length ws
    \<and> length (rd_slept (foldl (\<lambda>r w. round_of idle most trks w r) r ws)) \<le> length (rd_slept r) + length ws"
proof (induction ws arbitrary: r)
  case (Cons w ws)
  note r = round_slept [OF Cons.prems, of trks w]
  from Cons.IH [OF Cons.prems(1), of "round_of idle most trks w r"] r show ?case by simp
qed simp

section \<open>A small daemon\<close>

definition small_settings :: settings where
  "small_settings = \<lparr>w_spec = small_spec, w_host = small_host, w_run = (\<lambda>q h. (Inl (Duel_Failed ''no''), h)), w_now = (\<lambda>_. ''t''),
     w_others = (\<lambda>_ _. [])\<rparr>"

definition small_serving :: serving_state where
  "small_serving = \<lparr>dm_hosting = small_hosting, dm_queues = (\<lambda>_. Some (save_text one_waiting)), dm_stalled = [], dm_reads = 0\<rparr>"

lemma small_load: "load (Some (save_text one_waiting)) = Inr one_waiting"
  using load_save_ok [OF one_waiting_ok] by (simp add: one_waiting_def norm_state_def)

lemma small_terms_size: "terms_of small_spec ''fa'' sz = Some small_terms"
proof -
  have "size_of small_spec ''fa'' sz = size_of small_spec ''fa'' None"
    by (cases sz) (simp_all add: size_of_def sizes_def default_size_def duel_of_def track_def spec_section_def small_spec_def key_of_def jget_JObj jhas_JObj)
  then have "terms_of small_spec ''fa'' sz = terms_of small_spec ''fa'' None" by (simp add: terms_of_def)
  then show ?thesis by (simp add: small_terms_of)
qed

lemma small_fit: "fit small_settings ''fa''"
proof -
  have "baseline small_spec ''fa'' = None" by code_simp
  moreover have "benchmarks_of small_spec ''fa'' = Some []" by code_simp
  ultimately show ?thesis by (simp add: fit_def small_settings_def small_terms_size small_schema ended_def)
qed

lemma small_tidy: "tidy ''fa'' one_waiting small_serving"
proof -
  have "head ''fa'' sample_store = head_of 4 []" using small_track by (simp add: track_on_def)
  moreover have "readable ''fa'' small_hosting" if "head ''fa'' sample_store = head_of 4 []"
  proof -
    have "jget (head_of 4 []) ''king'' = JNull" "\<exists>b. jget (head_of 4 []) ''block'' = JInt b" "is_obj (head_of 4 [])"
      by (simp_all add: head_of_def head_dict_def kings_def jget_jsort jget_JObj)
    moreover have "truthy (head_of 4 [])" using calculation by (cases "head_of 4 []") (auto simp: jget_def)
    ultimately show ?thesis
      by (auto simp: readable_def small_hosting_def that Let_def or_empty_def ref_from_dict_def head_block_def truthy_or_empty)
  qed
  ultimately show ?thesis by (simp add: tidy_def small_serving_def small_load one_waiting_ok)
qed

section \<open>Properties\<close>







end
