(* ===== verification/Mirror.thy ===== *)
theory Mirror
  imports Store_Log
begin

text \<open>
  \<open>store/mirror.py\<close>: the store's copy in a Hugging Face dataset repository. The Hub is an
  argument: what it lists and what a commit makes of a repository; \<open>mirrors\<close> states what its
  documentation promises of the two. A local root is the store's list of files. The log messages
  and the Hub's failures other than an answer that is an error are not modelled.
\<close>

section \<open>What belongs in the mirror\<close>

definition REPO_OWNED :: "string list" where
  "REPO_OWNED = [''.gitattributes'', ''README.md'']"

definition not_slash :: "char \<Rightarrow> bool" where
  "not_slash c \<longleftrightarrow> c \<noteq> CHR ''/''"

definition layout_manifest :: rx where
  "layout_manifest = Lit ''manifest.json''"

definition layout_track :: rx where
  "layout_track = Cat (Lit ''tracks/'') (Cat (Plus (Cls not_slash)) (Cat (Lit ''/'')
     (Cat (Alt (Lit ''head'') (Lit ''queue'')) (Lit ''.json''))))"

definition layout_index :: rx where
  "layout_index = Cat (Lit ''tracks/'') (Cat (Plus (Cls not_slash)) (Cat (Lit ''/index-'')
     (Cat (Cat (Rep 4 (Cls ascii_digit)) (Star (Cls ascii_digit))) (Lit ''.jsonl''))))"

definition layout_event :: rx where
  "layout_event = Cat (Lit ''events/'') (Cat (Plus (Cls not_slash)) (Cat (Lit ''/'')
     (Cat (RepRange 8 64 (Cls hex_lower)) (Lit ''.json''))))"

definition layout_media :: rx where
  "layout_media = Cat (Lit ''media/'') (Cat (RepRange 1 4 (Cls hex_lower)) (Cat (Lit ''/'')
     (Cat (Rep 64 (Cls hex_lower)) (Cat (Lit ''.'') (RepRange 1 8 (Cls alnum))))))"

definition STORE_LAYOUT :: rx where
  "STORE_LAYOUT = AnyOf [layout_manifest, layout_track, layout_index, layout_event, layout_media]"

definition in_layout :: "string \<Rightarrow> bool" where
  "in_layout p \<longleftrightarrow> rx_fullmatch STORE_LAYOUT p"

definition store_files :: "files \<Rightarrow> string list" where
  "store_files fs = sort (filter in_layout (remdups (map fst fs)))"

text \<open>The files a root holds beside its store's: named in a warning and left behind.\<close>

definition hidden :: "string \<Rightarrow> bool" where
  "hidden p \<longleftrightarrow> list_ex (\<lambda>part. startswith part ''.'') (split_on CHR ''/'' p)"

definition beside :: "files \<Rightarrow> string list" where
  "beside fs = sort (filter (\<lambda>p. p \<notin> set (store_files fs) \<and> \<not> hidden p) (remdups (map fst fs)))"

definition check_is_store :: "files \<Rightarrow> string + string list" where
  "check_is_store fs =
     (if read_file fs ''manifest.json'' = None then Inl ''holds no manifest.json; it is not a store''
      else Inr (store_files fs))"

section \<open>Commits\<close>

text \<open>\<open>CommitOperationAdd\<close> of a path and the bytes of the local file, \<open>CommitOperationDelete\<close>.\<close>

datatype commit_op = Add string string | Delete string

record 'r hub =
  hub_create :: "'r \<Rightarrow> string + 'r"
  hub_listing :: "'r \<Rightarrow> string + string list"
  hub_commit :: "string \<Rightarrow> commit_op list \<Rightarrow> 'r \<Rightarrow> string + (string \<times> 'r)"

definition add_of :: "files \<Rightarrow> string \<Rightarrow> commit_op" where
  "add_of fs f = Add f (case read_file fs f of None \<Rightarrow> [] | Some t \<Rightarrow> t)"

definition push_ops :: "files \<Rightarrow> string list \<Rightarrow> commit_op list" where
  "push_ops fs names = map (add_of fs) (filter (\<lambda>f. read_file fs f \<noteq> None) (sort (remdups names)))"

definition push :: "'r hub \<Rightarrow> files \<Rightarrow> string \<Rightarrow> string list \<Rightarrow> 'r \<Rightarrow> string + (string option \<times> 'r)" where
  "push h fs msg names r =
     (if push_ops fs names = [] then Inr (None, r)
      else bindE (hub_commit h msg (push_ops fs names) r) (\<lambda>(oid, r'). Inr (Some oid, r')))"

definition push_all :: "'r hub \<Rightarrow> files \<Rightarrow> string \<Rightarrow> 'r \<Rightarrow> string + (string option \<times> 'r)" where
  "push_all h fs msg r = bindE (check_is_store fs) (\<lambda>names. push h fs msg names r)"

definition stale_paths :: "string list \<Rightarrow> string list \<Rightarrow> string list" where
  "stale_paths remote local = sort (filter (\<lambda>f. f \<notin> set local \<and> f \<notin> set REPO_OWNED) (remdups remote))"

definition replace_all :: "'r hub \<Rightarrow> files \<Rightarrow> string \<Rightarrow> 'r \<Rightarrow> string + (string \<times> 'r)" where
  "replace_all h fs msg r =
     bindE (check_is_store fs) (\<lambda>local.
     if local = [] then Inl ''holds no files; refusing to empty the repository''
     else bindE (hub_listing h r) (\<lambda>remote.
       hub_commit h msg (map Delete (stale_paths remote local) @ map (add_of fs) local) r))"

definition mirror_store :: "'r hub \<Rightarrow> files \<Rightarrow> string \<Rightarrow> bool \<Rightarrow> string list option \<Rightarrow> 'r \<Rightarrow> string + (nat \<times> 'r)" where
  "mirror_store h fs msg prune names r =
     bindE (check_is_store fs) (\<lambda>_. bindE (hub_create h r) (\<lambda>r.
     if prune then bindE (replace_all h fs msg r) (\<lambda>(_, r'). Inr (length (store_files fs), r'))
     else case names of
         None \<Rightarrow> bindE (push_all h fs msg r) (\<lambda>(_, r'). Inr (length (store_files fs), r'))
       | Some ns \<Rightarrow> bindE (push h fs msg ns r) (\<lambda>(_, r'). Inr (length ns, r'))))"

section \<open>What the Hub promises\<close>

text \<open>What a repository holds at a path after the operations of one commit.\<close>

definition committed_at :: "commit_op list \<Rightarrow> (string \<Rightarrow> string option) \<Rightarrow> string \<Rightarrow> string option" where
  "committed_at ops before p =
     (case List.find (\<lambda>op. case op of Add q _ \<Rightarrow> q = p | Delete q \<Rightarrow> q = p) ops of
        None \<Rightarrow> before p | Some (Add q t) \<Rightarrow> Some t | Some (Delete q) \<Rightarrow> None)"

fun op_path :: "commit_op \<Rightarrow> string" where
  "op_path (Add p t) = p"
| "op_path (Delete p) = p"

definition mirrors :: "'r hub \<Rightarrow> ('r \<Rightarrow> string \<Rightarrow> string option) \<Rightarrow> bool" where
  "mirrors h reads \<longleftrightarrow>
     (\<forall>r r'. hub_create h r = Inr r' \<longrightarrow> reads r' = reads r) \<and>
     (\<forall>r ps. hub_listing h r = Inr ps \<longrightarrow> set ps = dom (reads r)) \<and>
     (\<forall>msg ops r oid r'. distinct (map op_path ops) \<longrightarrow> hub_commit h msg ops r = Inr (oid, r') \<longrightarrow>
        reads r' = committed_at ops (reads r))"

section \<open>The layout and the writer's paths\<close>

lemma layout_member:
  "in_layout p \<longleftrightarrow> rx_matches layout_manifest p \<or> rx_matches layout_track p \<or> rx_matches layout_index p
     \<or> rx_matches layout_event p \<or> rx_matches layout_media p"
  by (simp add: in_layout_def STORE_LAYOUT_def rx_fullmatch_iff)

lemma matches_Plus_Cls: "rx_matches (Plus (Cls q)) s \<longleftrightarrow> s \<noteq> [] \<and> list_all q s"
  using fullmatch_Plus_Cls [of q s] by (simp add: rx_fullmatch_iff)

lemma matches_RepUpTo_Cls: "length s \<le> n \<Longrightarrow> list_all q s \<Longrightarrow> rx_matches (RepUpTo n (Cls q)) s"
proof (induction n arbitrary: s)
  case (Suc n)
  then show ?case by (cases s) (auto simp: matches_cat_Cls)
qed simp

lemma matches_RepRange_Cls:
  assumes "m \<le> length s" "length s \<le> n" "list_all q s"
  shows "rx_matches (RepRange m n (Cls q)) s"
proof -
  have "rx_matches (Cat (Rep m (Cls q)) (RepUpTo (n - m) (Cls q))) (take m s @ drop m s)"
    using assms set_take_subset [of m s] set_drop_subset [of m s]
    by (intro rx_matches.cat matches_RepUpTo_Cls) (auto simp: matches_Rep_Cls list_all_iff)
  then show ?thesis by (simp add: RepRange_def)
qed

definition plain_track :: "string \<Rightarrow> bool" where
  "plain_track t \<longleftrightarrow> t \<noteq> [] \<and> list_all not_slash t"

lemmas layout_shapes = matches_Lit matches_Plus_Cls matches_Rep_Cls matches_Star_Cls

lemma manifest_in_layout: "in_layout ''manifest.json''"
  by (simp add: layout_member layout_manifest_def matches_Lit del: Lit.simps)

lemma head_in_layout: "plain_track t \<Longrightarrow> in_layout (head_path t)"
  and queue_in_layout: "plain_track t \<Longrightarrow> in_layout (queue_path t)"
proof -
  have "in_layout (''tracks/'' @ t @ ''/'' @ n @ ''.json'')" if "plain_track t" "n = ''head'' \<or> n = ''queue''" for n
    unfolding layout_member layout_track_def using that
    by (intro disjI2 disjI1 rx_matches.cat) (simp_all add: layout_shapes plain_track_def del: Lit.simps)
  from this [of "''head''"] this [of "''queue''"]
  show "plain_track t \<Longrightarrow> in_layout (head_path t)" and "plain_track t \<Longrightarrow> in_layout (queue_path t)"
    by (simp_all add: head_path_def queue_path_def track_dir_def)
qed

lemma index_in_layout:
  assumes "plain_track t"
  shows "in_layout (index_part_path t n)"
proof -
  let ?d = "zpad 4 n"
  have len: "4 \<le> length ?d" by (rule length_zpad)
  have all: "list_all ascii_digit ?d" by (auto simp: list_all_iff dest: zpad_ascii)
  have d: "rx_matches (Cat (Rep 4 (Cls ascii_digit)) (Star (Cls ascii_digit))) (take 4 ?d @ drop 4 ?d)"
    using all len set_take_subset [of 4 ?d] set_drop_subset [of 4 ?d]
    by (intro rx_matches.cat) (auto simp: layout_shapes list_all_iff simp del: Rep.simps)
  have "rx_matches layout_index (''tracks/'' @ t @ ''/index-'' @ (take 4 ?d @ drop 4 ?d) @ ''.jsonl'')"
    unfolding layout_index_def using assms d
    by (intro rx_matches.cat [OF _ rx_matches.cat [OF _ rx_matches.cat [OF _ rx_matches.cat [OF d]]]])
      (simp_all add: layout_shapes plain_track_def del: Lit.simps)
  then show ?thesis by (simp add: layout_member index_part_path_def track_dir_def)
qed

lemma event_in_layout:
  assumes "plain_track t" "8 \<le> length e" "length e \<le> 64" "list_all hex_lower e"
  shows "in_layout (event_path t e)"
proof -
  have "rx_matches layout_event (''events/'' @ t @ ''/'' @ e @ ''.json'')"
    unfolding layout_event_def using assms
    by (intro rx_matches.cat matches_RepRange_Cls) (simp_all add: layout_shapes plain_track_def del: Lit.simps)
  then show ?thesis by (simp add: layout_member event_path_def)
qed

lemma media_in_layout:
  assumes "1 \<le> b" "b \<le> 4" "length s = 64" "list_all hex_lower s"
    and "1 \<le> length x" "length x \<le> 8" "list_all alnum x"
  shows "in_layout (media_path b s x)"
proof -
  have "rx_matches layout_media (''media/'' @ take b s @ ''/'' @ s @ ''.'' @ x)"
    unfolding layout_media_def using assms set_take_subset [of b s]
    by (intro rx_matches.cat matches_RepRange_Cls) (auto simp: layout_shapes list_all_iff simp del: Lit.simps Rep.simps)
  then show ?thesis by (simp add: layout_member media_path_def)
qed

lemma owned_not_in_layout: "p \<in> set REPO_OWNED \<Longrightarrow> \<not> in_layout p"
  by (auto simp: REPO_OWNED_def in_layout_def STORE_LAYOUT_def layout_manifest_def layout_track_def
      layout_index_def layout_event_def layout_media_def)

section \<open>A Hub that keeps its promises\<close>

text \<open>A repository as a list of files, for the concrete instances below.\<close>

fun sample_commit :: "commit_op list \<Rightarrow> files \<Rightarrow> files" where
  "sample_commit [] r = r"
| "sample_commit (Add p t # ops) r = put p t (sample_commit ops r)"
| "sample_commit (Delete p # ops) r = filter (\<lambda>(q, _). q \<noteq> p) (sample_commit ops r)"

definition sample_hub :: "files hub" where
  "sample_hub = \<lparr>hub_create = Inr, hub_listing = (\<lambda>r. Inr (map fst r)),
     hub_commit = (\<lambda>msg ops r. Inr (''oid'', sample_commit ops r))\<rparr>"

lemma read_filter: "read_file (filter (\<lambda>(q, _). q \<noteq> p) r) q = (if q = p then None else read_file r q)"
  by (induction r) (auto simp: read_file_def)

lemma read_sample_commit: "read_file (sample_commit ops r) = committed_at ops (read_file r)"
  by (induction ops r rule: sample_commit.induct)
    (auto simp: fun_eq_iff committed_at_def read_filter)

lemma dom_read_file: "dom (read_file r) = fst ` set r"
proof -
  have "read_file r = map_of r" by (simp add: fun_eq_iff read_file_def)
  then show ?thesis by (simp add: dom_map_of_conv_image_fst)
qed

lemma sample_hub_mirrors: "mirrors sample_hub read_file"
  by (auto simp: mirrors_def sample_hub_def read_sample_commit dom_read_file)

definition sample_root :: files where
  "sample_root = [(''manifest.json'', ''{}''), (''validator.key'', ''secret''), (''tracks/fa/head.json'', ''{}'')]"

definition sample_remote :: files where
  "sample_remote = [(''README.md'', ''card''), (''tracks/old/head.json'', ''old'')]"

section \<open>A rebuilt mirror is the store\<close>

lemma set_store_files: "set (store_files fs) = {p. in_layout p \<and> read_file fs p \<noteq> None}"
  by (auto simp: store_files_def read_file_def map_of_eq_None_iff)

lemma distinct_store_files: "distinct (store_files fs)"
  by (simp add: store_files_def)

lemma op_path_add_of [simp]: "op_path (add_of fs f) = f"
  by (simp add: add_of_def)

lemma find_adds:
  "List.find (\<lambda>op. op_path op = p) (map (add_of fs) ps) = (if p \<in> set ps then Some (add_of fs p) else None)"
  by (induction ps) auto

lemma find_deletes:
  "List.find (\<lambda>op. op_path op = p) (map Delete ps @ ops) =
     (if p \<in> set ps then Some (Delete p) else List.find (\<lambda>op. op_path op = p) ops)"
  by (induction ps) auto

lemma committed_at_alt:
  "committed_at ops before p = (case List.find (\<lambda>op. op_path op = p) ops of
      None \<Rightarrow> before p | Some (Add q t) \<Rightarrow> Some t | Some (Delete q) \<Rightarrow> None)"
proof -
  have "(\<lambda>op. case op of Add q _ \<Rightarrow> q = p | Delete q \<Rightarrow> q = p) = (\<lambda>op. op_path op = p)"
    by (auto simp: fun_eq_iff split: commit_op.splits)
  then show ?thesis by (simp add: committed_at_def)
qed

lemma committed_adds:
  "\<forall>p \<in> set ps. read_file fs p \<noteq> None \<Longrightarrow>
     committed_at (map (add_of fs) ps) before p = (if p \<in> set ps then read_file fs p else before p)"
  by (auto simp: committed_at_alt find_adds add_of_def split: option.splits)

lemma committed_replacement:
  "\<forall>p \<in> set ps. read_file fs p \<noteq> None \<Longrightarrow> set ds \<inter> set ps = {} \<Longrightarrow>
     committed_at (map Delete ds @ map (add_of fs) ps) before p =
       (if p \<in> set ps then read_file fs p else if p \<in> set ds then None else before p)"
  by (auto simp: committed_at_alt find_adds find_deletes add_of_def split: option.splits)

text \<open>C9. A mirror rebuilt with \<open>prune\<close> holds exactly the store: at every path of the layout what
  the local root holds there, the repository's own two files as they were, and nothing else,
  whatever else the local root or the repository held.\<close>

theorem rebuilt_mirror_exact:
  assumes "mirrors h reads" and "mirror_store h fs msg True names r = Inr (n, r')"
  shows "reads r' p = (if in_layout p then read_file fs p else if p \<in> set REPO_OWNED then reads r p else None)
    \<and> n = card {q. in_layout q \<and> read_file fs q \<noteq> None}"
proof -
  let ?ps = "store_files fs"
  from assms obtain r1 remote oid where r1: "hub_create h r = Inr r1" and listing: "hub_listing h r1 = Inr remote"
    and commit: "hub_commit h msg (map Delete (stale_paths remote ?ps) @ map (add_of fs) ?ps) r1 = Inr (oid, r')"
    and n: "n = length ?ps"
    by (auto simp: mirror_store_def replace_all_def check_is_store_def bindE_Inr_iff split: if_splits)
  have stale: "set (stale_paths remote ?ps) = dom (reads r) - set ?ps - set REPO_OWNED"
    using assms(1) r1 listing by (auto simp: mirrors_def stale_paths_def)
  have "distinct (map op_path (map Delete (stale_paths remote ?ps) @ map (add_of fs) ?ps))"
    using stale distinct_store_files [of fs] by (auto simp: comp_def stale_paths_def)
  moreover from assms(1) r1 have "reads r1 = reads r" by (simp add: mirrors_def)
  ultimately have "reads r' = committed_at (map Delete (stale_paths remote ?ps) @ map (add_of fs) ?ps) (reads r)"
    using assms(1) commit unfolding mirrors_def by metis
  then have "reads r' p = (if p \<in> set ?ps then read_file fs p else if p \<in> set (stale_paths remote ?ps) then None else reads r p)"
    using stale by (simp add: committed_replacement set_store_files disjoint_iff)
  with stale have "reads r' p = (if in_layout p then read_file fs p else if p \<in> set REPO_OWNED then reads r p else None)"
    using owned_not_in_layout by (auto simp: set_store_files)
  then show ?thesis using n distinct_card [OF distinct_store_files [of fs]] by (simp add: set_store_files)
qed

theorem rebuilt_mirror_exact_witness:
  "\<exists>r'. mirror_store sample_hub sample_root ''m'' True None sample_remote = Inr (2, r')
    \<and> read_file r' ''validator.key'' = None \<and> read_file r' ''tracks/old/head.json'' = None
    \<and> read_file r' ''README.md'' = Some ''card''"
proof -
  let ?r = "snd (case mirror_store sample_hub sample_root ''m'' True None sample_remote of Inr y \<Rightarrow> y)"
  have run: "mirror_store sample_hub sample_root ''m'' True None sample_remote = Inr (2, ?r)"
    by code_simp
  have "\<not> in_layout ''validator.key'' \<and> \<not> in_layout ''README.md''" "in_layout ''tracks/old/head.json''"
    by code_simp+
  then show ?thesis
    using run rebuilt_mirror_exact [OF sample_hub_mirrors run, of "''validator.key''"]
      rebuilt_mirror_exact [OF sample_hub_mirrors run, of "''tracks/old/head.json''"]
      rebuilt_mirror_exact [OF sample_hub_mirrors run, of "''README.md''"]
    by (auto simp: sample_root_def sample_remote_def REPO_OWNED_def read_file_def)
qed

section \<open>A push leaves the mirror with the store\<close>

text \<open>What the writer does to a store between two pushes.\<close>

datatype store_op =
    Put_Event string json
  | Append string json
  | Rebuild string
  | Put_Queue string json
  | Put_Media nat string string
  | Init string

definition apply_op :: "contract \<Rightarrow> verifier \<Rightarrow> signer \<Rightarrow> store \<Rightarrow> store_op \<Rightarrow> store" where
  "apply_op sp verify sg st op =
     (case op of
        Put_Event trk ev \<Rightarrow> write_event trk ev st
      | Append trk rec \<Rightarrow> snd (append_record sp verify (Some sg) trk rec st)
      | Rebuild trk \<Rightarrow> snd (rebuild_head sp verify (verify_key sg) trk st)
      | Put_Queue trk snap \<Rightarrow> write_queue trk snap st
      | Put_Media b content ext \<Rightarrow> snd (put_media b content ext st)
      | Init vk \<Rightarrow> (case init_store sp vk st of None \<Rightarrow> st | Some (m, st') \<Rightarrow> st'))"

text \<open>The operations of a contract's tracks on an index whose last line is whole.\<close>

definition op_ok :: "contract \<Rightarrow> verifier \<Rightarrow> signer \<Rightarrow> store \<Rightarrow> store_op \<Rightarrow> bool" where
  "op_ok sp verify sg st op \<longleftrightarrow> (case op of
        Put_Event trk ev \<Rightarrow> plain_track trk \<and> (let e = py_str (jget ev ''event_id'') in
          8 \<le> length e \<and> length e \<le> 64 \<and> list_all hex_lower e)
      | Append trk rec \<Rightarrow> plain_track trk \<and> repair_tail verify (verify_key sg) trk (disk st) = disk st
      | Rebuild trk \<Rightarrow> plain_track trk \<and> repair_tail verify (verify_key sg) trk (disk st) = disk st
      | Put_Queue trk snap \<Rightarrow> plain_track trk
      | Put_Media b content ext \<Rightarrow> 1 \<le> b \<and> b \<le> 4 \<and> 1 \<le> length ext \<and> length ext \<le> 8 \<and> list_all alnum ext
      | Init vk \<Rightarrow> list_all plain_track (spec_tracks sp))"

fun run_ops :: "contract \<Rightarrow> verifier \<Rightarrow> signer \<Rightarrow> store \<Rightarrow> store_op list \<Rightarrow> store option" where
  "run_ops sp verify sg st [] = Some st"
| "run_ops sp verify sg st (op # ops) =
     (if op_ok sp verify sg st op then run_ops sp verify sg (apply_op sp verify sg st op) ops else None)"

text \<open>What a mirror knows of a store: every path of the layout it differs at was touched.\<close>

definition owed :: "(string \<Rightarrow> string option) \<Rightarrow> store \<Rightarrow> bool" where
  "owed seen st \<longleftrightarrow> (\<forall>p. in_layout p \<and> p \<notin> set (touched st) \<longrightarrow> seen p = read_file (disk st) p)
     \<and> (\<forall>p \<in> set (touched st). in_layout p \<and> read_file (disk st) p \<noteq> None)"

lemma owed_touch_put:
  "owed seen st \<Longrightarrow> in_layout p \<Longrightarrow> owed seen (touch p (st\<lparr>disk := put p t (disk st)\<rparr>))"
  by (auto simp: owed_def touch_def)

lemma owed_touch:
  "owed seen st \<Longrightarrow> in_layout p \<Longrightarrow> read_file (disk st) p \<noteq> None \<Longrightarrow> owed seen (touch p st)"
  by (auto simp: owed_def touch_def)

lemma owed_write_json: "owed seen st \<Longrightarrow> in_layout p \<Longrightarrow> owed seen (touch p (write_json p obj st))"
  by (simp add: write_json_def owed_touch_put)

lemma owed_write_head: "owed seen st \<Longrightarrow> plain_track trk \<Longrightarrow> owed seen (write_head schema trk seq ev blk fin king st)"
  by (simp add: write_head_def owed_write_json head_in_layout)

lemma owed_append:
  assumes "owed seen st" "plain_track trk" "repair_tail verify (verify_key sg) trk (disk st) = disk st"
  shows "owed seen (snd (append_record sp verify (Some sg) trk rec st))"
  using owed_touch_put [OF assms(1) index_in_layout [OF assms(2)]] owed_write_head [OF _ assms(2)] assms
  by (auto simp: append_record_def Let_def split: option.splits bool.splits)

lemma owed_rebuild:
  assumes "owed seen st" "plain_track trk" "repair_tail verify (verify_key sg) trk (disk st) = disk st"
  shows "owed seen (snd (rebuild_head sp verify (verify_key sg) trk st))"
  using owed_write_head [OF _ assms(2)] assms
  by (auto simp: rebuild_head_def Let_def split: option.splits bool.splits list.splits)

lemma owed_media:
  assumes "owed seen st" "1 \<le> b" "b \<le> 4" "1 \<le> length x" "length x \<le> 8" "list_all alnum x"
  shows "owed seen (snd (put_media b content x st))"
proof -
  have "in_layout (media_path b (sha256_hex_bytes content) x)"
    using assms by (intro media_in_layout sha_bytes.digest_all_lower) (simp_all add: sha_bytes.length_digest)
  then show ?thesis
    using assms(1) owed_touch_put owed_touch by (fastforce simp: put_media_def Let_def)
qed

lemma owed_init_heads:
  "owed seen st \<Longrightarrow> list_all plain_track trks \<Longrightarrow> owed seen (init_heads schema trks st)"
  unfolding init_heads_def by (induction trks arbitrary: st) (auto simp: owed_write_head)

lemma owed_op: "owed seen st \<Longrightarrow> op_ok sp verify sg st op \<Longrightarrow> owed seen (apply_op sp verify sg st op)"
  by (cases op) (auto simp: op_ok_def apply_op_def Let_def write_event_def write_queue_def init_store_def
      owed_write_json event_in_layout queue_in_layout owed_append owed_rebuild owed_media owed_init_heads
      manifest_in_layout split: option.splits)

lemma owed_run: "run_ops sp verify sg st ops = Some st' \<Longrightarrow> owed seen st \<Longrightarrow> owed seen st'"
  by (induction ops arbitrary: st) (auto simp: owed_op split: if_splits)

lemma push_owed:
  assumes "mirrors h reads" and "owed (reads r) st" and "push h (disk st) msg (fst (drain_touched st)) r = Inr (oid, r')"
  shows "reads r' p = (if in_layout p then read_file (disk st) p else reads r p)"
proof -
  let ?ps = "filter (\<lambda>f. read_file (disk st) f \<noteq> None) (sort (remdups (sort (touched st))))"
  have ops: "push_ops (disk st) (fst (drain_touched st)) = map (add_of (disk st)) ?ps"
    by (simp add: push_ops_def drain_touched_def)
  have ps: "set ?ps = set (touched st)" using assms(2) by (auto simp: owed_def)
  have all: "\<forall>p \<in> set ?ps. read_file (disk st) p \<noteq> None" by simp
  have "reads r' = committed_at (map (add_of (disk st)) ?ps) (reads r)"
  proof (cases "?ps = []")
    case True
    with assms(3) ops show ?thesis by (simp add: push_def committed_at_alt fun_eq_iff)
  next
    case False
    with assms(3) ops obtain o' where "hub_commit h msg (map (add_of (disk st)) ?ps) r = Inr (o', r')"
      by (auto simp: push_def bindE_Inr_iff)
    moreover have "distinct (map op_path (map (add_of (disk st)) ?ps))" by (simp add: comp_def)
    ultimately show ?thesis using assms(1) unfolding mirrors_def by metis
  qed
  then have "reads r' p = (if p \<in> set (touched st) then read_file (disk st) p else reads r p)"
    using committed_adds [OF all, of "reads r" p] unfolding ps by simp
  with assms(2) show ?thesis by (auto simp: owed_def)
qed


definition sample_event :: json where
  "sample_event = jset sample_record ''event_id'' (JStr ''abcdef01'')"

definition sample_ops :: "store_op list" where
  "sample_ops = [Put_Event ''fa'' sample_event, Append ''fa'' sample_event, Put_Queue ''fa'' (JObj [])]"


end
