(* ===== verification/Refusal.thy ===== *)
theory Refusal
  imports Py Jsonl
begin

text \<open>
  \<open>submissions/errors.py\<close>: the two ways a submission fails to run. A rejection is the entry's own
  doing and names the step it failed at; the other is the harness's and judges nobody. The words
  of each are a constructor per message, holding what the message quotes. \<open>Escapes\<close> is an
  exception of neither class, which the callers let through. A step of the harness takes and
  returns the state of what it talks to (the Docker daemon, a cache), failed or not.
\<close>

text \<open>\<open>DockerError\<close> and its subclasses are the harness's; \<open>Docker_Raises\<close> is an exception of none of
  them.\<close>

datatype docker_error = Docker_Error string | Docker_Timeout string | Build_Failed string string
  | Build_Timed_Out string | Docker_Raises string

text \<open>A value of YAML's safe loader, and what \<open>icil_policy.manifest\<close> says of a manifest it refuses.\<close>

datatype yaml =
    YNull
  | YBool bool
  | YInt int
  | YFloat rat
  | YStr string
  | YList "yaml list"
  | YMap "(yaml \<times> yaml) list"
  | YOther string

datatype problem =
    Cannot_Read
  | Too_Large
  | Not_Yaml string
  | Not_A_Mapping
  | Unknown_Keys "yaml list"
  | Api_Required
  | Api_Wrong yaml
  | Policy_Required
  | Policy_Wrong yaml
  | Kwargs_Not_A_Mapping
  | Kwargs_Keys "yaml list"
  | Requirements_Not_A_Path
  | Requirements_Nul
  | Requirements_Not_Relative
  | Requirements_Leave
  | Requirements_Not_A_File
  | Requirements_Unresolved
  | Benchmarks_Wrong yaml

datatype reason =
    Bad_Repo
  | No_Revision
  | Under_Refs
  | Not_Held
  | Repo_Missing string
  | Revision_Missing string
  | No_Commit_Sha json
  | Another_Commit string
  | Too_Slow
  | Hub_Failed string
  | Hub_Unreachable string
  | Unsized "string list"
  | Declares_Over int
  | On_Disk_Over nat
  | Download_Failed string
  | Not_Inside
  | Not_There
  | Not_Readable
  | Through_Link string
  | Not_A_File
  | Manifest_Problems "problem list"
  | Api_Not int
  | User_Not_Numeric string
  | No_Base_Digest
  | Bad_Base_Digest string
  | Base_Not_Here string
  | Base_Not_Tagged string
  | Not_Built "string option" "string option"
  | Index_Unreachable "string option" "string option" string
  | Docker_Says docker_error
  | Not_Owned
  | Not_Mounted
  | Exited "int option" string string
  | Never_Listened string
  | No_Hello string

datatype refusal = Rejected string reason | Harness reason | Escapes string

section \<open>Steps\<close>

type_synonym ('s, 'a) step = "'s \<Rightarrow> (refusal + 'a) \<times> 's"

definition done_with :: "'a \<Rightarrow> ('s, 'a) step" where
  "done_with x s = (Inr x, s)"

definition refuse :: "refusal \<Rightarrow> ('s, 'a) step" where
  "refuse e s = (Inl e, s)"

definition next_step :: "('s, 'a) step \<Rightarrow> ('a \<Rightarrow> ('s, 'b) step) \<Rightarrow> ('s, 'b) step" where
  "next_step m f s = (case m s of (Inl e, s') \<Rightarrow> (Inl e, s') | (Inr x, s') \<Rightarrow> f x s')"

definition lift :: "refusal + 'a \<Rightarrow> ('s, 'a) step" where
  "lift r s = (r, s)"

lemma next_step_Inr:
  "next_step m f s = (Inr y, s'') \<longleftrightarrow> (\<exists>x s'. m s = (Inr x, s') \<and> f x s' = (Inr y, s''))"
  by (auto simp: next_step_def split: prod.splits sum.splits)

lemma next_step_Inl:
  "next_step m f s = (Inl e, s'') \<longleftrightarrow> m s = (Inl e, s'') \<or> (\<exists>x s'. m s = (Inr x, s') \<and> f x s' = (Inl e, s''))"
  by (auto simp: next_step_def split: prod.splits sum.splits)

lemma step_simps [simp]:
  "done_with x s = (Inr x, s)" "refuse e s = (Inl e, s)" "lift r s = (r, s)"
  by (simp_all add: done_with_def refuse_def lift_def)

section \<open>Numbers and words\<close>

text \<open>\<open>int(v)\<close> of a number; of a text only where it is a plain numeral. \<open>None\<close> is the raise.\<close>

definition py_int :: "json \<Rightarrow> int option" where
  "py_int v = (case v of
       JInt i \<Rightarrow> Some i
     | JBool b \<Rightarrow> Some (if b then 1 else 0)
     | JFloat q \<Rightarrow> Some (if q < 0 then - \<lfloor>- q\<rfloor> else \<lfloor>q\<rfloor>)
     | JStr s \<Rightarrow> (let t = strip s; sign = t \<noteq> [] \<and> hd t \<in> {CHR ''-'', CHR ''+''}; ds = (if sign then tl t else t)
         in if ds \<noteq> [] \<and> list_all ascii_digit ds
            then Some (if sign \<and> hd t = CHR ''-'' then - int (nat_of_digits ds) else int (nat_of_digits ds)) else None)
     | _ \<Rightarrow> None)"

text \<open>\<open>str.split()\<close>: the words between runs of white space.\<close>

fun words_of :: "string \<Rightarrow> string \<Rightarrow> string list" where
  "words_of acc [] = (if acc = [] then [] else [rev acc])"
| "words_of acc (c # cs) =
     (if py_space c then (if acc = [] then words_of [] cs else rev acc # words_of [] cs)
      else words_of (c # acc) cs)"

definition split_words :: "string \<Rightarrow> string list" where
  "split_words s = words_of [] s"

text \<open>\<open>text.strip()[-limit:]\<close>.\<close>

definition tail_of :: "nat \<Rightarrow> string \<Rightarrow> string" where
  "tail_of limit text = (let t = strip text in drop (length t - limit) t)"

end
