(* ===== verification/Resolve.thy ===== *)
theory Resolve
  imports Ids Refusal
begin

text \<open>
  \<open>submissions/resolve.py\<close>: a name pinned to the commit it names, once.
  The Hub is an argument: what it answers about a repository, its refs and a history, each answer
  a value or the exception the client raised. A history is a lazy walk, so it is the sequence of
  commits up to where it ends or an exception ends it, and whether the clock has passed the
  deadline is asked after each.
\<close>

section \<open>What the Hub answers\<close>

text \<open>An exception of \<open>huggingface_hub\<close>: its kind, its class, \<open>str(exc)\<close> and \<open>server_message\<close>.\<close>

datatype hub_kind = Repository_Not_Found | Revision_Not_Found | Http_Error | Other_Error

record hub_error =
  x_kind :: hub_kind
  x_class :: string
  x_text :: string
  x_server :: json

record repo_info =
  i_sha :: json
  i_siblings :: "(json \<times> json) list option"

record hub_api =
  api_info :: "string \<Rightarrow> string \<Rightarrow> hub_error + repo_info"
  api_refs :: "string \<Rightarrow> hub_error + (string list \<times> string list)"
  api_commits :: "string \<Rightarrow> string \<Rightarrow> (hub_error + string) list"

text \<open>\<open>str.lower\<close> on the characters below 256.\<close>

definition lower_char :: "char \<Rightarrow> char" where
  "lower_char c = (if (65 \<le> code c \<and> code c \<le> 90) \<or> (192 \<le> code c \<and> code c \<le> 222 \<and> code c \<noteq> 215)
     then char_of (code c + 32) else c)"

definition lower :: "string \<Rightarrow> string" where
  "lower s = List.map lower_char s"

definition not_found :: "string \<Rightarrow> hub_error \<Rightarrow> string" where
  "not_found what exc =
     (case x_server exc of
        JStr message \<Rightarrow> if strip message \<noteq> [] \<and> lower (strip message) \<noteq> what
          then what @ '': '' @ strip message else what
      | _ \<Rightarrow> what)"

definition first_line :: "hub_error \<Rightarrow> string" where
  "first_line exc = (let tx = strip (x_text exc) in
     if tx = [] then x_class exc else hd (splitlines tx))"

definition hub_refusal :: "hub_error \<Rightarrow> refusal" where
  "hub_refusal exc =
     (case x_kind exc of
        Repository_Not_Found \<Rightarrow> Rejected ''resolve'' (Repo_Missing (not_found ''repository not found'' exc))
      | Revision_Not_Found \<Rightarrow> Rejected ''resolve'' (Revision_Missing (not_found ''revision not found'' exc))
      | Http_Error \<Rightarrow> Harness (Hub_Failed (first_line exc))
      | Other_Error \<Rightarrow> Harness (Hub_Unreachable (x_text exc)))"

definition asking_the_hub :: "hub_error + 'a \<Rightarrow> refusal + 'a" where
  "asking_the_hub answer = (case answer of Inl exc \<Rightarrow> Inl (hub_refusal exc) | Inr x \<Rightarrow> Inr x)"

section \<open>A resolved submission\<close>

record resolved =
  rs_repo :: string
  rs_revision :: string
  rs_sha :: string
  rs_files :: "(string \<times> int option) list"

definition ref_of :: "resolved \<Rightarrow> ref_error + submission_ref" where
  "ref_of r = resolved_ref (rs_repo r) (rs_sha r)"

definition declared_bytes :: "resolved \<Rightarrow> int" where
  "declared_bytes r = sum_list (List.map_filter snd (rs_files r))"

fun listed_file :: "json \<times> json \<Rightarrow> (string \<times> int option) option" where
  "listed_file (JStr path, JInt n) = Some (path, Some n)"
| "listed_file (JStr path, JBool b) = Some (path, Some (if b then 1 else 0))"
| "listed_file (JStr path, _) = Some (path, None)"
| "listed_file _ = None"

definition listed_files :: "(json \<times> json) list option \<Rightarrow> (string \<times> int option) list" where
  "listed_files siblings = (case siblings of None \<Rightarrow> [] | Some es \<Rightarrow> List.map_filter listed_file es)"

definition check_ref :: "string \<Rightarrow> string \<Rightarrow> refusal + unit" where
  "check_ref rp rv =
     (if \<not> is_repo rp then Inl (Rejected ''resolve'' Bad_Repo)
      else if rv = [] then Inl (Rejected ''resolve'' No_Revision)
      else Inr ())"

definition pinned :: "string \<Rightarrow> string \<Rightarrow> repo_info \<Rightarrow> refusal + resolved" where
  "pinned rp rv info =
     (case i_sha info of
        JStr sha \<Rightarrow>
          if \<not> is_commit_sha sha then Inl (Harness (No_Commit_Sha (i_sha info)))
          else if is_commit_sha rv \<and> sha \<noteq> rv then Inl (Harness (Another_Commit sha))
          else Inr \<lparr>rs_repo = rp, rs_revision = rv, rs_sha = sha, rs_files = listed_files (i_siblings info)\<rparr>
      | _ \<Rightarrow> Inl (Harness (No_Commit_Sha (i_sha info))))"

definition resolve :: "hub_api \<Rightarrow> string \<Rightarrow> string \<Rightarrow> refusal + resolved" where
  "resolve api rp rv =
     bindE (check_ref rp rv) (\<lambda>_.
     bindE (asking_the_hub (api_info api rp rv)) (pinned rp rv))"

section \<open>Reachability\<close>

text \<open>\<open>dict.fromkeys\<close>: the first of each, in order.\<close>

definition first_of_each :: "'a list \<Rightarrow> 'a list" where
  "first_of_each xs = rev (remdups (rev xs))"

text \<open>\<open>late n\<close>: whether the deadline has passed at the \<open>n\<close>th look at the clock. A walk answers whether
  the commit was found, and how many looks there have been.\<close>

fun walk_history :: "string \<Rightarrow> (nat \<Rightarrow> bool) \<Rightarrow> nat \<Rightarrow> (hub_error + string) list \<Rightarrow> refusal + (bool \<times> nat)" where
  "walk_history sha late n [] = Inr (False, n)"
| "walk_history sha late n (Inl exc # cs) = Inl (hub_refusal exc)"
| "walk_history sha late n (Inr c # cs) =
     (if c = sha then Inr (True, n)
      else if late n then Inl (Harness Too_Slow)
      else walk_history sha late (n + 1) cs)"

fun walk_tips :: "hub_api \<Rightarrow> string \<Rightarrow> string \<Rightarrow> (nat \<Rightarrow> bool) \<Rightarrow> nat \<Rightarrow> string list \<Rightarrow> refusal + unit" where
  "walk_tips api rp sha late n [] = Inl (Rejected ''resolve'' Not_Held)"
| "walk_tips api rp sha late n (tip # tips) =
     bindE (walk_history sha late n (api_commits api rp tip)) (\<lambda>(found, m).
       if found then Inr () else walk_tips api rp sha late m tips)"

definition check_reachable :: "hub_api \<Rightarrow> (nat \<Rightarrow> bool) \<Rightarrow> string \<Rightarrow> string \<Rightarrow> refusal + unit" where
  "check_reachable api late rp sha =
     bindE (asking_the_hub (api_refs api rp)) (\<lambda>(branches, tags).
     let tips = first_of_each (branches @ tags) in
     if sha \<in> set tips then Inr () else walk_tips api rp sha late 0 tips)"

definition resolve_for_queue :: "hub_api \<Rightarrow> (nat \<Rightarrow> bool) \<Rightarrow> string \<Rightarrow> string \<Rightarrow> refusal + resolved" where
  "resolve_for_queue api late rp rv =
     bindE (check_ref rp rv) (\<lambda>_.
     if startswith rv ''refs/'' then Inl (Rejected ''resolve'' Under_Refs)
     else bindE (resolve api rp rv) (\<lambda>res.
          bindE (check_reachable api late rp (rs_sha res)) (\<lambda>_. Inr res)))"

section \<open>What is queued\<close>

text \<open>A branch or a tag of the repository holds the commit, at its tip or in its history.\<close>

definition held :: "hub_api \<Rightarrow> string \<Rightarrow> string \<Rightarrow> bool" where
  "held api rp sha \<longleftrightarrow> (\<exists>branches tags. api_refs api rp = Inr (branches, tags) \<and>
     (\<exists>tip \<in> set (branches @ tags). tip = sha \<or> Inr sha \<in> set (api_commits api rp tip)))"

lemma set_first_of_each [simp]: "set (first_of_each xs) = set xs"
  by (simp add: first_of_each_def)

lemma walk_history_found: "walk_history sha late n cs = Inr (True, m) \<Longrightarrow> Inr sha \<in> set cs"
  by (induction sha late n cs rule: walk_history.induct) (auto split: if_splits)

lemma walk_history_missed: "walk_history sha late n cs = Inr (False, m) \<Longrightarrow> Inr sha \<notin> set cs"
  by (induction sha late n cs rule: walk_history.induct) (auto split: if_splits)

lemma walk_history_no_rejection:
  "walk_history sha late n cs = Inl (Rejected s why) \<Longrightarrow> why \<noteq> Not_Held"
  by (induction sha late n cs rule: walk_history.induct)
    (auto simp: hub_refusal_def split: if_splits hub_kind.splits)

lemma walk_tips_found:
  "walk_tips api rp sha late n tips = Inr () \<Longrightarrow> \<exists>tip \<in> set tips. Inr sha \<in> set (api_commits api rp tip)"
  by (induction api rp sha late n tips rule: walk_tips.induct)
    (auto simp: bindE_Inr_iff dest: walk_history_found split: if_splits)

lemma walk_tips_missed:
  "walk_tips api rp sha late n tips = Inl (Rejected s Not_Held) \<Longrightarrow> tip \<in> set tips \<Longrightarrow> Inr sha \<notin> set (api_commits api rp tip)"
  by (induction api rp sha late n tips rule: walk_tips.induct)
    (auto simp: bindE_Inl_iff dest: walk_history_missed walk_history_no_rejection split: if_splits)

lemma asking_Inr: "asking_the_hub a = Inr x \<longleftrightarrow> a = Inr x"
  by (cases a) (auto simp: asking_the_hub_def)

lemma asking_Inl: "asking_the_hub a = Inl (Rejected s why) \<Longrightarrow> why \<noteq> Not_Held"
  by (cases a) (auto simp: asking_the_hub_def hub_refusal_def split: hub_kind.splits)

lemma reachable_held:
  assumes "check_reachable api late rp sha = Inr ()" shows "held api rp sha"
proof -
  from assms obtain bs ts where refs: "api_refs api rp = Inr (bs, ts)"
    and or: "sha \<in> set (bs @ ts) \<or> walk_tips api rp sha late 0 (first_of_each (bs @ ts)) = Inr ()"
    by (auto simp: check_reachable_def bindE_Inr_iff asking_Inr Let_def split: if_splits)
  from or walk_tips_found [of api rp sha late 0 "first_of_each (bs @ ts)"] refs show ?thesis
    by (auto simp: held_def)
qed

lemma unreachable_not_held: "check_reachable api late rp sha = Inl (Rejected s Not_Held) \<Longrightarrow> \<not> held api rp sha"
  by (auto simp: check_reachable_def held_def bindE_Inl_iff asking_Inr Let_def dest: walk_tips_missed asking_Inl split: if_splits)

lemma pinned_Inr:
  "pinned rp rv info = Inr res \<Longrightarrow> rs_repo res = rp \<and> is_commit_sha (rs_sha res)
     \<and> (is_commit_sha rv \<longrightarrow> rs_sha res = rv) \<and> i_sha info = JStr (rs_sha res)"
  by (cases "i_sha info") (auto simp: pinned_def split: if_splits)

lemma pinned_not_held: "pinned rp rv info = Inl (Rejected s why) \<Longrightarrow> False"
  by (cases "i_sha info") (auto simp: pinned_def split: if_splits)

lemma resolve_Inr:
  assumes "resolve api rp rv = Inr res"
  shows "is_repo rp \<and> rv \<noteq> [] \<and> rs_repo res = rp \<and> is_commit_sha (rs_sha res) \<and> (is_commit_sha rv \<longrightarrow> rs_sha res = rv)
    \<and> (\<exists>info. api_info api rp rv = Inr info \<and> i_sha info = JStr (rs_sha res))"
proof -
  from assms obtain info where "check_ref rp rv = Inr ()" "api_info api rp rv = Inr info" "pinned rp rv info = Inr res"
    by (auto simp: resolve_def bindE_Inr_iff asking_Inr)
  with pinned_Inr [of rp rv info res] show ?thesis by (auto simp: check_ref_def split: if_splits)
qed

lemma resolve_not_held: "resolve api rp rv = Inl (Rejected s why) \<Longrightarrow> why \<noteq> Not_Held"
  by (auto simp: resolve_def check_ref_def bindE_Inl_iff dest: asking_Inl pinned_not_held split: if_splits)

text \<open>C6. What is queued is pinned to a commit the repository's owner published: the answer names a
  40-character sha, the one asked for when a sha was asked for and the Hub's own answer for the
  name otherwise, which a branch or a tag holds, never a name under \<open>refs/\<close>, and it makes a
  reference the queue takes. A submission is refused as held by no branch or tag only when the
  Hub's refs and histories, walked to their ends, do not hold it.\<close>

theorem queued_commit_is_owners:
  "case resolve_for_queue api late rp rv of
     Inr res \<Rightarrow> is_commit_sha (rs_sha res) \<and> (is_commit_sha rv \<longrightarrow> rs_sha res = rv)
       \<and> (\<exists>info. api_info api rp rv = Inr info \<and> i_sha info = JStr (rs_sha res))
       \<and> held api rp (rs_sha res) \<and> \<not> startswith rv ''refs/''
       \<and> ref_of res = Inr (make_ref rp (rs_sha res))
   | Inl (Rejected s Not_Held) \<Rightarrow> (\<exists>res. resolve api rp rv = Inr res \<and> \<not> held api rp (rs_sha res))
   | Inl _ \<Rightarrow> True"
proof (cases "resolve_for_queue api late rp rv")
  case (Inr res)
  then have res: "resolve api rp rv = Inr res" and reach: "check_reachable api late rp (rs_sha res) = Inr ()"
    and "\<not> startswith rv ''refs/''"
    by (auto simp: resolve_for_queue_def bindE_Inr_iff split: if_splits)
  with resolve_Inr [OF res] reachable_held [OF reach] Inr show ?thesis
    by (simp add: ref_of_def resolved_ref_def)
next
  case (Inl e)
  have "\<exists>res. resolve api rp rv = Inr res \<and> \<not> held api rp (rs_sha res)" if "e = Rejected s Not_Held" for s
    using Inl that
    by (auto simp: resolve_for_queue_def bindE_Inl_iff check_ref_def dest: resolve_not_held unreachable_not_held split: if_splits)
  with Inl show ?thesis by (auto split: refusal.splits reason.splits)
qed

definition owned_api :: hub_api where
  "owned_api = \<lparr>api_info = (\<lambda>_ _. Inr \<lparr>i_sha = JStr (replicate 40 CHR ''a''), i_siblings = Some []\<rparr>),
     api_refs = (\<lambda>_. Inr ([replicate 40 CHR ''b''], [])),
     api_commits = (\<lambda>_ _. [Inr (replicate 40 CHR ''b''), Inr (replicate 40 CHR ''a'')])\<rparr>"

theorem queued_commit_is_owners_witness:
  "\<exists>res. resolve_for_queue owned_api (\<lambda>_. False) ''o/n'' (replicate 40 CHR ''a'') = Inr res
     \<and> rs_sha res = replicate 40 CHR ''a'' \<and> held owned_api ''o/n'' (rs_sha res)"
proof -
  have ok: "is_repo ''o/n''" "is_commit_sha (replicate 40 CHR ''a'')" "replicate 40 CHR ''a'' \<noteq> replicate 40 CHR ''b''"
    "replicate 40 CHR ''a'' \<noteq> []" "\<not> startswith (replicate 40 CHR ''a'') ''refs/''"
    by code_simp+
  then have "\<exists>res. resolve_for_queue owned_api (\<lambda>_. False) ''o/n'' (replicate 40 CHR ''a'') = Inr res"
    by (simp add: resolve_for_queue_def resolve_def check_ref_def owned_api_def asking_the_hub_def pinned_def
        check_reachable_def first_of_each_def del: replicate.simps replicate_Suc)
  with queued_commit_is_owners [where api = owned_api and late = "\<lambda>_. False" and rp = "''o/n''" and rv = "replicate 40 CHR ''a''"] ok show ?thesis
    by (auto simp del: replicate.simps replicate_Suc)
qed

end
