(* ===== verification/Docker.thy ===== *)
theory Docker
  imports Refusal Outcome Store
begin

text \<open>
  \<open>submissions/docker.py\<close>: the \<open>docker\<close> command line, every call through one place. The engine is an
  argument: what a command with its input answers and does to the daemon, and what a build left in
  its \<open>--iidfile\<close>. An answer is what \<open>subprocess.run\<close> makes of it: the binary is missing, the
  time is up, or a status with what was printed.
\<close>

section \<open>The client\<close>

definition DOCKER_ENV :: "string list" where
  "DOCKER_ENV = [''DOCKER_HOST'', ''DOCKER_CONFIG'', ''DOCKER_CONTEXT'', ''DOCKER_CERT_PATH'', ''DOCKER_TLS_VERIFY'',
     ''DOCKER_API_VERSION'', ''DOCKER_BUILDKIT'']"

definition TAIL_CHARS :: nat where "TAIL_CHARS = 2000"

definition CONTAINER_LABEL :: string where
  "CONTAINER_LABEL = ''icil.orchestrator=policy''"

definition docker_environment :: "environ \<Rightarrow> environ" where
  "docker_environment source = benchmark_environment source [] DOCKER_ENV"

datatype answer = Missing | Timed_Out | Ended int string string

record 'd engine =
  en_binary :: string
  en_cli :: "environ \<Rightarrow> string list \<Rightarrow> string option \<Rightarrow> 'd \<Rightarrow> answer \<times> 'd"
  en_environ :: environ
  en_iid_path :: string
  en_iid_text :: "'d \<Rightarrow> string option"

type_synonym ('d, 'a) call = "'d \<Rightarrow> (docker_error + 'a) \<times> 'd"

definition and_call :: "('d, 'a) call \<Rightarrow> ('a \<Rightarrow> ('d, 'b) call) \<Rightarrow> ('d, 'b) call" where
  "and_call m f d = (case m d of (Inl e, d') \<Rightarrow> (Inl e, d') | (Inr x, d') \<Rightarrow> f x d')"

definition docker_cli :: "'d engine \<Rightarrow> string list \<Rightarrow> string option \<Rightarrow> environ \<Rightarrow> bool \<Rightarrow> ('d, int \<times> string \<times> string) call" where
  "docker_cli en args input extra check d =
     (case en_cli en (foldl (\<lambda>m kv. upd (fst kv) (snd kv) m) (en_environ en) extra) (en_binary en # args) input d of
        (Missing, d') \<Rightarrow> (Inl (Docker_Error (en_binary en @ '' is not installed or not on PATH'')), d')
      | (Timed_Out, d') \<Rightarrow> (Inl (Docker_Timeout (hd args)), d')
      | (Ended status out er, d') \<Rightarrow>
          if check \<and> status \<noteq> 0
          then (Inl (Docker_Error (''docker '' @ join '' '' (take 2 args) @ '' failed ('' @ str_of_int status @ ''): '' @ tail_of TAIL_CHARS er)), d')
          else (Inr (status, out, er), d'))"

text \<open>A command with no input and no variables of its own, checked and try_docker.\<close>

definition ask_docker :: "'d engine \<Rightarrow> string list \<Rightarrow> ('d, int \<times> string \<times> string) call" where
  "ask_docker en args = docker_cli en args None [] True"

definition try_docker :: "'d engine \<Rightarrow> string list \<Rightarrow> ('d, int \<times> string \<times> string) call" where
  "try_docker en args = docker_cli en args None [] False"

section \<open>Images\<close>

definition image_id :: "'d engine \<Rightarrow> string \<Rightarrow> ('d, string option) call" where
  "image_id en ref = and_call (try_docker en [''image'', ''inspect'', ''--format'', ''{{.Id}}'', ref])
     (\<lambda>(status, out, er) d. (Inr (if status = 0 then Some (strip out) else None), d))"

definition listed_image :: "string \<Rightarrow> string \<Rightarrow> string option" where
  "listed_image wanted line = (let (found, _, ref) = partition_at TAB line in
     if strip found = wanted then Some (strip ref) else None)"

definition find_image :: "'d engine \<Rightarrow> string \<Rightarrow> ('d, string option) call" where
  "find_image en wanted =
     and_call (ask_docker en [''images'', ''--no-trunc'', ''--format'', ''{{.ID}}'' @ [TAB] @ ''{{.Repository}}:{{.Tag}}''])
     (\<lambda>(status, out, er) d. (Inr (first_some (listed_image wanted) (splitlines out)), d))"

definition build_argv :: "'d engine \<Rightarrow> string \<Rightarrow> string \<Rightarrow> (string \<times> string) list \<Rightarrow> bool \<Rightarrow> string list" where
  "build_argv en ctxt tag build_args no_cache =
     [''build'', ''--tag'', tag, ''--file'', ''-''] @ (if no_cache then [''--no-cache''] else [])
       @ concat (map (\<lambda>(k, v). [''--build-arg'', k @ ''='' @ v]) build_args)
       @ [''--iidfile'', en_iid_path en, ctxt]"

definition build_id :: "'d engine \<Rightarrow> string \<Rightarrow> ('d, string) call" where
  "build_id en tag d =
     (let iid = (case en_iid_text en d of None \<Rightarrow> [] | Some tx \<Rightarrow> strip tx) in
      if iid \<noteq> [] then (Inr iid, d)
      else and_call (image_id en tag) (\<lambda>found d'.
        if found = None \<or> found = Some []
        then (Inl (Docker_Error (''docker build reported success but '' @ tag @ '' has no image id'')), d')
        else (Inr (the found), d')) d)"

definition build :: "'d engine \<Rightarrow> string \<Rightarrow> string \<Rightarrow> string \<Rightarrow> (string \<times> string) list \<Rightarrow> bool \<Rightarrow> ('d, string) call" where
  "build en ctxt dockerfile tag build_args no_cache d =
     (case docker_cli en (build_argv en ctxt tag build_args no_cache) (Some dockerfile) [] False d of
        (Inl (Docker_Timeout c), d') \<Rightarrow> (Inl (Build_Timed_Out tag), d')
      | (Inl e, d') \<Rightarrow> (Inl e, d')
      | (Inr (status, out, er), d') \<Rightarrow>
          if status \<noteq> 0 then (Inl (Build_Failed tag (tail_of TAIL_CHARS (er @ out))), d') else build_id en tag d')"

definition tag_image :: "'d engine \<Rightarrow> string \<Rightarrow> string \<Rightarrow> ('d, unit) call" where
  "tag_image en what ref = and_call (ask_docker en [''tag'', what, ref]) (\<lambda>_ d. (Inr (), d))"

definition image_refs :: "'d engine \<Rightarrow> string \<Rightarrow> ('d, string list) call" where
  "image_refs en repository =
     and_call (ask_docker en [''images'', ''--format'', ''{{.Repository}}:{{.Tag}}'', repository])
     (\<lambda>(status, out, er) d. (Inr (filter (\<lambda>ref. startswith ref (repository @ '':'') \<and> ref \<noteq> repository @ '':<none>'')
        (map strip (splitlines out))), d))"

definition remove_image :: "'d engine \<Rightarrow> string \<Rightarrow> bool \<Rightarrow> ('d, string) call" where
  "remove_image en ref force = and_call (try_docker en ([''rmi''] @ (if force then [''--force''] else []) @ [ref]))
     (\<lambda>(status, out, er) d. (Inr (if status = 0 then []
        else if tail_of 300 er \<noteq> [] then tail_of 300 er else ''exit '' @ str_of_int status), d))"

section \<open>Containers\<close>

record container_state =
  cs_running :: bool
  cs_exit :: "int option"
  cs_error :: string
  cs_oom :: bool

record container_info =
  ci_name :: string
  ci_running :: bool
  ci_labels :: "(string \<times> string) list"

definition docker_run :: "'d engine \<Rightarrow> string list \<Rightarrow> environ \<Rightarrow> ('d, string) call" where
  "docker_run en args extra = and_call (docker_cli en (''run'' # args) None extra True) (\<lambda>(status, out, er) d. (Inr (strip out), d))"

definition state_of_text :: "string \<Rightarrow> docker_error + container_state" where
  "state_of_text text =
     (let (running, _, rest) = partition_at CHR '' '' (strip text);
          (oom, _, rest') = partition_at CHR '' '' rest;
          (exit_code, _, er) = partition_at CHR '' '' rest' in
      if py_isdigit exit_code \<and> int_of_isdigit exit_code = None then Inl (Docker_Raises ''ValueError'')
      else Inr \<lparr>cs_running = (running = ''true''),
        cs_exit = (if py_isdigit exit_code then map_option int (int_of_isdigit exit_code) else None),
        cs_error = er, cs_oom = (oom = ''true'')\<rparr>)"

definition inspect_state :: "'d engine \<Rightarrow> string \<Rightarrow> ('d, container_state) call" where
  "inspect_state en name = and_call (try_docker en [''inspect'', ''--type'', ''container'', ''--format'',
       ''{{.State.Running}} {{.State.OOMKilled}} {{.State.ExitCode}} {{.State.Error}}'', name])
     (\<lambda>(status, out, er) d.
        if status \<noteq> 0 then (Inr \<lparr>cs_running = False, cs_exit = None,
          cs_error = ''no such container: '' @ tail_of 200 er, cs_oom = False\<rparr>, d)
        else (state_of_text out, d))"

text \<open>One line of \<open>docker inspect\<close>; a line that is no document is skipped, one that is no object raises.\<close>

definition container_row :: "json \<Rightarrow> docker_error + container_info" where
  "container_row row =
     (let labels = or_empty (jget row ''labels'') in
      if \<not> is_obj row \<or> \<not> is_obj labels then Inl (Docker_Raises ''AttributeError'')
      else Inr \<lparr>ci_name = dropWhile (\<lambda>c. c = CHR ''/'') (py_str (jget_or row ''name'' (JStr []))),
        ci_running = (jget row ''running'' = JBool True),
        ci_labels = map (\<lambda>(k, v). (k, py_str v)) (jitems labels)\<rparr>)"

definition CONTAINER_TEMPLATE :: string where
  "CONTAINER_TEMPLATE = ''{'' @ [CHR 0x22] @ ''name'' @ [CHR 0x22] @ '': {{json .Name}}, '' @ [CHR 0x22] @ ''running'' @ [CHR 0x22]
     @ '': {{json .State.Running}}, '' @ [CHR 0x22] @ ''labels'' @ [CHR 0x22] @ '': {{json .Config.Labels}}}''"

definition policy_containers :: "'d engine \<Rightarrow> ('d, container_info list) call" where
  "policy_containers en =
     and_call (ask_docker en [''ps'', ''--all'', ''--quiet'', ''--no-trunc'', ''--filter'', ''label='' @ CONTAINER_LABEL]) (\<lambda>(_, listed, _).
     let names = split_words listed in
     if names = [] then (\<lambda>d. (Inr [], d))
     else and_call (try_docker en ([''inspect'', ''--type'', ''container'', ''--format'',
            CONTAINER_TEMPLATE] @ names)) (\<lambda>(_, out, _) d.
          (mapE container_row (List.map_filter loads (splitlines out)), d)))"

definition container_logs :: "'d engine \<Rightarrow> string \<Rightarrow> nat \<Rightarrow> ('d, string) call" where
  "container_logs en name lines = and_call (try_docker en [''logs'', ''--tail'', str_of_nat lines, name])
     (\<lambda>(status, out, er) d. (Inr (strip (out @ er)), d))"

definition container_exec :: "'d engine \<Rightarrow> string \<Rightarrow> string list \<Rightarrow> ('d, int \<times> string \<times> string) call" where
  "container_exec en name argv = try_docker en ([''exec'', name] @ argv)"

text \<open>\<open>docker rm --force\<close>, which raises no \<open>DockerError\<close>.\<close>

definition remove_container :: "'d engine \<Rightarrow> string \<Rightarrow> 'd \<Rightarrow> 'd" where
  "remove_container en name d = snd (try_docker en [''rm'', ''--force'', name] d)"

text \<open>A call made inside a step of the harness.\<close>

definition by_docker :: "('d, 'a) call \<Rightarrow> ('d, 'a) step" where
  "by_docker m d = (case m d of
       (Inl (Docker_Raises why), d') \<Rightarrow> (Inl (Escapes why), d')
     | (Inl e, d') \<Rightarrow> (Inl (Harness (Docker_Says e)), d')
     | (Inr x, d') \<Rightarrow> (Inr x, d'))"

lemma and_call_Inr: "and_call m f d = (Inr y, d'') \<longleftrightarrow> (\<exists>x d'. m d = (Inr x, d') \<and> f x d' = (Inr y, d''))"
  by (auto simp: and_call_def split: prod.splits sum.splits)

lemma by_docker_Inr: "by_docker m d = (Inr x, d') \<longleftrightarrow> m d = (Inr x, d')"
  by (auto simp: by_docker_def split: prod.splits sum.splits docker_error.splits)

lemma by_docker_Inl: "by_docker m d = (Inl e, d') \<Longrightarrow> \<exists>x. e = Escapes x \<or> (\<exists>y. e = Harness (Docker_Says y))"
  by (auto simp: by_docker_def split: prod.splits sum.splits docker_error.splits)

text \<open>Nothing the orchestrator holds reaches the client: its variables are the benchmarks' and
  Docker's own.\<close>

lemma docker_environment_allowed:
  "kv \<in> set (docker_environment source) \<Longrightarrow> kv \<in> set source \<and>
     (fst kv \<in> set ENV_ALLOW \<or> fst kv = [] \<or> fst kv \<in> set DOCKER_ENV \<or> list_ex (startswith (fst kv)) ENV_ALLOW_PREFIXES)"
  by (auto simp: docker_environment_def benchmark_environment_def)

end
