(* ===== verification/Image.thy ===== *)
theory Image
  imports Docker
begin

text \<open>
  \<open>submissions/image.py\<close>: the pinned base image, a submission's own image built from it, and whose
  failure a failed build is. The Docker engine is the one of \<open>Docker\<close>; the random part of a tag
  and the paths of temporary directories are arguments, and how long a build took is not kept.
\<close>

definition BASE_DOCKERFILE :: string where "BASE_DOCKERFILE = ''docker/policy-base/Dockerfile''"
definition SUBMISSION_DIR :: string where "SUBMISSION_DIR = ''/submission''"
definition SUBMISSION_IMAGE :: string where "SUBMISSION_IMAGE = ''icil-submission''"
definition UID_ARG :: string where "UID_ARG = ''POLICY_UID''"
definition GID_ARG :: string where "GID_ARG = ''POLICY_GID''"
definition INDEX_PROBE_IMAGE :: string where "INDEX_PROBE_IMAGE = ''icil-index-probe''"
definition INDEX_PROBE_REQUIREMENT :: string where "INDEX_PROBE_REQUIREMENT = ''pip''"
definition INDEX_PROBE_TAIL_CHARS :: nat where "INDEX_PROBE_TAIL_CHARS = 500"

record base_image =
  b_name :: string
  b_digest :: string

record built_image =
  bi_tag :: string
  bi_id :: string
  bi_base :: base_image

record index_probe =
  p_reachable :: bool
  p_detail :: string

section \<open>The contract's submission section\<close>

text \<open>\<open>spec.submission["sandbox"][k]\<close> and its kin; a missing key raises.\<close>

definition submission_key_of :: "contract \<Rightarrow> string \<Rightarrow> refusal + json" where
  "submission_key_of sp k = (case key_of (spec_section sp ''submission'') k of
     None \<Rightarrow> Inl (Escapes ''KeyError'') | Some v \<Rightarrow> Inr v)"

definition sandbox_key :: "contract \<Rightarrow> string \<Rightarrow> refusal + json" where
  "sandbox_key sp k = bindE (submission_key_of sp ''sandbox'') (\<lambda>sandbox.
     case key_of sandbox k of None \<Rightarrow> Inl (Escapes ''KeyError'') | Some v \<Rightarrow> Inr v)"

definition int_or_raise :: "string \<Rightarrow> refusal + nat" where
  "int_or_raise s = (case int_of_isdigit s of None \<Rightarrow> Inl (Escapes ''ValueError'') | Some n \<Rightarrow> Inr n)"

definition sandbox_user :: "contract \<Rightarrow> refusal + (nat \<times> nat)" where
  "sandbox_user sp = bindE (sandbox_key sp ''user'') (\<lambda>v.
     let user = py_str v; (uid, _, gid) = partition_at CHR '':'' user in
     if \<not> py_isdigit uid \<or> (gid \<noteq> [] \<and> \<not> py_isdigit gid) then Inl (Harness (User_Not_Numeric user))
     else bindE (int_or_raise uid) (\<lambda>u. bindE (if gid \<noteq> [] then int_or_raise gid else Inr u) (\<lambda>g. Inr (u, g))))"

definition base_image_of :: "contract \<Rightarrow> string option \<Rightarrow> refusal + base_image" where
  "base_image_of sp digest = bindE (submission_key_of sp ''base_image'') (\<lambda>image.
     let chosen = (case digest of Some d \<Rightarrow> if d \<noteq> [] then JStr d else jget image ''digest'' | None \<Rightarrow> jget image ''digest'') in
     if \<not> truthy chosen then Inl (Harness No_Base_Digest)
     else case chosen of
       JStr d \<Rightarrow>
         if \<not> rx_match_dollar IMAGE_DIGEST_RE d then Inl (Harness (Bad_Base_Digest d))
         else (case key_of image ''name'' of None \<Rightarrow> Inl (Escapes ''KeyError'')
               | Some n \<Rightarrow> Inr \<lparr>b_name = py_str n, b_digest = d\<rparr>)
     | _ \<Rightarrow> Inl (Escapes ''TypeError''))"

definition base_tag :: "base_image \<Rightarrow> string" where
  "base_tag b = b_name b @ '':'' @ snd (snd (partition_at CHR '':'' (b_digest b)))"

section \<open>The base\<close>

definition build_base_image :: "'d engine \<Rightarrow> contract \<Rightarrow> string \<Rightarrow> string option \<Rightarrow> ('d, built_image) step" where
  "build_base_image en sp repo_root dockerfile =
     (case dockerfile of None \<Rightarrow> refuse (Harness Not_Readable)
      | Some text \<Rightarrow>
        next_step (lift (bindE (submission_key_of sp ''base_image'') (\<lambda>image.
          case key_of image ''name'' of None \<Rightarrow> Inl (Escapes ''KeyError'') | Some n \<Rightarrow> Inr (py_str n)))) (\<lambda>name.
        next_step (lift (sandbox_user sp)) (\<lambda>(u, g).
        next_step (by_docker (build en repo_root text (name @ '':latest'')
            [(UID_ARG, str_of_nat u), (GID_ARG, str_of_nat g)] False)) (\<lambda>ident.
        let base = \<lparr>b_name = name, b_digest = ident\<rparr> in
        next_step (by_docker (tag_image en ident (base_tag base))) (\<lambda>_.
        done_with \<lparr>bi_tag = base_tag base, bi_id = ident, bi_base = base\<rparr>)))))"

definition ensure_base :: "'d engine \<Rightarrow> base_image \<Rightarrow> ('d, string) step" where
  "ensure_base en base =
     next_step (by_docker (image_id en (base_tag base))) (\<lambda>ident.
     if ident = Some (b_digest base) then done_with (base_tag base)
     else next_step (by_docker (find_image en (b_digest base))) (\<lambda>found.
       if found = None then refuse (Harness (Base_Not_Here (b_digest base)))
       else next_step (by_docker (tag_image en (b_digest base) (base_tag base))) (\<lambda>_.
         next_step (by_docker (image_id en (base_tag base))) (\<lambda>ident.
           if ident \<noteq> Some (b_digest base) then refuse (Harness (Base_Not_Tagged (b_digest base)))
           else done_with (base_tag base)))))"

section \<open>A submission's image\<close>

definition submission_tag :: "submission_ref \<Rightarrow> string" where
  "submission_tag r = SUBMISSION_IMAGE @ '':'' @ key r @ ''-'' @ revision r"

definition index_probe_dockerfile :: "base_image \<Rightarrow> string" where
  "index_probe_dockerfile base =
     ''# the orchestrator'' @ [CHR 0x27] @ ''s index probe, from '' @ b_digest base @ [NL]
     @ ''FROM '' @ base_tag base @ [NL]
     @ ''RUN python -m pip download --no-deps --only-binary :all: --no-cache-dir --dest /tmp/icil-index-probe ''
     @ INDEX_PROBE_REQUIREMENT @ '' && rm -rf /tmp/icil-index-probe'' @ [NL]"

definition probe_tag :: "string \<Rightarrow> string" where
  "probe_tag token = INDEX_PROBE_IMAGE @ '':'' @ token"

definition probe_answer :: "'d engine \<Rightarrow> string \<Rightarrow> docker_error + string \<Rightarrow> ('d, index_probe) step" where
  "probe_answer en token built =
     (case built of
       Inl (Build_Failed t said) \<Rightarrow>
         done_with \<lparr>p_reachable = False, p_detail = drop (length said - INDEX_PROBE_TAIL_CHARS) said\<rparr>
     | Inl (Build_Timed_Out t) \<Rightarrow>
         done_with \<lparr>p_reachable = False, p_detail = ''pip download '' @ INDEX_PROBE_REQUIREMENT @ '' did not finish in 180s''\<rparr>
     | Inl e \<Rightarrow> by_docker (\<lambda>d. (Inl e, d))
     | Inr _ \<Rightarrow> next_step (by_docker (remove_image en (probe_tag token) True)) (\<lambda>_.
           done_with \<lparr>p_reachable = True, p_detail = ''pip download '' @ INDEX_PROBE_REQUIREMENT @ '' worked''\<rparr>))"

text \<open>\<open>bare\<close> is the empty directory made for the probe, \<open>token\<close> its random tag.\<close>

definition probe_index :: "'d engine \<Rightarrow> base_image \<Rightarrow> string \<Rightarrow> string \<Rightarrow> ('d, index_probe) step" where
  "probe_index en base bare token =
     next_step (ensure_base en base) (\<lambda>_ d.
     let (built, d') = build en bare (index_probe_dockerfile base) (probe_tag token) [] True d
     in probe_answer en token built d')"

definition submission_dockerfile :: "base_image \<Rightarrow> string option \<Rightarrow> contract \<Rightarrow> refusal + string" where
  "submission_dockerfile base requirements sp = bindE (sandbox_user sp) (\<lambda>(u, g).
     Inr (join [NL] ([''# '' @ b_digest base, ''FROM '' @ base_tag base,
         ''COPY --chown='' @ str_of_nat u @ '':'' @ str_of_nat g @ '' . '' @ SUBMISSION_DIR]
       @ (case requirements of None \<Rightarrow> []
          | Some req \<Rightarrow> [''RUN python -m pip install --no-cache-dir -r '' @ SUBMISSION_DIR @ ''/'' @ req])) @ [NL]))"

text \<open>What a build that did not succeed is, once the orchestrator's own probe has answered.\<close>

definition failed_build :: "'d engine \<Rightarrow> string option \<Rightarrow> string option \<Rightarrow> base_image \<Rightarrow> string \<Rightarrow> string \<Rightarrow> ('d, 'a) step" where
  "failed_build en requirements said base bare token =
     next_step (probe_index en base bare token) (\<lambda>probe.
     if \<not> p_reachable probe then refuse (Harness (Index_Unreachable requirements said (p_detail probe)))
     else refuse (Rejected ''build'' (Not_Built requirements said)))"

definition build_submission_image :: "'d engine \<Rightarrow> contract \<Rightarrow> string \<Rightarrow> string option \<Rightarrow> submission_ref \<Rightarrow> base_image
    \<Rightarrow> string \<Rightarrow> string \<Rightarrow> ('d, built_image) step" where
  "build_submission_image en sp checkout requirements r base bare token =
     next_step (ensure_base en base) (\<lambda>_.
     next_step (lift (submission_dockerfile base requirements sp)) (\<lambda>dockerfile d.
     case build en checkout dockerfile (submission_tag r) [] False d of
       (Inr ident, d') \<Rightarrow> (Inr \<lparr>bi_tag = submission_tag r, bi_id = ident, bi_base = base\<rparr>, d')
     | (Inl (Build_Failed t said), d') \<Rightarrow> failed_build en requirements (Some said) base bare token d'
     | (Inl (Build_Timed_Out t), d') \<Rightarrow> failed_build en requirements None base bare token d'
     | (Inl e, d') \<Rightarrow> by_docker (\<lambda>d. (Inl e, d)) d'))"

fun prune_refs :: "'d engine \<Rightarrow> string list \<Rightarrow> string list \<Rightarrow> (string \<times> string) list \<Rightarrow> ('d, string list \<times> (string \<times> string) list) step" where
  "prune_refs en [] removed kept = done_with (removed, kept)"
| "prune_refs en (r # rs) removed kept =
     next_step (by_docker (remove_image en r False)) (\<lambda>why.
       if why \<noteq> [] then prune_refs en rs removed (upd r why kept)
       else prune_refs en rs (removed @ [r]) kept)"

definition prune_submission_images :: "'d engine \<Rightarrow> ('d, string list \<times> (string \<times> string) list) step" where
  "prune_submission_images en = next_step (by_docker (image_refs en SUBMISSION_IMAGE)) (\<lambda>rs. prune_refs en rs [] [])"

section \<open>Whose failure a failed build is\<close>

lemma ensure_base_Inl: "ensure_base en base d = (Inl e, d') \<Longrightarrow> \<exists>x. e = Escapes x \<or> (\<exists>y. e = Harness y)"
  by (auto simp: ensure_base_def next_step_Inl dest!: by_docker_Inl split: if_splits)

lemma ensure_base_names:
  assumes "ensure_base en base d = (Inr t, d')"
  shows "t = base_tag base \<and> (\<exists>d0. image_id en (base_tag base) d0 = (Inr (Some (b_digest base)), d'))"
  using assms by (auto simp: ensure_base_def next_step_Inr by_docker_Inr split: if_splits)

lemma probe_answer_Inl: "probe_answer en token built d = (Inl e, d') \<Longrightarrow> \<exists>x. e = Escapes x \<or> (\<exists>y. e = Harness y)"
  by (cases built) (auto simp: probe_answer_def next_step_Inl dest!: by_docker_Inl split: docker_error.split_asm)

lemma probe_answer_reachable:
  "probe_answer en token built d = (Inr p, d') \<Longrightarrow> p_reachable p \<Longrightarrow> \<exists>ident. built = Inr ident"
  by (cases built) (auto simp: probe_answer_def by_docker_Inr split: docker_error.split_asm)

text \<open>From this state, the base was there and a build from it with nothing of the submission in it
  succeeded.\<close>

definition probed :: "'d engine \<Rightarrow> base_image \<Rightarrow> string \<Rightarrow> string \<Rightarrow> 'd \<Rightarrow> bool" where
  "probed en base bare token d \<longleftrightarrow> (\<exists>t d1 ident d2. ensure_base en base d = (Inr t, d1)
     \<and> build en bare (index_probe_dockerfile base) (probe_tag token) [] True d1 = (Inr ident, d2))"

lemma probe_index_Inl: "probe_index en base bare token d = (Inl e, d') \<Longrightarrow> \<exists>x. e = Escapes x \<or> (\<exists>y. e = Harness y)"
  by (auto simp: probe_index_def next_step_Inl case_prod_beta dest!: ensure_base_Inl probe_answer_Inl)

lemma probe_index_reachable:
  assumes "probe_index en base bare token d = (Inr p, d')" and "p_reachable p"
  shows "probed en base bare token d"
proof -
  from assms obtain t d1 where "ensure_base en base d = (Inr t, d1)"
    and "\<exists>ident. fst (build en bare (index_probe_dockerfile base) (probe_tag token) [] True d1) = Inr ident"
    by (auto simp: probe_index_def next_step_Inr case_prod_beta dest!: probe_answer_reachable)
  then show ?thesis unfolding probed_def by (metis prod.collapse)
qed

lemma failed_build_rejects:
  assumes "failed_build en req said base bare token d = (Inl (Rejected s why), d')"
  shows "s = ''build'' \<and> why = Not_Built req said
    \<and> probed en base bare token d"
  using assms
  by (auto simp: failed_build_def next_step_Inl dest: probe_index_Inl probe_index_reachable split: if_splits)

lemma failed_build_refuses: "failed_build en req said base bare token d = (Inr x, d') \<Longrightarrow> False"
  by (auto simp: failed_build_def next_step_Inr split: if_splits)

lemma build_judged:
  assumes "build_submission_image en sp checkout req r base bare token d = (res, d')"
  shows "case res of
      Inl (Rejected s why) \<Rightarrow> s = ''build'' \<and> (\<exists>said. why = Not_Built req said)
        \<and> (\<exists>t d1 dockerfile e d2. ensure_base en base d = (Inr t, d1) \<and> submission_dockerfile base req sp = Inr dockerfile
             \<and> build en checkout dockerfile (submission_tag r) [] False d1 = (Inl e, d2)
             \<and> (\<exists>u. e = Build_Timed_Out u \<or> (\<exists>l. e = Build_Failed u l)) \<and> probed en base bare token d2)
    | Inl _ \<Rightarrow> True
    | Inr img \<Rightarrow> bi_base img = base \<and> bi_tag img = submission_tag r
        \<and> (\<exists>t d0 d1. ensure_base en base d = (Inr t, d1) \<and> image_id en (base_tag base) d0 = (Inr (Some (b_digest base)), d1)
             \<and> (\<exists>dockerfile. submission_dockerfile base req sp = Inr dockerfile
                  \<and> build en checkout dockerfile (submission_tag r) [] False d1 = (Inr (bi_id img), d')))"
proof -
  consider (base) e where "ensure_base en base d = (Inl e, d')" "res = Inl e"
    | (user) t d1 e where "ensure_base en base d = (Inr t, d1)" "submission_dockerfile base req sp = Inl e" "res = Inl e"
    | (built) t d1 df where "ensure_base en base d = (Inr t, d1)" "submission_dockerfile base req sp = Inr df"
    using assms by (cases "fst (ensure_base en base d)"; cases "submission_dockerfile base req sp")
      (auto simp: build_submission_image_def next_step_def lift_def split: prod.splits sum.splits)
  then show ?thesis
  proof cases
    case base
    with ensure_base_Inl [of en base d e d'] show ?thesis by (auto split: refusal.splits)
  next
    case user
    then have "\<exists>x. e = Escapes x \<or> (\<exists>y. e = Harness y)"
      by (auto simp: submission_dockerfile_def sandbox_user_def sandbox_key_def submission_key_of_def int_or_raise_def
          bindE_Inl_iff Let_def split: option.splits prod.splits if_splits)
    with user show ?thesis by (auto split: refusal.splits)
  next
    case built
    obtain b d2 where b: "build en checkout df (submission_tag r) [] False d1 = (b, d2)" by (meson prod.exhaust)
    have named: "\<exists>d0. image_id en (base_tag base) d0 = (Inr (Some (b_digest base)), d1)"
      using ensure_base_names [OF built(1)] by blast
    show ?thesis
    proof (cases b)
      case (Inr ident)
      with assms built b have "res = Inr \<lparr>bi_tag = submission_tag r, bi_id = ident, bi_base = base\<rparr>" "d2 = d'"
        by (simp_all add: build_submission_image_def next_step_def)
      with Inr built b named show ?thesis by simp
    next
      case (Inl e)
      show ?thesis
      proof (cases "\<exists>u. e = Build_Timed_Out u \<or> (\<exists>l. e = Build_Failed u l)")
        case True
        then obtain said where run: "failed_build en req said base bare token d2 = (res, d')"
          using assms built b Inl by (auto simp: build_submission_image_def next_step_def)
        have "probed en base bare token d2 \<Longrightarrow> \<exists>t d1 df e d2. ensure_base en base d = (Inr t, d1) \<and> submission_dockerfile base req sp = Inr df
            \<and> build en checkout df (submission_tag r) [] False d1 = (Inl e, d2)
            \<and> (\<exists>u. e = Build_Timed_Out u \<or> (\<exists>l. e = Build_Failed u l)) \<and> probed en base bare token d2"
          using True built b Inl by blast
        then show ?thesis
          using failed_build_rejects [of en req said base bare token d2] run
          by (cases res) (auto dest: failed_build_refuses split: refusal.splits)
      next
        case False
        with assms built b Inl have "by_docker (\<lambda>d. (Inl e, d)) d2 = (res, d')"
          by (auto simp: build_submission_image_def next_step_def split: docker_error.splits)
        with by_docker_Inl [of "\<lambda>d. (Inl e, d)" d2] show ?thesis
          by (cases res) (auto simp: by_docker_Inr split: refusal.splits)
      qed
    qed
  qed
qed


end
