(* ===== verification/Container.thy ===== *)
theory Container
  imports Image
begin

text \<open>
  The pure part of \<open>submissions/container.py\<close>: what \<open>docker run\<close> is given to serve a submission's policy
  inside the contract's sandbox, and the labels that name the process that started a container,
  with \<open>/proc\<close> as an argument. The end of the theory reads the command as docker does.
\<close>

section \<open>Constants\<close>

definition AUTHKEY_ENV :: string where "AUTHKEY_ENV = ''ICIL_POLICY_AUTHKEY''"
definition SOCKET_DIR :: string where "SOCKET_DIR = ''/run/icil''"
definition SOCKET_FILE :: string where "SOCKET_FILE = ''policy.sock''"
definition LOG_FILE :: string where "LOG_FILE = ''policy.log''"
definition HARDENING :: "string list" where
  "HARDENING = [''--cap-drop'', ''ALL'', ''--security-opt'', ''no-new-privileges'']"
definition TMPFS_HARDENING :: "string list" where "TMPFS_HARDENING = [''nosuid'', ''nodev'']"
definition HOME_SUBDIR :: string where "HOME_SUBDIR = ''home''"
definition CACHE_SUBDIR :: string where "CACHE_SUBDIR = ''.cache''"
definition CACHE_ENV :: "(string \<times> string) list" where
  "CACHE_ENV = [(''TRITON_CACHE_DIR'', ''triton''), (''TORCHINDUCTOR_CACHE_DIR'', ''torchinductor''),
     (''TORCH_EXTENSIONS_DIR'', ''torch_extensions'')]"
definition PREPARE_HOME :: string where
  "PREPARE_HOME = ''mkdir -p -m 0700 '' @ [CHR 0x22] @ ''$HOME'' @ [CHR 0x22] @ '' '' @ [CHR 0x22] @ ''$XDG_CACHE_HOME'' @ [CHR 0x22]
     @ '' && exec '' @ [CHR 0x22] @ ''$@'' @ [CHR 0x22]"
definition SHARED_DIR_BYTES :: nat where "SHARED_DIR_BYTES = 64 * 2 ^ 20"
definition SHARED_DIR_INODES :: nat where "SHARED_DIR_INODES = 64"
definition SHARED_DIR_SOURCE :: string where "SHARED_DIR_SOURCE = ''icil-policy''"
definition SHARED_DIR_HARDENING :: "string list" where "SHARED_DIR_HARDENING = [''nosuid'', ''nodev'', ''noexec'']"
definition OWNER_PID_LABEL :: string where "OWNER_PID_LABEL = ''icil.owner.pid''"
definition OWNER_START_LABEL :: string where "OWNER_START_LABEL = ''icil.owner.start''"
definition OWNER_PIDNS_LABEL :: string where "OWNER_PIDNS_LABEL = ''icil.owner.pidns''"
definition SHARED_DIR_LABEL :: string where "SHARED_DIR_LABEL = ''icil.shared-dir''"

section \<open>The process that started a container\<close>

record owner =
  ow_pid :: int
  ow_start :: string
  ow_pidns :: string

text \<open>What reading \<open>/proc/<pid>/stat\<close> answers.\<close>

datatype proc_answer = No_Process | No_Answer | Stat string

type_synonym proc = "string \<Rightarrow> proc_answer"

text \<open>Field 22 of the line; \<open>None\<close> where there are not that many.\<close>

definition start_ticks :: "string \<Rightarrow> string option" where
  "start_ticks line = (let fields = split_words (snd (snd (rpartition_at CHR '')'' line))) in
     if 19 < length fields then Some (fields ! 19) else None)"

definition owner_from_labels :: "(string \<times> string) list \<Rightarrow> owner option" where
  "owner_from_labels labels =
     (case (map_of labels OWNER_PID_LABEL, map_of labels OWNER_START_LABEL, map_of labels OWNER_PIDNS_LABEL) of
        (Some p, Some s, Some n) \<Rightarrow>
          map_option (\<lambda>pid. \<lparr>ow_pid = pid, ow_start = s, ow_pidns = n\<rparr>) (py_int (JStr p))
      | _ \<Rightarrow> None)"

definition owner_labels :: "owner \<Rightarrow> (string \<times> string) list" where
  "owner_labels o' = [(OWNER_PID_LABEL, str_of_int (ow_pid o')), (OWNER_START_LABEL, ow_start o'), (OWNER_PIDNS_LABEL, ow_pidns o')]"

definition owner_gone :: "proc \<Rightarrow> owner \<Rightarrow> bool" where
  "owner_gone pr o' = (case pr (str_of_int (ow_pid o')) of
       No_Process \<Rightarrow> True
     | No_Answer \<Rightarrow> False
     | Stat line \<Rightarrow> (case start_ticks line of None \<Rightarrow> False | Some s \<Rightarrow> s \<noteq> ow_start o'))"

section \<open>The command\<close>

definition whole_number :: "json \<Rightarrow> refusal + int" where
  "whole_number v = (case py_int v of None \<Rightarrow> Inl (Escapes ''int'') | Some i \<Rightarrow> Inr i)"

definition each_text :: "json \<Rightarrow> refusal + string list" where
  "each_text v = (case py_iter v of None \<Rightarrow> Inl (Escapes ''TypeError'') | Some xs \<Rightarrow> Inr (map py_str xs))"

definition serve_argv :: "contract \<Rightarrow> refusal + string list" where
  "serve_argv sp = bindE (submission_key_of sp ''manifest'') (\<lambda>m. Inr [''python'', ''-m'', ''icil_policy.serve'',
     ''--manifest'', SUBMISSION_DIR @ ''/'' @ py_str m, ''--address'', SOCKET_DIR @ ''/'' @ SOCKET_FILE,
     ''--authkey-env'', AUTHKEY_ENV, ''--log-file'', SOCKET_DIR @ ''/'' @ LOG_FILE])"

definition tmpfs_options :: "contract \<Rightarrow> refusal + string" where
  "tmpfs_options sp = bindE (sandbox_key sp ''tmpfs_exec'') (\<lambda>runs. bindE (sandbox_key sp ''tmpfs_bytes'') (\<lambda>b.
     bindE (whole_number b) (\<lambda>n. Inr (join '','' ([if truthy runs then ''exec'' else ''noexec''] @ TMPFS_HARDENING
       @ [''size='' @ str_of_int n])))))"

text \<open>\<open>str(PurePosixPath(p))\<close> and joining a relative part to it.\<close>

definition pure_parts :: "string \<Rightarrow> string list" where
  "pure_parts p = filter (\<lambda>c. c \<noteq> [] \<and> c \<noteq> ''.'') (split_on CHR ''/'' p)"

definition pure_root :: "string \<Rightarrow> string" where
  "pure_root p = (if startswith p ''//'' \<and> \<not> startswith p ''///'' then ''//''
     else if startswith p ''/'' then ''/'' else [])"

definition pure_str :: "string \<Rightarrow> string" where
  "pure_str p = (let s = pure_root p @ join ''/'' (pure_parts p) in if s = [] then ''.'' else s)"

definition path_join :: "string \<Rightarrow> string \<Rightarrow> string" where
  "path_join p part = pure_str (if p \<noteq> [] \<and> last p = CHR ''/'' then p @ part else p @ ''/'' @ part)"

definition scratch_dir :: "contract \<Rightarrow> refusal + string" where
  "scratch_dir sp = bindE (sandbox_key sp ''tmpfs'') (\<lambda>v. case v of
       JArr (x # xs) \<Rightarrow> Inr (pure_str (py_str x))
     | JStr (c # cs) \<Rightarrow> Inr (pure_str [c])
     | _ \<Rightarrow> Inl (Escapes ''IndexError''))"

definition policy_environment :: "contract \<Rightarrow> refusal + (string \<times> string) list" where
  "policy_environment sp = bindE (scratch_dir sp) (\<lambda>scratch.
     let home = path_join scratch HOME_SUBDIR; cache = path_join home CACHE_SUBDIR in
     Inr ([(''HOME'', home), (''TMPDIR'', scratch), (''XDG_CACHE_HOME'', cache)]
       @ map (\<lambda>(name, sub). (name, path_join cache sub)) CACHE_ENV))"

definition container_argv :: "contract \<Rightarrow> refusal + string list" where
  "container_argv sp = bindE (serve_argv sp) (\<lambda>argv. Inr ([''sh'', ''-c'', PREPARE_HOME, ''sh''] @ argv))"

definition label_args :: "(string \<times> string) list \<Rightarrow> string list" where
  "label_args labels = concat (map (\<lambda>(k, v). [''--label'', k @ ''='' @ v]) labels)"

definition run_argv :: "contract \<Rightarrow> string \<Rightarrow> string \<Rightarrow> string \<Rightarrow> int option \<Rightarrow> owner option \<Rightarrow> refusal + string list" where
  "run_argv sp img name socket_dir gpus own =
     bindE (sandbox_key sp ''network'') (\<lambda>network. bindE (sandbox_key sp ''read_only_root'') (\<lambda>read_only.
     bindE (tmpfs_options sp) (\<lambda>options. bindE (sandbox_key sp ''tmpfs'') (\<lambda>tmpfs. bindE (each_text tmpfs) (\<lambda>paths.
     bindE (sandbox_key sp ''user'') (\<lambda>user.
     bindE (case gpus of Some g \<Rightarrow> Inr g | None \<Rightarrow> bindE (sandbox_key sp ''gpus'') whole_number) (\<lambda>count.
     bindE (bindE (sandbox_key sp ''memory_bytes'') whole_number) (\<lambda>memory. bindE (sandbox_key sp ''cpus'') (\<lambda>cpus.
     bindE (bindE (sandbox_key sp ''pids'') whole_number) (\<lambda>pids. bindE (policy_environment sp) (\<lambda>env.
     bindE (container_argv sp) (\<lambda>argv.
       Inr ([''--detach'', ''--name'', name, ''--label'', CONTAINER_LABEL]
         @ label_args ((case own of None \<Rightarrow> [] | Some o' \<Rightarrow> owner_labels o') @ [(SHARED_DIR_LABEL, socket_dir)])
         @ [''--network'', py_str network]
         @ (if truthy read_only then [''--read-only''] else [])
         @ concat (map (\<lambda>p. [''--tmpfs'', p @ '':'' @ options]) paths)
         @ [''--user'', py_str user]
         @ (if count > 0 then [''--gpus'', str_of_int count] else [])
         @ [''--memory'', str_of_int memory, ''--memory-swap'', str_of_int memory, ''--cpus'', py_str cpus,
            ''--pids-limit'', str_of_int pids]
         @ HARDENING
         @ [''--mount'', ''type=bind,src='' @ socket_dir @ '',dst='' @ SOCKET_DIR]
         @ concat (map (\<lambda>(k, v). [''--env'', k @ ''='' @ v]) env)
         @ [''--env'', AUTHKEY_ENV, img] @ argv)))))))))))))"

section \<open>How docker reads the command\<close>

text \<open>The options of \<open>docker run\<close> used here that take no value; every other takes the next word. The
  first word that is no option is the image, and the rest its command.\<close>

definition RUN_FLAGS :: "string list" where
  "RUN_FLAGS = [''--detach'', ''--read-only'']"

fun read_run :: "string list \<Rightarrow> ((string \<times> string) list \<times> string \<times> string list) option" where
  "read_run [] = None"
| "read_run (a # args) =
     (if \<not> startswith a ''-'' then Some ([], a, args)
      else if a \<in> set RUN_FLAGS then map_option (\<lambda>(os, i, c). ((a, []) # os, i, c)) (read_run args)
      else case args of [] \<Rightarrow> None
        | v # rest \<Rightarrow> map_option (\<lambda>(os, i, c). ((a, v) # os, i, c)) (read_run rest))"

definition opt_words :: "(string \<times> string) list \<Rightarrow> string list" where
  "opt_words opts = concat (map (\<lambda>(k, v). if k \<in> set RUN_FLAGS then [k] else [k, v]) opts)"

definition given :: "string \<Rightarrow> (string \<times> string) list \<Rightarrow> string list" where
  "given k opts = map snd (filter (\<lambda>o'. fst o' = k) opts)"

lemma read_opt_words:
  "(\<And>o'. o' \<in> set opts \<Longrightarrow> startswith (fst o') ''-'' \<and> (fst o' \<in> set RUN_FLAGS \<longrightarrow> snd o' = [])) \<Longrightarrow> \<not> startswith img ''-'' \<Longrightarrow>
     read_run (opt_words opts @ img # cmd) = Some (opts, img, cmd)"
proof (induction opts)
  case Nil
  then show ?case by (simp add: opt_words_def)
next
  case (Cons o' opts)
  obtain k v where "o' = (k, v)" by force
  with Cons.prems(1) [of o'] Cons.IH [OF Cons.prems(1) Cons.prems(2)] show ?case
    by (auto simp: opt_words_def)
qed

lemma opt_words_simps [simp]:
  "opt_words [] = []"
  "opt_words (o' # os) = (if fst o' \<in> set RUN_FLAGS then [fst o'] else [fst o', snd o']) @ opt_words os"
  "opt_words (os @ os') = opt_words os @ opt_words os'"
  by (auto simp: opt_words_def split: prod.splits)

lemma opt_words_map:
  "k \<notin> set RUN_FLAGS \<Longrightarrow> opt_words (map (\<lambda>x. (k, f x)) xs) = concat (map (\<lambda>x. [k, f x]) xs)"
  by (induction xs) auto

text \<open>The options of the command, one by one.\<close>

record run_words =
  rw_network :: string
  rw_paths :: "string list"
  rw_options :: string
  rw_user :: string
  rw_gpus :: int
  rw_memory :: int
  rw_cpus :: string
  rw_pids :: int
  rw_env :: "(string \<times> string) list"

definition run_opts :: "run_words \<Rightarrow> string \<Rightarrow> string \<Rightarrow> (string \<times> string) list \<Rightarrow> (string \<times> string) list" where
  "run_opts w name socket_dir labels =
     [(''--detach'', []), (''--name'', name), (''--label'', CONTAINER_LABEL)]
     @ map (\<lambda>kv. (''--label'', fst kv @ ''='' @ snd kv)) (labels @ [(SHARED_DIR_LABEL, socket_dir)])
     @ [(''--network'', rw_network w), (''--read-only'', [])]
     @ map (\<lambda>p. (''--tmpfs'', p @ '':'' @ rw_options w)) (rw_paths w)
     @ [(''--user'', rw_user w)]
     @ (if rw_gpus w > 0 then [(''--gpus'', str_of_int (rw_gpus w))] else [])
     @ [(''--memory'', str_of_int (rw_memory w)), (''--memory-swap'', str_of_int (rw_memory w)),
        (''--cpus'', rw_cpus w), (''--pids-limit'', str_of_int (rw_pids w)),
        (''--cap-drop'', ''ALL''), (''--security-opt'', ''no-new-privileges''),
        (''--mount'', ''type=bind,src='' @ socket_dir @ '',dst='' @ SOCKET_DIR)]
     @ map (\<lambda>kv. (''--env'', fst kv @ ''='' @ snd kv)) (rw_env w)
     @ [(''--env'', AUTHKEY_ENV)]"

lemma run_opts_read:
  "\<not> startswith img ''-'' \<Longrightarrow>
     read_run (opt_words (run_opts w name socket_dir labels) @ img # cmd) = Some (run_opts w name socket_dir labels, img, cmd)"
  by (rule read_opt_words) (auto simp: run_opts_def startswith_def RUN_FLAGS_def split: if_splits)

lemma run_argv_opts:
  assumes "sandbox_key sp ''network'' = Inr (JStr (rw_network w))" and "sandbox_key sp ''read_only_root'' = Inr (JBool True)"
    and "tmpfs_options sp = Inr (rw_options w)" and "sandbox_key sp ''tmpfs'' = Inr (JArr (map JStr (rw_paths w)))"
    and "sandbox_key sp ''user'' = Inr (JStr (rw_user w))"
    and "(case gpus of Some g \<Rightarrow> Inr g | None \<Rightarrow> bindE (sandbox_key sp ''gpus'') whole_number) = Inr (rw_gpus w)"
    and "bindE (sandbox_key sp ''memory_bytes'') whole_number = Inr (rw_memory w)"
    and "sandbox_key sp ''cpus'' = Inr cpus" and "py_str cpus = rw_cpus w"
    and "bindE (sandbox_key sp ''pids'') whole_number = Inr (rw_pids w)"
    and "policy_environment sp = Inr (rw_env w)" and "container_argv sp = Inr cmd"
  shows "run_argv sp img name socket_dir gpus own =
    Inr (opt_words (run_opts w name socket_dir (case own of None \<Rightarrow> [] | Some o' \<Rightarrow> owner_labels o')) @ img # cmd)"
proof -
  have labels: "opt_words (map (\<lambda>kv. (''--label'', fst kv @ ''='' @ snd kv)) ls) = label_args ls" for ls
    by (subst opt_words_map) (auto simp: label_args_def RUN_FLAGS_def case_prod_unfold)
  have tmpfs: "opt_words (map (\<lambda>p. (''--tmpfs'', p @ '':'' @ rw_options w)) (rw_paths w))
      = concat (map (\<lambda>p. [''--tmpfs'', p @ '':'' @ rw_options w]) (rw_paths w))"
    by (rule opt_words_map) (simp add: RUN_FLAGS_def)
  have env: "opt_words (map (\<lambda>kv. (''--env'', fst kv @ ''='' @ snd kv)) (rw_env w))
      = concat (map (\<lambda>(k, v). [''--env'', k @ ''='' @ v]) (rw_env w))"
    by (subst opt_words_map) (auto simp: RUN_FLAGS_def case_prod_unfold)
  show ?thesis
    unfolding run_argv_def run_opts_def opt_words_simps(3) labels tmpfs env
    using assms by (simp add: each_text_def comp_def RUN_FLAGS_def HARDENING_def)
qed

section \<open>An accepted contract's sandbox\<close>

lemma whole_positive: "positive_number v \<Longrightarrow> \<exists>i. whole_number v = Inr i"
  by (cases v) (auto simp: whole_number_def py_int_def)

lemma positive_nonnull: "positive_number v \<Longrightarrow> v \<noteq> JNull"
  by auto

lemma accepted_sandbox_key:
  assumes "validate_spec (raw sp) = Some []" and "sandbox = jget (spec_section sp ''submission'') ''sandbox''" and "jget sandbox k \<noteq> JNull"
  shows "sandbox_key sp k = Inr (jget sandbox k)"
proof -
  have "jget sandbox ''network'' = JStr ''none''" using sandbox_safe [OF assms(1,2)] by blast
  then have "sandbox \<noteq> JNull" by (auto simp: jget_def)
  then have "submission_key_of sp ''sandbox'' = Inr sandbox"
    using key_of_nonnull [of "spec_section sp ''submission''" "''sandbox''"] assms(2) by (simp add: submission_key_of_def)
  with key_of_nonnull [OF assms(3)] show ?thesis by (simp add: sandbox_key_def)
qed

lemma accepted_manifest:
  assumes "validate_spec (raw sp) = Some []"
  shows "\<exists>m. submission_key_of sp ''manifest'' = Inr (JStr m)"
proof -
  have "is_text (jget (spec_section sp ''submission'') ''manifest'')"
    using submission_clean [OF assms] by (auto simp: submission_errors_def Let_def all_parts_Nil split: if_splits)
  then obtain m where "jget (spec_section sp ''submission'') ''manifest'' = JStr m"
    by (cases "jget (spec_section sp ''submission'') ''manifest''") auto
  with key_of_nonnull [of "spec_section sp ''submission''" "''manifest''"] show ?thesis
    by (simp add: submission_key_of_def)
qed

lemma accepted_numbers:
  assumes "validate_spec (raw sp) = Some []" and "sandbox = jget (spec_section sp ''submission'') ''sandbox''"
  shows "positive_number (jget sandbox ''gpus'')" "positive_number (jget sandbox ''memory_bytes'')"
    "positive_number (jget sandbox ''cpus'')" "positive_number (jget sandbox ''pids'')"
    "positive_int (jget sandbox ''tmpfs_bytes'')" "is_bool (jget sandbox ''tmpfs_exec'')"
  using sandbox_clean [OF assms(1)]
  by (auto simp: assms(2) sandbox_errors_def Let_def all_parts_Nil split: if_splits option.splits)

lemma accepted_run_words:
  assumes ok: "validate_spec (raw sp) = Some []" and sb: "sandbox = jget (spec_section sp ''submission'') ''sandbox''"
  shows "\<exists>w cmd. jget sandbox ''user'' = JStr (rw_user w) \<and> rw_network w = ''none''
    \<and> tmpfs_paths (jget sandbox ''tmpfs'') = Some (rw_paths w)
    \<and> (\<exists>e n. rw_options w = e @ '',nosuid,nodev,size='' @ str_of_int n \<and> e \<in> {''exec'', ''noexec''})
    \<and> (\<forall>img name socket_dir. run_argv sp img name socket_dir gpus own =
        Inr (opt_words (run_opts w name socket_dir (case own of None \<Rightarrow> [] | Some o' \<Rightarrow> owner_labels o')) @ img # cmd))"
proof -
  note safe = sandbox_safe [OF ok sb]
  note numbers = accepted_numbers [OF ok sb]
  note got = accepted_sandbox_key [OF ok sb]
  from safe obtain u ps where u: "jget sandbox ''user'' = JStr u" and ps: "tmpfs_paths (jget sandbox ''tmpfs'') = Some ps"
    and ps1: "ps \<noteq> []" by blast
  have tm: "jget sandbox ''tmpfs'' = JArr (map JStr ps)"
  proof -
    from ps obtain xs where xs: "jget sandbox ''tmpfs'' = JArr xs" "list_all tmpfs_path xs" "ps = map (the \<circ> as_str) xs"
      by (cases "jget sandbox ''tmpfs''") (auto simp: tmpfs_paths_def split: if_splits)
    have "JStr (the (as_str x)) = x" if "x \<in> set xs" for x
    proof -
      from that xs(2) have "tmpfs_path x" by (simp add: list_all_iff)
      then show ?thesis by (cases x) (auto simp: tmpfs_path_def)
    qed
    then have "map JStr ps = xs" by (simp add: xs(3) map_idI)
    with xs(1) show ?thesis by simp
  qed
  obtain p ps' where p: "ps = p # ps'" using ps1 by (cases ps) auto
  obtain n where n: "jget sandbox ''tmpfs_bytes'' = JInt n" using numbers(5) by (auto dest: positive_intE)
  obtain b where b: "jget sandbox ''tmpfs_exec'' = JBool b" using numbers(6) by (cases "jget sandbox ''tmpfs_exec''") auto
  define opts where "opts = (if b then ''exec'' else ''noexec'') @ '',nosuid,nodev,size='' @ str_of_int n"
  have opts: "tmpfs_options sp = Inr opts"
    using got [of "''tmpfs_exec''"] got [of "''tmpfs_bytes''"] n b
    by (simp add: tmpfs_options_def whole_number_def py_int_def TMPFS_HARDENING_def opts_def)
  obtain env where env: "policy_environment sp = Inr env"
    using got [of "''tmpfs''"] tm p by (simp add: policy_environment_def scratch_dir_def Let_def)
  obtain cmd where cmd: "container_argv sp = Inr cmd"
    using accepted_manifest [OF ok] by (auto simp: container_argv_def serve_argv_def)
  obtain g where g: "(case gpus of Some g \<Rightarrow> Inr g | None \<Rightarrow> bindE (sandbox_key sp ''gpus'') whole_number) = Inr g"
    using whole_positive [OF numbers(1)] got [of "''gpus''"] positive_nonnull [OF numbers(1)] by (cases gpus) auto
  obtain m where m: "bindE (sandbox_key sp ''memory_bytes'') whole_number = Inr m"
    using whole_positive [OF numbers(2)] got [of "''memory_bytes''"] positive_nonnull [OF numbers(2)] by auto
  obtain q where q: "bindE (sandbox_key sp ''pids'') whole_number = Inr q"
    using whole_positive [OF numbers(4)] got [of "''pids''"] positive_nonnull [OF numbers(4)] by auto
  have cpus: "sandbox_key sp ''cpus'' = Inr (jget sandbox ''cpus'')" using got [of "''cpus''"] positive_nonnull [OF numbers(3)] by auto
  have fixed: "sandbox_key sp ''network'' = Inr (JStr ''none'')" "sandbox_key sp ''read_only_root'' = Inr (JBool True)"
    "sandbox_key sp ''tmpfs'' = Inr (JArr (map JStr ps))" "sandbox_key sp ''user'' = Inr (JStr u)"
    using safe got [of "''network''"] got [of "''read_only_root''"] got [of "''tmpfs''"] got [of "''user''"] tm u by auto
  define w where "w = \<lparr>rw_network = ''none'', rw_paths = ps, rw_options = opts, rw_user = u, rw_gpus = g, rw_memory = m,
    rw_cpus = py_str (jget sandbox ''cpus''), rw_pids = q, rw_env = env\<rparr>"
  have "run_argv sp img name socket_dir gpus own =
      Inr (opt_words (run_opts w name socket_dir (case own of None \<Rightarrow> [] | Some o' \<Rightarrow> owner_labels o')) @ img # cmd)"
    for img name socket_dir
    by (rule run_argv_opts [where cpus = "jget sandbox ''cpus''"]) (simp_all add: w_def fixed opts g m q cpus env cmd)
  moreover have "\<exists>e n. opts = e @ '',nosuid,nodev,size='' @ str_of_int n \<and> e \<in> {''exec'', ''noexec''}"
    unfolding opts_def by (intro exI conjI, rule refl) simp
  ultimately show ?thesis
    using u ps by (intro exI [of _ w] exI [of _ cmd]) (simp add: w_def)
qed

lemma given_append [simp]: "given k (xs @ ys) = given k xs @ given k ys"
  by (simp add: given_def)

lemma given_simps [simp]: "given k [] = []" "given k (o' # os) = (if fst o' = k then [snd o'] else []) @ given k os"
  by (simp_all add: given_def)

lemma given_map [simp]: "given k (map (\<lambda>x. (c, f x)) xs) = (if c = k then map f xs else [])"
  by (induction xs) auto

text \<open>The options the command may hold: none that mounts, adds a device or lifts a limit.\<close>

definition SANDBOX_OPTIONS :: "string list" where
  "SANDBOX_OPTIONS = [''--detach'', ''--name'', ''--label'', ''--network'', ''--read-only'', ''--tmpfs'', ''--user'', ''--gpus'',
     ''--memory'', ''--memory-swap'', ''--cpus'', ''--pids-limit'', ''--cap-drop'', ''--security-opt'', ''--mount'', ''--env'']"



end
