(* ===== verification/Checkout.thy ===== *)
theory Checkout
  imports Container
begin

text \<open>
  \<open>submissions/checks.py\<close> and \<open>icil_policy/manifest.py\<close>: what a checkout is looked at for before any
  of it is built or run. A checkout is a tree of what \<open>lstat\<close> tells apart. PyYAML's loader is an
  argument, and so is where a path resolves to, since a link in a checkout may lead anywhere on
  the host.
\<close>

section \<open>A checkout\<close>

datatype node =
    Regular string
  | Link string
  | Folder "(string \<times> node) list"
  | Special

text \<open>One \<open>lstat\<close> a component: what is missing, what is a link, and what is no directory and so
  cannot be looked into.\<close>

fun plain_walk :: "node \<Rightarrow> string list \<Rightarrow> reason + node" where
  "plain_walk here [] = Inr here"
| "plain_walk (Folder kids) (p # ps) =
     (case map_of kids p of
        None \<Rightarrow> Inl Not_There
      | Some (Link t) \<Rightarrow> Inl (Through_Link p)
      | Some n \<Rightarrow> plain_walk n ps)"
| "plain_walk here (p # ps) = Inl Not_Readable"

definition STEP :: string where "STEP = ''manifest''"

definition regular_file_inside :: "node \<Rightarrow> string \<Rightarrow> refusal + string" where
  "regular_file_inside tree relative =
     (let parts = pure_parts relative in
      if startswith relative ''/'' \<or> parts = [] \<or> list_ex (\<lambda>p. p = ''..'' \<or> p = ''.'') parts
      then Inl (Rejected STEP Not_Inside)
      else case plain_walk tree parts of
          Inl why \<Rightarrow> Inl (Rejected STEP why)
        | Inr (Regular content) \<Rightarrow> Inr content
        | Inr _ \<Rightarrow> Inl (Rejected STEP Not_A_File))"

section \<open>The manifest's schema\<close>

definition API_VERSION :: int where "API_VERSION = 1"
definition MAX_BYTES :: nat where "MAX_BYTES = 2 ^ 20"
definition KEYS :: "string list" where
  "KEYS = [''api'', ''policy'', ''kwargs'', ''requirements'', ''benchmarks'']"

definition identifier_rx :: rx where
  "identifier_rx = Cat (Cls (\<lambda>c. lower_az c \<or> upper_az c \<or> c = CHR ''_'')) (Star (Cls (\<lambda>c. alnum c \<or> c = CHR ''_'')))"

definition POLICY_RE :: rx where
  "POLICY_RE = Cat identifier_rx (Cat (Star (Cat (Lit ''.'') identifier_rx)) (Cat (Lit '':'') identifier_rx))"

record manifest =
  m_api :: int
  m_policy :: string
  m_kwargs :: "(yaml \<times> yaml) list"
  m_requirements :: "string option"
  m_benchmarks :: "string list"

definition policy_module :: "manifest \<Rightarrow> string" where
  "policy_module m = fst (partition_at CHR '':'' (m_policy m))"

definition policy_attribute :: "manifest \<Rightarrow> string" where
  "policy_attribute m = snd (snd (partition_at CHR '':'' (m_policy m)))"

text \<open>\<open>str.isidentifier\<close> on the characters below 256.\<close>

definition id_start :: "char \<Rightarrow> bool" where
  "id_start c \<longleftrightarrow> lower_az c \<or> upper_az c \<or> c = CHR ''_'' \<or> code c \<in> {170, 181, 186}
     \<or> (192 \<le> code c \<and> code c \<noteq> 215 \<and> code c \<noteq> 247)"

definition isidentifier :: "string \<Rightarrow> bool" where
  "isidentifier s \<longleftrightarrow> s \<noteq> [] \<and> id_start (hd s) \<and> list_all (\<lambda>c. id_start c \<or> ascii_digit c \<or> code c = 183) s"

definition ymap_get :: "(yaml \<times> yaml) list \<Rightarrow> string \<Rightarrow> yaml option" where
  "ymap_get kvs k = map_of kvs (YStr k)"

text \<open>Where a path under the repository resolves to, links followed: its parts, or no answer.\<close>

record resolution =
  rn_root :: "string list option"
  rn_path :: "string \<Rightarrow> string list option"
  rn_is_file :: "string list \<Rightarrow> bool"

definition is_under :: "string list \<Rightarrow> string list \<Rightarrow> bool" where
  "is_under tree p \<longleftrightarrow> take (length tree) p = tree"

definition requirements_problems :: "resolution \<Rightarrow> yaml \<Rightarrow> problem list" where
  "requirements_problems rn v =
     (case v of
        YStr r \<Rightarrow>
          if r = [] then [Requirements_Not_A_Path]
          else if CHR 0x00 \<in> set r then [Requirements_Nul]
          else if startswith r ''/'' \<or> startswith r ''~'' then [Requirements_Not_Relative]
          else (case (rn_root rn, rn_path rn r) of
              (Some tree, Some target) \<Rightarrow>
                if \<not> is_under tree target then [Requirements_Leave]
                else if \<not> rn_is_file rn target then [Requirements_Not_A_File]
                else []
            | _ \<Rightarrow> [Requirements_Unresolved])
      | _ \<Rightarrow> [Requirements_Not_A_Path])"

definition api_problems :: "(yaml \<times> yaml) list \<Rightarrow> problem list" where
  "api_problems data = (case ymap_get data ''api'' of None \<Rightarrow> [Api_Required]
     | Some v \<Rightarrow> if v = YInt API_VERSION then [] else [Api_Wrong v])"

definition policy_problems :: "(yaml \<times> yaml) list \<Rightarrow> problem list" where
  "policy_problems data = (case ymap_get data ''policy'' of None \<Rightarrow> [Policy_Required]
     | Some v \<Rightarrow> (case v of YStr s \<Rightarrow> if rx_fullmatch POLICY_RE s then [] else [Policy_Wrong v] | _ \<Rightarrow> [Policy_Wrong v]))"

text \<open>The keyword arguments and the benchmarks: what is kept of them, and what is wrong.\<close>

definition kwargs_checked :: "(yaml \<times> yaml) list \<Rightarrow> (yaml \<times> yaml) list \<times> problem list" where
  "kwargs_checked data = (case ymap_get data ''kwargs'' of
       None \<Rightarrow> ([], [])
     | Some YNull \<Rightarrow> ([], [])
     | Some (YMap kvs) \<Rightarrow>
         (let bad = filter (\<lambda>k. case k of YStr s \<Rightarrow> \<not> isidentifier s | _ \<Rightarrow> True) (map fst kvs)
          in (kvs, if bad = [] then [] else [Kwargs_Keys bad]))
     | Some _ \<Rightarrow> ([], [Kwargs_Not_A_Mapping]))"

fun yaml_name :: "yaml \<Rightarrow> string option" where
  "yaml_name (YStr (c # cs)) = Some (c # cs)"
| "yaml_name _ = None"

definition benchmarks_checked :: "(yaml \<times> yaml) list \<Rightarrow> string list \<times> problem list" where
  "benchmarks_checked data = (case ymap_get data ''benchmarks'' of
       None \<Rightarrow> ([], [])
     | Some YNull \<Rightarrow> ([], [])
     | Some (YList vs) \<Rightarrow> if list_all (\<lambda>v. yaml_name v \<noteq> None) vs then (List.map_filter yaml_name vs, [])
         else ([], [Benchmarks_Wrong (YList vs)])
     | Some v \<Rightarrow> ([], [Benchmarks_Wrong v]))"

definition requirements_checked :: "resolution \<Rightarrow> (yaml \<times> yaml) list \<Rightarrow> string option \<times> problem list" where
  "requirements_checked rn data = (case ymap_get data ''requirements'' of
       None \<Rightarrow> (None, [])
     | Some YNull \<Rightarrow> (None, [])
     | Some v \<Rightarrow> ((case v of YStr s \<Rightarrow> Some s | _ \<Rightarrow> None), requirements_problems rn v))"

definition validate_manifest :: "resolution \<Rightarrow> yaml \<Rightarrow> problem list + manifest" where
  "validate_manifest rn data =
     (case data of
        YMap kvs \<Rightarrow>
          (let unknown = filter (\<lambda>k. k \<notin> YStr ` set KEYS) (map fst kvs);
               (kwargs, kwargs_ps) = kwargs_checked kvs; (req, req_ps) = requirements_checked rn kvs;
               (bench, bench_ps) = benchmarks_checked kvs;
               problems = (if unknown = [] then [] else [Unknown_Keys unknown]) @ api_problems kvs @ policy_problems kvs
                 @ kwargs_ps @ req_ps @ bench_ps
           in if problems \<noteq> [] then Inl problems
              else Inr \<lparr>m_api = (case ymap_get kvs ''api'' of Some (YInt i) \<Rightarrow> i | _ \<Rightarrow> API_VERSION),
                m_policy = (case ymap_get kvs ''policy'' of Some (YStr s) \<Rightarrow> s | _ \<Rightarrow> []),
                m_kwargs = kwargs, m_requirements = req, m_benchmarks = bench\<rparr>)
      | _ \<Rightarrow> Inl [Not_A_Mapping])"

text \<open>\<open>load\<close>: the loader answers a value or why the text is not YAML; \<open>decodes\<close> is UTF-8.\<close>

definition load_manifest :: "resolution \<Rightarrow> (string \<Rightarrow> bool) \<Rightarrow> (string \<Rightarrow> string + yaml) \<Rightarrow> string \<Rightarrow> problem list + manifest" where
  "load_manifest rn decodes yload content =
     (let bytes = take (MAX_BYTES + 1) content in
      if \<not> decodes bytes then Inl [Cannot_Read]
      else if length bytes > MAX_BYTES then Inl [Too_Large]
      else case yload bytes of
          Inl why \<Rightarrow> Inl [Not_Yaml (if length why > 1000 then take 1000 why @ '' [...]'' else why)]
        | Inr data \<Rightarrow> validate_manifest rn data)"

text \<open>The loader's own check of one mapping's written keys, a merge key (\<open><<\<close>) aside: a key given
  twice is refused; a key that cannot be hashed is left to the base class. Keys are Python's: a
  truth value is a number.\<close>

fun yaml_num :: "yaml \<Rightarrow> rat option" where
  "yaml_num (YBool b) = Some (if b then 1 else 0)"
| "yaml_num (YInt i) = Some (of_int i)"
| "yaml_num (YFloat q) = Some q"
| "yaml_num _ = None"

definition same_key :: "yaml \<Rightarrow> yaml \<Rightarrow> bool" where
  "same_key a b \<longleftrightarrow> (if yaml_num a \<noteq> None then yaml_num a = yaml_num b else a = b)"

fun key_hashable :: "yaml \<Rightarrow> bool" where
  "key_hashable (YList vs) \<longleftrightarrow> False"
| "key_hashable (YMap kvs) \<longleftrightarrow> False"
| "key_hashable (YOther kind) \<longleftrightarrow> kind \<noteq> ''set''"
| "key_hashable _ \<longleftrightarrow> True"

fun duplicate_key :: "yaml list \<Rightarrow> (bool \<times> yaml) list \<Rightarrow> yaml option" where
  "duplicate_key seen [] = None"
| "duplicate_key seen ((merge, k) # ks) =
     (if merge \<or> \<not> key_hashable k then duplicate_key seen ks
      else if list_ex (same_key k) seen then Some k
      else duplicate_key (k # seen) ks)"

section \<open>The check\<close>

definition judge_manifest :: "contract \<Rightarrow> node \<Rightarrow> problem list + manifest \<Rightarrow> refusal + manifest" where
  "judge_manifest sp tree loaded =
     (case loaded of
        Inl problems \<Rightarrow> Inl (Rejected STEP (Manifest_Problems problems))
      | Inr m \<Rightarrow>
          bindE (bindE (submission_key_of sp ''manifest_api'') whole_number) (\<lambda>wanted.
          if m_api m \<noteq> wanted then Inl (Rejected STEP (Api_Not wanted))
          else case m_requirements m of None \<Rightarrow> Inr m
             | Some r \<Rightarrow> bindE (regular_file_inside tree r) (\<lambda>_. Inr m)))"

definition check_repository :: "contract \<Rightarrow> resolution \<Rightarrow> (string \<Rightarrow> bool) \<Rightarrow> (string \<Rightarrow> string + yaml) \<Rightarrow> node \<Rightarrow> refusal + manifest" where
  "check_repository sp rn decodes yload tree =
     bindE (submission_key_of sp ''manifest'') (\<lambda>name.
     bindE (regular_file_inside tree (py_str name)) (\<lambda>content.
     judge_manifest sp tree (load_manifest rn decodes yload content)))"

section \<open>What is accepted stays inside\<close>

text \<open>A path from the top through directories alone to a regular file.\<close>

inductive plainly_at :: "node \<Rightarrow> string list \<Rightarrow> string \<Rightarrow> bool" where
  here: "plainly_at (Regular content) [] content"
| into: "map_of kids p = Some n \<Longrightarrow> plainly_at n ps content \<Longrightarrow> plainly_at (Folder kids) (p # ps) content"

inductive_simps plainly_at_simps [simp]:
  "plainly_at (Link t) ps content"
  "plainly_at (Regular s) ps content"
  "plainly_at Special ps content"

lemma plain_walk_at: "plain_walk tree parts = Inr (Regular content) \<Longrightarrow> plainly_at tree parts content"
  by (induction tree parts rule: plain_walk.induct)
    (auto intro: plainly_at.intros split: option.splits node.splits)

lemma at_plain_walk: "plainly_at tree parts content \<Longrightarrow> plain_walk tree parts = Inr (Regular content)"
proof (induction rule: plainly_at.induct)
  case (into kids p n ps content)
  then show ?case by (cases n) auto
qed simp

lemma regular_file_inside_iff:
  "regular_file_inside tree relative = Inr content \<longleftrightarrow>
     \<not> startswith relative ''/'' \<and> pure_parts relative \<noteq> [] \<and> ''..'' \<notin> set (pure_parts relative)
     \<and> plainly_at tree (pure_parts relative) content"
proof -
  have dot: "''.'' \<notin> set (pure_parts relative)" by (simp add: pure_parts_def)
  have walk: "plainly_at tree ps content \<longleftrightarrow> plain_walk tree ps = Inr (Regular content)" for ps
    using plain_walk_at at_plain_walk by blast
  have bad: "list_ex (\<lambda>p. p = ''..'' \<or> p = ''.'') (pure_parts relative) \<longleftrightarrow> ''..'' \<in> set (pure_parts relative)"
    using dot by (auto simp: list_ex_iff)
  show ?thesis
    unfolding walk regular_file_inside_def Let_def bad
    by (cases "plain_walk tree (pure_parts relative)"; simp split: node.split) blast?
qed

lemma validated:
  assumes "validate_manifest rn data = Inr m"
  shows "m_api m = API_VERSION \<and> rx_fullmatch POLICY_RE (m_policy m)
    \<and> (\<forall>k \<in> set (map fst (m_kwargs m)). \<exists>s. k = YStr s \<and> isidentifier s)
    \<and> (\<forall>r. m_requirements m = Some r \<longrightarrow> \<not> startswith r ''~'' \<and> CHR 0x00 \<notin> set r)"
proof -
  from assms obtain kvs where data: "data = YMap kvs" by (cases data) (auto simp: validate_manifest_def)
  obtain kw kps rq rps bn bps where parts: "kwargs_checked kvs = (kw, kps)" "requirements_checked rn kvs = (rq, rps)"
      "benchmarks_checked kvs = (bn, bps)" by (meson prod.exhaust)
  from assms data parts have none: "api_problems kvs = []" "policy_problems kvs = []" "kps = []" "rps = []"
    and m: "m = \<lparr>m_api = (case ymap_get kvs ''api'' of Some (YInt i) \<Rightarrow> i | _ \<Rightarrow> API_VERSION),
                m_policy = (case ymap_get kvs ''policy'' of Some (YStr s) \<Rightarrow> s | _ \<Rightarrow> []),
                m_kwargs = kw, m_requirements = rq, m_benchmarks = bn\<rparr>"
    by (auto simp: validate_manifest_def Let_def split: if_splits)
  have "m_api m = API_VERSION" using none(1) m by (auto simp: api_problems_def split: option.splits if_splits)
  moreover have "rx_fullmatch POLICY_RE (m_policy m)"
    using none(2) m by (auto simp: policy_problems_def split: option.splits yaml.splits if_splits)
  moreover have "\<forall>k \<in> set (map fst kw). \<exists>s. k = YStr s \<and> isidentifier s"
    using parts(1) none(3)
    by (auto simp: kwargs_checked_def Let_def filter_empty_conv split: option.splits yaml.splits if_splits)
      (metis fst_conv yaml.exhaust)
  moreover have "\<forall>r. rq = Some r \<longrightarrow> \<not> startswith r ''~'' \<and> CHR 0x00 \<notin> set r"
    using parts(2) none(4)
    by (auto simp: requirements_checked_def requirements_problems_def split: option.splits yaml.splits if_splits)
  ultimately show ?thesis by (simp add: m)
qed

lemma loaded: "load_manifest rn decodes yload content = Inr m \<Longrightarrow> \<exists>data. validate_manifest rn data = Inr m"
  by (auto simp: load_manifest_def Let_def split: if_splits sum.splits)

lemma regular_file_inside_Inl: "regular_file_inside tree relative = Inl e \<Longrightarrow> \<exists>why. e = Rejected STEP why"
  by (auto simp: regular_file_inside_def Let_def split: if_splits sum.splits node.splits)

lemma judged:
  assumes "judge_manifest sp tree res = Inr m"
  shows "res = Inr m \<and> bindE (submission_key_of sp ''manifest_api'') whole_number = Inr (m_api m)
    \<and> (\<forall>r. m_requirements m = Some r \<longrightarrow> (\<exists>c. regular_file_inside tree r = Inr c))"
proof -
  from assms obtain m' where res: "res = Inr m'" by (cases res) (auto simp: judge_manifest_def)
  with assms show ?thesis
    by (cases "m_requirements m'") (auto simp: judge_manifest_def bindE_Inr_iff split: if_splits)
qed

lemma judge_rejects: "judge_manifest sp tree res = Inl (Rejected s why) \<Longrightarrow> s = STEP"
  by (cases res; cases "m_requirements (projr res)")
    (auto simp: judge_manifest_def bindE_Inl_iff submission_key_of_def whole_number_def
      dest!: regular_file_inside_Inl split: if_splits option.splits)

lemma checked:
  assumes "check_repository sp rn decodes yload tree = Inr m"
  shows "\<exists>name content. submission_key_of sp ''manifest'' = Inr name \<and> regular_file_inside tree (py_str name) = Inr content
    \<and> load_manifest rn decodes yload content = Inr m
    \<and> bindE (submission_key_of sp ''manifest_api'') whole_number = Inr (m_api m)
    \<and> (\<forall>r. m_requirements m = Some r \<longrightarrow> (\<exists>c. regular_file_inside tree r = Inr c))"
proof -
  from assms obtain name content where "submission_key_of sp ''manifest'' = Inr name" "regular_file_inside tree (py_str name) = Inr content"
    and judge: "judge_manifest sp tree (load_manifest rn decodes yload content) = Inr m"
    by (auto simp: check_repository_def bindE_Inr_iff)
  with judged [OF judge] show ?thesis by blast
qed

lemma checked_rejects: "check_repository sp rn decodes yload tree = Inl (Rejected s why) \<Longrightarrow> s = STEP"
  by (auto simp: check_repository_def bindE_Inl_iff submission_key_of_def dest: judge_rejects regular_file_inside_Inl split: option.splits)

text \<open>C14. What a checkout is accepted on is its own: the manifest and the requirements it names are
  regular files of the repository, reached through directories alone - no symbolic link, no
  \<open>..\<close>, nothing absolute - so no byte of the host is read in their place; the manifest has the
  contract's api, which is 1, and names \<open>module:Class\<close> in identifiers. Every refusal is at the
  manifest step.\<close>

theorem accepted_checkout_is_plain:
  "case check_repository sp rn decodes yload tree of
     Inr m \<Rightarrow> (\<exists>name content. submission_key_of sp ''manifest'' = Inr name
         \<and> ''..'' \<notin> set (pure_parts (py_str name)) \<and> plainly_at tree (pure_parts (py_str name)) content
         \<and> load_manifest rn decodes yload content = Inr m)
       \<and> m_api m = 1 \<and> bindE (submission_key_of sp ''manifest_api'') whole_number = Inr 1
       \<and> rx_fullmatch POLICY_RE (m_policy m)
       \<and> (case m_requirements m of None \<Rightarrow> True
          | Some r \<Rightarrow> \<not> startswith r ''/'' \<and> ''..'' \<notin> set (pure_parts r) \<and> (\<exists>c. plainly_at tree (pure_parts r) c))
   | Inl (Rejected s why) \<Rightarrow> s = ''manifest''
   | Inl _ \<Rightarrow> True"
proof (cases "check_repository sp rn decodes yload tree")
  case (Inl e)
  with checked_rejects [of sp rn decodes yload tree] show ?thesis
    by (auto simp: STEP_def split: refusal.splits)
next
  case (Inr m)
  from checked [OF Inr] obtain name content where name: "submission_key_of sp ''manifest'' = Inr name"
    and inside: "regular_file_inside tree (py_str name) = Inr content" and load: "load_manifest rn decodes yload content = Inr m"
    and api: "bindE (submission_key_of sp ''manifest_api'') whole_number = Inr (m_api m)"
    and req: "\<forall>r. m_requirements m = Some r \<longrightarrow> (\<exists>c. regular_file_inside tree r = Inr c)"
    by blast
  from loaded [OF load] obtain data where "validate_manifest rn data = Inr m" by blast
  note valid = validated [OF this]
  have "case m_requirements m of None \<Rightarrow> True
      | Some r \<Rightarrow> \<not> startswith r ''/'' \<and> ''..'' \<notin> set (pure_parts r) \<and> (\<exists>c. plainly_at tree (pure_parts r) c)"
    using req by (auto simp: regular_file_inside_iff split: option.splits)
  moreover have "m_api m = 1" using valid by (simp add: API_VERSION_def)
  moreover have "rx_fullmatch POLICY_RE (m_policy m)" using valid by blast
  ultimately show ?thesis using Inr name inside load api by (auto simp: regular_file_inside_iff)
qed

section \<open>A path is not a word of the Dockerfile\<close>

text \<open>The requirements path is written into the Dockerfile as it is. A repository may hold a file
  whose name has a line break in it, and the manifest may name it: the lines after the break are
  instructions, and another \<open>FROM\<close> replaces the pinned base.\<close>

definition sample_requirements :: string where
  "sample_requirements = ''r'' @ [NL] @ ''FROM other'' @ [NL] @ ''RUN x''"

definition sample_checkout :: node where
  "sample_checkout = Folder [(''m'', Regular ''manifest''), (sample_requirements, Regular [])]"

definition sample_data :: yaml where
  "sample_data = YMap [(YStr ''api'', YInt 1), (YStr ''policy'', YStr ''p:P''), (YStr ''requirements'', YStr sample_requirements)]"

definition sample_resolution :: resolution where
  "sample_resolution = \<lparr>rn_root = Some [''c''], rn_path = (\<lambda>r. Some [''c'', r]), rn_is_file = (\<lambda>_. True)\<rparr>"

lemma sample_checkout_accepted:
  "\<exists>m. check_repository sample_spec sample_resolution (\<lambda>_. True) (\<lambda>_. Inr sample_data) sample_checkout = Inr m
     \<and> m_requirements m = Some sample_requirements"
proof -
  have keys: "submission_key_of sample_spec ''manifest'' = Inr (JStr ''m'')"
    "submission_key_of sample_spec ''manifest_api'' = Inr (JInt 1)"
    by (simp_all add: submission_key_of_def spec_section_def sample_spec_def sample_contract_def jget_JObj key_of_def)
  have inside: "regular_file_inside sample_checkout ''m'' = Inr ''manifest''"
    "regular_file_inside sample_checkout sample_requirements = Inr []"
    by code_simp+
  have "validate_manifest sample_resolution sample_data = Inr \<lparr>m_api = 1, m_policy = ''p:P'', m_kwargs = [],
      m_requirements = Some sample_requirements, m_benchmarks = []\<rparr>"
    by code_simp
  then have "load_manifest sample_resolution (\<lambda>_. True) (\<lambda>_. Inr sample_data) ''manifest'' = Inr \<lparr>m_api = 1, m_policy = ''p:P'',
      m_kwargs = [], m_requirements = Some sample_requirements, m_benchmarks = []\<rparr>"
    by (simp add: load_manifest_def MAX_BYTES_def)
  then show ?thesis by (simp add: check_repository_def judge_manifest_def keys inside whole_number_def py_int_def)
qed

lemma requirements_add_instructions:
  "\<exists>m. check_repository sample_spec sample_resolution (\<lambda>_. True) (\<lambda>_. Inr sample_data) sample_checkout = Inr m
     \<and> (\<exists>text. submission_dockerfile base (m_requirements m) sample_spec = Inr text \<and> ''FROM other'' \<in> set (split_on NL text))"
proof -
  from sample_checkout_accepted obtain m where m: "check_repository sample_spec sample_resolution (\<lambda>_. True) (\<lambda>_. Inr sample_data) sample_checkout = Inr m"
    "m_requirements m = Some sample_requirements" by blast
  have user: "sandbox_user sample_spec = Inr (1000, 1000)" by code_simp
  have cut: "split_on NL (a @ NL # b) = split_on NL a @ split_on NL b" for a b
    by (induction a) (auto split: list.splits)
  have mem: "q \<in> set (split_on NL (a @ NL # q @ NL # b))" if "NL \<notin> set q" for a b q
    using that by (simp add: cut split_on_no_sep)
  let ?pre = "join [NL] [''# '' @ b_digest base, ''FROM '' @ base_tag base,
      ''COPY --chown='' @ str_of_nat 1000 @ '':'' @ str_of_nat 1000 @ '' . '' @ SUBMISSION_DIR,
      ''RUN python -m pip install --no-cache-dir -r '' @ SUBMISSION_DIR @ ''/r'']"
  have "submission_dockerfile base (Some sample_requirements) sample_spec = Inr (?pre @ NL # ''FROM other'' @ NL # ''RUN x'' @ [NL])"
    by (simp add: submission_dockerfile_def user sample_requirements_def)
  moreover have "''FROM other'' \<in> set (split_on NL (?pre @ NL # ''FROM other'' @ NL # ''RUN x'' @ [NL]))"
    by (rule mem) simp
  ultimately show ?thesis using m by (intro exI [of _ m]) (auto simp del: join.simps)
qed

end
