(* ===== verification/Fetch.thy ===== *)
theory Fetch
  imports Resolve Checkout
begin

text \<open>
  \<open>submissions/fetch.py\<close>: a submission's repository at its commit, in a cache addressed by the
  commit. The cache is an entry per commit: its marker's text and its checkout, as the file system
  has them; a rename is one step, and so is the marker's atomic write. What other processes store
  between the first look and the lock is an argument, and so is what a download leaves in the
  directory it is given. \<open>LocalFetcher\<close>, which the tests and \<open>--local\<close> use, is not modelled.
\<close>

section \<open>The cache\<close>

record cache_entry =
  ce_marker :: "string option"
  ce_checkout :: "node option"

type_synonym cache = "(string \<times> cache_entry) list"

record fetched =
  ft_checkout :: node
  ft_bytes :: int
  ft_files :: int
  ft_cached :: bool

definition HUB_CACHE_DIR :: string where "HUB_CACHE_DIR = ''.cache''"

definition entry_at :: "cache \<Rightarrow> string \<Rightarrow> cache_entry" where
  "entry_at c sha = (case map_of c sha of None \<Rightarrow> \<lparr>ce_marker = None, ce_checkout = None\<rparr> | Some e \<Rightarrow> e)"

text \<open>\<open>measure\<close>: bytes and files under a directory; a link counts for its own size, what is neither a
  file nor a link for nothing.\<close>

fun measure_node :: "node \<Rightarrow> nat \<times> nat" where
  "measure_node (Regular content) = (length content, 1)"
| "measure_node (Link target) = (length target, 1)"
| "measure_node Special = (0, 0)"
| "measure_node (Folder kids) =
     foldr (\<lambda>kid acc. (fst (measure_node (snd kid)) + fst acc, snd (measure_node (snd kid)) + snd acc)) kids (0, 0)"

fun is_folder :: "node \<Rightarrow> bool" where
  "is_folder (Folder kids) \<longleftrightarrow> True" | "is_folder _ \<longleftrightarrow> False"

definition lookup_cache :: "cache \<Rightarrow> string \<Rightarrow> refusal + fetched option" where
  "lookup_cache c sha =
     (case (map_option loads (ce_marker (entry_at c sha)), ce_checkout (entry_at c sha)) of
        (Some (Some doc), Some tree) \<Rightarrow>
          if \<not> is_obj doc \<or> \<not> is_folder tree then Inr None
          else bindE (whole_number (jget_or doc ''bytes'' (JInt 0))) (\<lambda>b.
               bindE (whole_number (jget_or doc ''files'' (JInt 0))) (\<lambda>n.
               Inr (Some \<lparr>ft_checkout = tree, ft_bytes = b, ft_files = n, ft_cached = True\<rparr>)))
      | _ \<Rightarrow> Inr None)"

definition marker_doc :: "resolved \<Rightarrow> nat \<times> nat \<Rightarrow> string \<Rightarrow> json" where
  "marker_doc rs sz now = JObj [(''repo'', JStr (rs_repo rs)), (''revision'', JStr (rs_revision rs)), (''sha'', JStr (rs_sha rs)),
     (''bytes'', JInt (int (fst sz))), (''files'', JInt (int (snd sz))), (''fetched_at'', JStr now)]"

text \<open>\<open>_fill\<close>: nothing of the entry changes unless the checkout fits.\<close>

definition fill_cache :: "nat \<Rightarrow> string \<Rightarrow> resolved \<Rightarrow> refusal + node \<Rightarrow> cache \<Rightarrow> (refusal + fetched) \<times> cache" where
  "fill_cache most now rs filled c =
     (case filled of Inl e \<Rightarrow> (Inl e, c)
      | Inr tree \<Rightarrow>
        (let sz = measure_node tree in
         if fst sz > most then (Inl (Rejected ''fetch'' (On_Disk_Over (fst sz))), c)
         else (Inr \<lparr>ft_checkout = tree, ft_bytes = int (fst sz), ft_files = int (snd sz), ft_cached = False\<rparr>,
               upd (rs_sha rs) \<lparr>ce_marker = Some (pretty_json (marker_doc rs sz now)), ce_checkout = Some tree\<rparr> c)))"

text \<open>\<open>store\<close>: a second look under the lock of the commit, and only then the fill.\<close>

definition store_checkout :: "nat \<Rightarrow> string \<Rightarrow> resolved \<Rightarrow> refusal + node \<Rightarrow> cache \<Rightarrow> (refusal + fetched) \<times> cache" where
  "store_checkout most now rs filled c =
     (case lookup_cache c (rs_sha rs) of
        Inl e \<Rightarrow> (Inl e, c)
      | Inr (Some f) \<Rightarrow> (Inr f, c)
      | Inr None \<Rightarrow> fill_cache most now rs filled c)"

section \<open>The Hub\<close>

text \<open>What a download leaves: the directory's content, or the exception it raised - a rejection passes
  through, anything else is the harness's.\<close>

fun without_cache_dir :: "node \<Rightarrow> node" where
  "without_cache_dir (Folder kids) = Folder (filter (\<lambda>kid. fst kid \<noteq> HUB_CACHE_DIR \<or> \<not> is_folder (snd kid)) kids)"
| "without_cache_dir n = n"

definition snapshot_of :: "(refusal + string) + node \<Rightarrow> refusal + node" where
  "snapshot_of downloaded = (case downloaded of
       Inl (Inl (Rejected s why)) \<Rightarrow> Inl (Rejected s why)
     | Inl (Inl (Escapes x)) \<Rightarrow> Inl (Harness (Download_Failed x))
     | Inl (Inl (Harness r)) \<Rightarrow> Inl (Harness (Download_Failed []))
     | Inl (Inr text) \<Rightarrow> Inl (Harness (Download_Failed text))
     | Inr tree \<Rightarrow> Inr (without_cache_dir tree))"

definition unsized_files :: "resolved \<Rightarrow> string list" where
  "unsized_files rs = map fst (filter (\<lambda>f. snd f = None) (rs_files rs))"

definition hub_fetch :: "nat \<Rightarrow> string \<Rightarrow> (cache \<Rightarrow> cache) \<Rightarrow> resolved \<Rightarrow> (refusal + string) + node \<Rightarrow> cache \<Rightarrow> (refusal + fetched) \<times> cache" where
  "hub_fetch most now others rs downloaded c =
     (case lookup_cache c (rs_sha rs) of
        Inl e \<Rightarrow> (Inl e, c)
      | Inr (Some f) \<Rightarrow> (Inr f, c)
      | Inr None \<Rightarrow>
          if unsized_files rs \<noteq> [] then (Inl (Harness (Unsized (unsized_files rs))), c)
          else if declared_bytes rs > int most then (Inl (Rejected ''fetch'' (Declares_Over (declared_bytes rs))), c)
          else store_checkout most now rs (snapshot_of downloaded) (others c))"

section \<open>A checkout is within its cap\<close>

text \<open>What the cache promises of an entry whose marker reads: the checkout's own size, within the cap.\<close>

definition entry_ok :: "nat \<Rightarrow> cache_entry \<Rightarrow> bool" where
  "entry_ok most e \<longleftrightarrow> (\<forall>m doc tree. ce_marker e = Some m \<longrightarrow> loads m = Some doc \<longrightarrow> is_obj doc \<longrightarrow> ce_checkout e = Some tree
     \<longrightarrow> is_folder tree \<longrightarrow> (jget doc ''bytes'' = JInt (int (fst (measure_node tree)))
         \<and> jget doc ''files'' = JInt (int (snd (measure_node tree))) \<and> fst (measure_node tree) \<le> most))"

definition cache_ok :: "nat \<Rightarrow> cache \<Rightarrow> bool" where
  "cache_ok most c \<longleftrightarrow> (\<forall>sha. entry_ok most (entry_at c sha))"

lemma entry_at_upd [simp]: "entry_at (upd k e c) sha = (if sha = k then e else entry_at c sha)"
  by (simp add: entry_at_def)

lemma lookup_ok:
  assumes "cache_ok most c" and "lookup_cache c sha = Inr (Some f)"
  shows "ce_checkout (entry_at c sha) = Some (ft_checkout f)
    \<and> (ft_bytes f, ft_files f) = (int (fst (measure_node (ft_checkout f))), int (snd (measure_node (ft_checkout f))))
    \<and> fst (measure_node (ft_checkout f)) \<le> most"
proof -
  from assms(2) obtain m doc tree where e: "ce_marker (entry_at c sha) = Some m" "loads m = Some doc" "is_obj doc"
      "ce_checkout (entry_at c sha) = Some tree" "is_folder tree"
    and f: "bindE (whole_number (jget_or doc ''bytes'' (JInt 0))) (\<lambda>b.
               bindE (whole_number (jget_or doc ''files'' (JInt 0))) (\<lambda>n.
               Inr (Some \<lparr>ft_checkout = tree, ft_bytes = b, ft_files = n, ft_cached = True\<rparr>))) = Inr (Some f)"
    by (auto simp: lookup_cache_def split: option.splits if_splits)
  from assms(1) e have ok: "jget doc ''bytes'' = JInt (int (fst (measure_node tree)))"
      "jget doc ''files'' = JInt (int (snd (measure_node tree)))" "fst (measure_node tree) \<le> most"
    unfolding cache_ok_def entry_ok_def by blast+
  then have "jhas doc ''bytes''" "jhas doc ''files''" using jget_notin by fastforce+
  with f ok e show ?thesis by (auto simp: jget_or_def whole_number_def py_int_def bindE_Inr_iff)
qed

lemma marker_reads:
  "loads (pretty_json (marker_doc rs sz now)) = Some doc \<Longrightarrow>
     jget doc ''bytes'' = JInt (int (fst sz)) \<and> jget doc ''files'' = JInt (int (snd sz))"
proof -
  have wf: "wf_json (marker_doc rs sz now)" by (simp add: marker_doc_def)
  assume "loads (pretty_json (marker_doc rs sz now)) = Some doc"
  with loads_pretty [OF wf] have "doc = jsort (marker_doc rs sz now)" by simp
  with jget_jsort [OF wf] show ?thesis by (simp add: marker_doc_def jget_JObj)
qed

lemma fill_ok:
  assumes "cache_ok most c" and "fill_cache most now rs filled c = (res, c')"
  shows "cache_ok most c' \<and> (\<forall>sha. sha \<noteq> rs_sha rs \<longrightarrow> entry_at c' sha = entry_at c sha)
    \<and> (case res of Inl _ \<Rightarrow> c' = c | Inr f \<Rightarrow> ce_checkout (entry_at c' (rs_sha rs)) = Some (ft_checkout f)
        \<and> (ft_bytes f, ft_files f) = (int (fst (measure_node (ft_checkout f))), int (snd (measure_node (ft_checkout f))))
        \<and> fst (measure_node (ft_checkout f)) \<le> most)"
proof (cases filled)
  case (Inl e)
  with assms show ?thesis by (auto simp: fill_cache_def)
next
  case (Inr tree)
  show ?thesis
  proof (cases "fst (measure_node tree) > most")
    case True
    with assms Inr show ?thesis by (auto simp: fill_cache_def Let_def)
  next
    case False
    have "entry_ok most \<lparr>ce_marker = Some (pretty_json (marker_doc rs (measure_node tree) now)), ce_checkout = Some tree\<rparr>"
      using False by (auto simp: entry_ok_def dest: marker_reads)
    with assms Inr False show ?thesis by (auto simp: fill_cache_def Let_def cache_ok_def)
  qed
qed

lemma store_ok:
  assumes "cache_ok most c" and "store_checkout most now rs filled c = (res, c')"
  shows "cache_ok most c' \<and> (\<forall>sha. sha \<noteq> rs_sha rs \<longrightarrow> entry_at c' sha = entry_at c sha)
    \<and> (case res of Inl _ \<Rightarrow> c' = c | Inr f \<Rightarrow> ce_checkout (entry_at c' (rs_sha rs)) = Some (ft_checkout f)
        \<and> (ft_bytes f, ft_files f) = (int (fst (measure_node (ft_checkout f))), int (snd (measure_node (ft_checkout f))))
        \<and> fst (measure_node (ft_checkout f)) \<le> most)"
proof -
  consider (err) e where "lookup_cache c (rs_sha rs) = Inl e" | (hit) f where "lookup_cache c (rs_sha rs) = Inr (Some f)"
    | (miss) "lookup_cache c (rs_sha rs) = Inr None"
    by (metis old.sum.exhaust option.exhaust)
  then show ?thesis
  proof cases
    case err
    with assms show ?thesis by (auto simp: store_checkout_def)
  next
    case hit
    with assms lookup_ok [OF assms(1) hit] show ?thesis by (auto simp: store_checkout_def)
  next
    case miss
    with assms fill_ok [OF assms(1)] show ?thesis by (simp add: store_checkout_def)
  qed
qed


definition sample_resolved :: resolved where
  "sample_resolved = \<lparr>rs_repo = ''o/n'', rs_revision = ''main'', rs_sha = ''abc'', rs_files = [(''f'', Some 2)]\<rparr>"


end
