(* ===== verification/Poll.thy ===== *)
theory Poll
  imports Main
begin

text \<open>
  Loops that look at something until it is decided: the wait for a container to listen, the grace
  a container gets to end. \<open>poll\<close> is the loop, over the looks in the order they come; it may never
  end. A loop with a deadline, \<open>deadlined\<close>, decides every look at which the deadline has passed,
  and so returns as soon as a look is that late.
\<close>

partial_function (option) poll :: "(nat \<Rightarrow> 'l) \<Rightarrow> ('l \<Rightarrow> 'r option) \<Rightarrow> nat \<Rightarrow> 'r option" where
  "poll looks decide n = (case decide (looks n) of Some r \<Rightarrow> Some r | None \<Rightarrow> poll looks decide (n + 1))"

lemma poll_decides: "decide (looks n) = Some r \<Longrightarrow> poll looks decide n = Some r"
  by (simp add: poll.simps)

lemma poll_again: "decide (looks n) = None \<Longrightarrow> poll looks decide n = poll looks decide (Suc n)"
  by (subst poll.simps) simp

lemma poll_first:
  "(\<And>i. m \<le> i \<Longrightarrow> i < m + k \<Longrightarrow> decide (looks i) = None) \<Longrightarrow> poll looks decide m = poll looks decide (m + k)"
  by (induction k) (simp_all add: poll_again)

text \<open>An answer is what some look decided.\<close>

lemma poll_result:
  assumes "poll looks decide n = Some r" shows "\<exists>k \<ge> n. decide (looks k) = Some r"
proof (rule poll.raw_induct [OF _ assms, where P = "\<lambda>looks decide n r. \<exists>k \<ge> n. decide (looks k) = Some r"], goal_cases)
  case (1 self looks decide n r)
  show ?case
  proof (cases "decide (looks n)")
    case None
    with 1(2) have "self looks decide (n + 1) = Some r" by simp
    from 1(1) [OF this] show ?thesis by (meson add_leD1)
  qed (use 1(2) in auto)
qed

text \<open>The first decided look is the answer.\<close>

lemma poll_returns:
  assumes "decide (looks k) \<noteq> None"
  shows "\<exists>n \<le> k. decide (looks n) \<noteq> None \<and> (\<forall>i < n. decide (looks i) = None) \<and> poll looks decide 0 = decide (looks n)"
proof -
  define n where "n = (LEAST i. decide (looks i) \<noteq> None)"
  have n: "decide (looks n) \<noteq> None" "n \<le> k" unfolding n_def using assms by (auto intro: LeastI Least_le)
  have before: "\<forall>i < n. decide (looks i) = None" unfolding n_def using not_less_Least by blast
  have "poll looks decide 0 = poll looks decide (0 + n)" by (rule poll_first) (use before in auto)
  also have "\<dots> = decide (looks n)" using n(1) by (auto simp: poll_decides)
  finally show ?thesis using n before by blast
qed

locale deadlined =
  fixes decide :: "'l \<Rightarrow> 'r option" and late :: "'l \<Rightarrow> bool"
  assumes late_decides: "late l \<Longrightarrow> decide l \<noteq> None"
begin

lemma returns:
  assumes "late (looks k)"
  shows "\<exists>n \<le> k. decide (looks n) \<noteq> None \<and> (\<forall>i < n. decide (looks i) = None) \<and> poll looks decide 0 = decide (looks n)"
  by (rule poll_returns) (rule late_decides [OF assms])

end

end
