(* ===== verification/Policy_Container.thy ===== *)
theory Policy_Container
  imports Container Poll Records
begin

text \<open>
  The host's side of \<open>submissions/container.py\<close>: the shared directory mounted and released, the
  containers of dead processes reaped, and one policy container started, waited for, asked \<open>hello\<close>
  and closed. The engine's state also holds what the mount commands and the directories change; a
  machine says how. The looks of a wait are what each of its rounds sees.
\<close>

section \<open>The machine\<close>

datatype command_answer = Cannot_Run | Status int

record 'd machine =
  mc_engine :: "'d engine"
  mc_can_bound :: bool
  mc_me :: "owner option"
  mc_proc :: "'d \<Rightarrow> proc"
  mc_shared :: "string \<Rightarrow> 'd \<Rightarrow> bool"
  mc_command :: "string list \<Rightarrow> 'd \<Rightarrow> command_answer \<times> 'd"
  mc_make_dir :: "string \<Rightarrow> 'd \<Rightarrow> 'd"
  mc_own :: "string \<Rightarrow> nat \<Rightarrow> nat \<Rightarrow> 'd \<Rightarrow> bool \<times> 'd"
  mc_unlink :: "string \<Rightarrow> 'd \<Rightarrow> 'd"
  mc_plain_file :: "string \<Rightarrow> nat \<Rightarrow> 'd \<Rightarrow> string option"
  mc_write :: "string \<Rightarrow> string \<Rightarrow> 'd \<Rightarrow> 'd"

section \<open>The shared directory\<close>

definition mount_command :: "'d machine \<Rightarrow> string list \<Rightarrow> ('d, unit) step" where
  "mount_command mc argv d = (case mc_command mc argv d of
       (Status n, d') \<Rightarrow> (if n = 0 then (Inr (), d') else (Inl (Harness Not_Mounted), d'))
     | (Cannot_Run, d') \<Rightarrow> (Inl (Harness Not_Mounted), d'))"

definition mount_options :: "nat \<Rightarrow> nat \<Rightarrow> string" where
  "mount_options u g = join '','' ([''size='' @ str_of_nat SHARED_DIR_BYTES @ '',nr_inodes='' @ str_of_nat SHARED_DIR_INODES
     @ '',uid='' @ str_of_nat u @ '',gid='' @ str_of_nat g @ '',mode=0700''] @ SHARED_DIR_HARDENING)"

definition mount_shared_dir :: "'d machine \<Rightarrow> string \<Rightarrow> nat \<Rightarrow> nat \<Rightarrow> ('d, unit) step" where
  "mount_shared_dir mc dir u g =
     mount_command mc [''mount'', ''-t'', ''tmpfs'', ''-o'', mount_options u g, SHARED_DIR_SOURCE, dir]"

definition unmount_shared_dir :: "'d machine \<Rightarrow> string \<Rightarrow> ('d, unit) step" where
  "unmount_shared_dir mc dir d = (case mount_command mc [''umount'', dir] d of
       (Inl (Harness _), d') \<Rightarrow> mount_command mc [''umount'', ''--lazy'', dir] d'
     | r \<Rightarrow> r)"

definition socket_path :: "string \<Rightarrow> string" where
  "socket_path dir = dir @ ''/'' @ SOCKET_FILE"

definition log_path :: "string \<Rightarrow> string" where
  "log_path dir = dir @ ''/'' @ LOG_FILE"

definition prepare_socket_dir :: "'d machine \<Rightarrow> contract \<Rightarrow> string \<Rightarrow> bool option \<Rightarrow> ('d, bool) step" where
  "prepare_socket_dir mc sp dir bounded =
     next_step (lift (sandbox_user sp)) (\<lambda>(u, g).
     let b = (case bounded of None \<Rightarrow> mc_can_bound mc | Some b \<Rightarrow> b) in
     next_step (\<lambda>d. (Inr (), mc_make_dir mc dir d)) (\<lambda>_.
     next_step (\<lambda>d. if mc_shared mc dir d then unmount_shared_dir mc dir d else (Inr (), d)) (\<lambda>_.
     next_step (if b then mount_shared_dir mc dir u g else done_with ()) (\<lambda>_.
     next_step (\<lambda>d. case mc_own mc dir u g d of (owned, d') \<Rightarrow>
         if owned then (Inr (), d') else (Inl (Harness Not_Owned), d')) (\<lambda>_ d.
     (Inr b, mc_unlink mc (log_path dir) (mc_unlink mc (socket_path dir) d)))))))"

definition release_socket_dir :: "'d machine \<Rightarrow> string \<Rightarrow> ('d, unit) step" where
  "release_socket_dir mc dir d =
     (let kept = mc_plain_file mc (log_path dir) SHARED_DIR_BYTES d in
      next_step (unmount_shared_dir mc dir) (\<lambda>_ d'.
        (Inr (), case kept of None \<Rightarrow> d' | Some tx \<Rightarrow> mc_write mc (log_path dir) tx d')) d)"

section \<open>Containers left behind\<close>

text \<open>Whether a container's process is known, of this pid namespace, not this process, and gone.\<close>

definition abandoned :: "proc \<Rightarrow> owner \<Rightarrow> container_info \<Rightarrow> bool" where
  "abandoned pr me found = (case owner_from_labels (ci_labels found) of
       None \<Rightarrow> False
     | Some o' \<Rightarrow> ow_pidns o' = ow_pidns me \<and> o' \<noteq> me \<and> owner_gone pr o')"

text \<open>A release that fails with the harness's error is passed over; the exception of none is not.\<close>

definition passing_over :: "('d, unit) step \<Rightarrow> ('d, unit) step" where
  "passing_over m d = (case m d of (Inl (Harness _), d') \<Rightarrow> (Inr (), d') | r \<Rightarrow> r)"

fun reap_listed :: "'d machine \<Rightarrow> owner \<Rightarrow> container_info list \<Rightarrow> string list \<Rightarrow> ('d, string list) step" where
  "reap_listed mc me [] reaped d = (Inr reaped, d)"
| "reap_listed mc me (found # rest) reaped d =
     (if \<not> abandoned (mc_proc mc d) me found then reap_listed mc me rest reaped d
      else (let d1 = remove_container (mc_engine mc) (ci_name found) d;
                release = (case map_of (ci_labels found) SHARED_DIR_LABEL of
                   Some dir \<Rightarrow> if dir \<noteq> [] \<and> mc_shared mc dir d1 then passing_over (release_socket_dir mc dir) else done_with ()
                 | None \<Rightarrow> done_with ())
            in next_step release (\<lambda>_. reap_listed mc me rest (reaped @ [ci_name found])) d1))"

definition reap_orphans :: "'d machine \<Rightarrow> ('d, string list) step" where
  "reap_orphans mc d = (case mc_me mc of None \<Rightarrow> (Inr [], d)
     | Some me \<Rightarrow> (case by_docker (policy_containers (mc_engine mc)) d of
         (Inl (Harness _), d') \<Rightarrow> (Inr [], d')
       | (Inl e, d') \<Rightarrow> (Inl e, d')
       | (Inr listed, d') \<Rightarrow> reap_listed mc me listed [] d'))"

section \<open>One policy container\<close>

record policy_container =
  pc_image :: string
  pc_name :: string
  pc_dir :: string
  pc_gpus :: "int option"
  pc_bounded :: "bool option"
  pc_authkey :: string
  pc_started :: "rat option"
  pc_listening :: "rat option"
  pc_session :: "rat option"
  pc_reaped :: "string list"
  pc_closed :: bool
  pc_ran :: bool

definition new_container :: "string \<Rightarrow> string \<Rightarrow> string \<Rightarrow> int option \<Rightarrow> bool option \<Rightarrow> string \<Rightarrow> policy_container" where
  "new_container img name dir gpus bounded authkey =
     \<lparr>pc_image = img, pc_name = name, pc_dir = dir, pc_gpus = gpus, pc_bounded = bounded, pc_authkey = authkey,
      pc_started = None, pc_listening = None, pc_session = None, pc_reaped = [], pc_closed = False, pc_ran = False\<rparr>"

text \<open>What a raise leaves: the error, the container as far as it came and the machine.\<close>

type_synonym 'd started = "(refusal + unit) \<times> policy_container \<times> 'd"

definition start_container :: "'d machine \<Rightarrow> contract \<Rightarrow> rat \<Rightarrow> policy_container \<Rightarrow> 'd \<Rightarrow> 'd started" where
  "start_container mc sp now pc d =
     (case reap_orphans mc d of (Inl e, d1) \<Rightarrow> (Inl e, pc, d1)
      | (Inr reaped, d1) \<Rightarrow>
        (let pc1 = pc\<lparr>pc_reaped := reaped\<rparr> in
         case prepare_socket_dir mc sp (pc_dir pc) (pc_bounded pc) d1 of (Inl e, d2) \<Rightarrow> (Inl e, pc1, d2)
         | (Inr b, d2) \<Rightarrow>
           (let pc2 = pc1\<lparr>pc_bounded := Some b\<rparr> in
            case run_argv sp (pc_image pc) (pc_name pc) (pc_dir pc) (pc_gpus pc) (mc_me mc) of
              Inl e \<Rightarrow> (Inl e, pc2, d2)
            | Inr args \<Rightarrow>
              (let pc3 = pc2\<lparr>pc_ran := True, pc_started := Some now\<rparr> in
               case by_docker (docker_run (mc_engine mc) args [(AUTHKEY_ENV, pc_authkey pc)]) d2 of
                 (Inl e, d3) \<Rightarrow> (Inl e, pc3, d3)
               | (Inr _, d3) \<Rightarrow> (Inr (), pc3, d3)))))"

text \<open>One round of a wait: whether the path is a socket itself, what \<open>docker inspect\<close> said and the
  clock; what is not reached in a round is not looked at.\<close>

record look =
  lk_socket :: bool
  lk_state :: "docker_error + container_state"
  lk_now :: rat

definition docker_refusal :: "docker_error \<Rightarrow> refusal" where
  "docker_refusal e = (case e of Docker_Raises why \<Rightarrow> Escapes why | _ \<Rightarrow> Harness (Docker_Says e))"

text \<open>What a failure quotes: the end of the server's log, else what \<open>docker logs\<close> says, which may fail.\<close>

definition log_tail :: "string \<Rightarrow> docker_error + string \<Rightarrow> docker_error + string" where
  "log_tail served logs = (if served \<noteq> [] then Inr served else logs)"

definition wait_decides :: "rat \<Rightarrow> rat \<Rightarrow> docker_error + string \<Rightarrow> look \<Rightarrow> (refusal + rat) option" where
  "wait_decides started deadline said l =
     (let rejects = (\<lambda>why. Inl (case said of Inl e \<Rightarrow> docker_refusal e | Inr text \<Rightarrow> Rejected ''start'' (why text))) in
      if lk_socket l then Some (Inr (round3 (fsub (lk_now l) started)))
      else case lk_state l of
        Inl e \<Rightarrow> Some (Inl (docker_refusal e))
      | Inr st \<Rightarrow>
          if \<not> cs_running st then Some (rejects (Exited (cs_exit st) (cs_error st)))
          else if deadline \<le> lk_now l then Some (rejects Never_Listened)
          else None)"

definition wait_listening :: "rat \<Rightarrow> rat \<Rightarrow> docker_error + string \<Rightarrow> (nat \<Rightarrow> look) \<Rightarrow> (refusal + rat) option" where
  "wait_listening started deadline said looks = poll looks (wait_decides started deadline said) 0"

interpretation listen: deadlined "wait_decides started deadline said" "\<lambda>l. deadline \<le> lk_now l"
  by unfold_locales (auto simp: wait_decides_def Let_def split: sum.split)

text \<open>\<open>float(spec.budgets[k])\<close>; an accepted contract's budgets are numbers.\<close>

definition budget_seconds :: "contract \<Rightarrow> string \<Rightarrow> refusal + rat" where
  "budget_seconds sp k = (case num_of (jget (spec_section sp ''budgets'') k) of
     None \<Rightarrow> Inl (Escapes ''TypeError'') | Some b \<Rightarrow> Inr (fl64 b))"

text \<open>\<open>hello\<close> of a started container: what the session answered is \<open>Inl\<close> the reason the policy is
  unavailable. The wait may not return, and then neither does this.\<close>

definition greet :: "contract \<Rightarrow> rat \<Rightarrow> rat \<Rightarrow> (nat \<Rightarrow> look) \<Rightarrow> docker_error + string \<Rightarrow> string + json \<Rightarrow> policy_container
    \<Rightarrow> ((refusal + json) \<times> policy_container) option" where
  "greet sp started timeout looks said answer pc =
     (case wait_listening started (fadd started timeout) said looks of
        None \<Rightarrow> None
      | Some (Inl e) \<Rightarrow> Some (Inl e, pc)
      | Some (Inr after) \<Rightarrow>
          let pc1 = pc\<lparr>pc_listening := Some after\<rparr> in
          (case answer of Inl why \<Rightarrow> Some (Inl (Rejected ''hello'' (No_Hello why)), pc1)
           | Inr reply \<Rightarrow> (case budget_seconds sp ''act_timeout_s'' of
               Inl e \<Rightarrow> Some (Inl e, pc1)
             | Inr bound \<Rightarrow> Some (Inr reply, pc1\<lparr>pc_session := Some bound\<rparr>))))"

text \<open>A container not started yet is started first, at the time \<open>now\<close>.\<close>

definition say_hello :: "'d machine \<Rightarrow> contract \<Rightarrow> rat \<Rightarrow> rat \<Rightarrow> (nat \<Rightarrow> look) \<Rightarrow> docker_error + string \<Rightarrow> string + json
    \<Rightarrow> policy_container \<Rightarrow> 'd \<Rightarrow> ((refusal + json) \<times> policy_container \<times> 'd) option" where
  "say_hello mc sp now timeout looks said answer pc d =
     (case (if pc_started pc = None then start_container mc sp now pc d else (Inr (), pc, d)) of
        (Inl e, pc1, d1) \<Rightarrow> Some (Inl e, pc1, d1)
      | (Inr _, pc1, d1) \<Rightarrow>
          (case greet sp (the (pc_started pc1)) timeout looks said answer pc1 of
             None \<Rightarrow> None | Some (r, pc2) \<Rightarrow> Some (r, pc2, d1)))"

definition close_container :: "'d machine \<Rightarrow> policy_container \<Rightarrow> ('d, policy_container) step" where
  "close_container mc pc d =
     (if pc_closed pc then (Inr pc, d)
      else let pc1 = pc\<lparr>pc_closed := True, pc_session := None\<rparr>;
               d1 = (if pc_ran pc then remove_container (mc_engine mc) (pc_name pc) d else d)
           in next_step (if pc_bounded pc = Some True then passing_over (release_socket_dir mc (pc_dir pc)) else done_with ())
                (\<lambda>_. done_with pc1) d1)"

section \<open>Waiting ends\<close>

lemma wait_undecided:
  "wait_decides started deadline said l = None \<Longrightarrow>
     \<not> lk_socket l \<and> (\<exists>st. lk_state l = Inr st \<and> cs_running st) \<and> lk_now l < deadline"
  by (cases "lk_state l") (auto simp: wait_decides_def Let_def split: if_splits)

lemma wait_decided:
  "wait_decides started deadline said l = Some r \<Longrightarrow> ((\<exists>t. r = Inr t) \<longleftrightarrow> lk_socket l)
     \<and> (\<forall>s why. r = Inl (Rejected s why) \<longrightarrow> (\<exists>st. lk_state l = Inr st \<and> (\<not> cs_running st \<or> deadline \<le> lk_now l)))"
  by (cases "lk_state l"; cases said)
    (auto simp: wait_decides_def Let_def docker_refusal_def split: if_splits docker_error.splits)

text \<open>C23. The wait for a policy to listen returns within its budget: if the clock has reached the
  deadline at some round, the wait has returned by then, with what the first round that decided
  saw. It succeeds exactly when that round saw the socket; a policy is rejected only for a
  container that had exited or that was still not listening at the deadline.\<close>

theorem wait_returns:
  assumes "deadline \<le> lk_now (looks k)"
  shows "\<exists>n \<le> k. \<exists>r. wait_listening started deadline said looks = Some r
    \<and> (\<forall>i < n. \<not> lk_socket (looks i) \<and> (\<exists>st. lk_state (looks i) = Inr st \<and> cs_running st) \<and> lk_now (looks i) < deadline)
    \<and> ((\<exists>t. r = Inr t) \<longleftrightarrow> lk_socket (looks n))
    \<and> (\<forall>s why. r = Inl (Rejected s why) \<longrightarrow> (\<exists>st. lk_state (looks n) = Inr st \<and> (\<not> cs_running st \<or> deadline \<le> lk_now (looks n))))"
proof -
  from listen.returns [where looks = looks and k = k and deadline = deadline and started = started and said = said] assms obtain n r where n: "n \<le> k"
    and r: "wait_decides started deadline said (looks n) = Some r"
    and before: "\<forall>i<n. wait_decides started deadline said (looks i) = None"
    and run: "wait_listening started deadline said looks = Some r"
    by (auto simp: wait_listening_def)
  show ?thesis using n run wait_decided [OF r] before wait_undecided by blast
qed

definition sample_looks :: "nat \<Rightarrow> look" where
  "sample_looks n = \<lparr>lk_socket = (n = 2),
     lk_state = Inr \<lparr>cs_running = True, cs_exit = None, cs_error = [], cs_oom = False\<rparr>, lk_now = of_nat n\<rparr>"

theorem wait_returns_witness:
  "\<exists>r (n :: nat). wait_listening 0 5 (Inr []) sample_looks = Some r \<and> n \<le> 5 \<and> ((\<exists>t. r = Inr t) \<longleftrightarrow> n = 2)"
  using wait_returns [where deadline = 5 and looks = sample_looks and k = 5 and started = 0 and said = "Inr []"]
  unfolding sample_looks_def by auto

end
