(* ===== verification/Check.thy ===== *)
theory Check
  imports Fetch Policy_Container
begin

text \<open>
  \<open>submissions/check.py\<close>: a submission taken through every step - resolve, fetch, manifest, build,
  start, hello - each reported, stopping at the first that fails; the container is closed whatever
  happened. It composes the components before it: what the Hub, PyYAML, the file system, Docker and
  the clock do are the fields of a surroundings. A step's elapsed seconds and the words of its
  detail are not kept; the reason of a failed step is.
\<close>

section \<open>The report\<close>

definition STEPS :: "string list" where
  "STEPS = [''resolve'', ''fetch'', ''manifest'', ''build'', ''start'', ''hello'']"

definition CONTAINER_PREFIX :: string where "CONTAINER_PREFIX = ''icil-policy''"

record check_step =
  st_name :: string
  st_status :: string
  st_reason :: "reason option"

record report =
  rp_repo :: string
  rp_revision :: string
  rp_steps :: "check_step list"
  rp_sha :: "string option"
  rp_key :: "string option"
  rp_bytes :: "int option"
  rp_files :: "int option"
  rp_policy :: "string option"
  rp_base :: "string option"
  rp_tag :: "string option"
  rp_image :: "string option"
  rp_listening :: "rat option"
  rp_hello :: "json option"

definition pending_step :: "string \<Rightarrow> check_step" where
  "pending_step name = \<lparr>st_name = name, st_status = ''pending'', st_reason = None\<rparr>"

definition new_report :: "string \<Rightarrow> string \<Rightarrow> report" where
  "new_report rp rv = \<lparr>rp_repo = rp, rp_revision = rv, rp_steps = map pending_step STEPS, rp_sha = None, rp_key = None,
     rp_bytes = None, rp_files = None, rp_policy = None, rp_base = None, rp_tag = None, rp_image = None,
     rp_listening = None, rp_hello = None\<rparr>"

definition report_ok :: "report \<Rightarrow> bool" where
  "report_ok r \<longleftrightarrow> list_all (\<lambda>s. st_status s = ''ok'') (rp_steps r)"

definition failed_step :: "report \<Rightarrow> check_step option" where
  "failed_step r = List.find (\<lambda>s. st_status s \<in> {''rejected'', ''error''}) (rp_steps r)"

definition report_verdict :: "report \<Rightarrow> string" where
  "report_verdict r = (case failed_step r of Some s \<Rightarrow> st_status s
     | None \<Rightarrow> if report_ok r then ''accepted'' else ''error'')"

text \<open>What an event carries of the submission as one side of a duel.\<close>

definition opt_str :: "string option \<Rightarrow> json" where
  "opt_str s = (case s of None \<Rightarrow> JNull | Some t \<Rightarrow> JStr t)"

definition report_side :: "(reason \<Rightarrow> string) \<Rightarrow> report \<Rightarrow> json" where
  "report_side words r = (let hello = (case rp_hello r of Some h \<Rightarrow> or_empty h | None \<Rightarrow> JObj []) in
     JObj [(''key'', opt_str (rp_key r)), (''repo'', JStr (rp_repo r)), (''revision'', opt_str (rp_sha r)),
       (''base_image'', opt_str (rp_base r)), (''image'', opt_str (rp_image r)), (''policy'', opt_str (rp_policy r)),
       (''action_type'', jget hello ''action_type''), (''protocol'', jget hello ''protocol''),
       (''start_seconds'', case rp_listening r of None \<Rightarrow> JNull | Some t \<Rightarrow> JFloat t),
       (''verdict'', JStr (report_verdict r)),
       (''reason'', case failed_step r of None \<Rightarrow> JNull | Some s \<Rightarrow> opt_str (map_option words (st_reason s)))])"

definition mark :: "string \<Rightarrow> string \<Rightarrow> reason option \<Rightarrow> check_step list \<Rightarrow> check_step list" where
  "mark name status why = map (\<lambda>s. if st_name s = name then s\<lparr>st_status := status, st_reason := why\<rparr> else s)"

section \<open>The surroundings and the state\<close>

record 'd surroundings =
  su_spec :: contract
  su_api :: hub_api
  su_cap :: nat
  su_now :: string
  su_others :: "cache \<Rightarrow> cache"
  su_download :: "resolved \<Rightarrow> (refusal + string) + node"
  su_resolution :: "node \<Rightarrow> resolution"
  su_decodes :: "string \<Rightarrow> bool"
  su_yload :: "string \<Rightarrow> string + yaml"
  su_machine :: "'d machine"
  su_base :: "string option"
  su_gpus :: "int option"
  su_checkout :: string
  su_bare :: string
  su_probe :: string
  su_token :: string
  su_authkey :: string
  su_work :: string
  su_start :: rat
  su_looks :: "nat \<Rightarrow> look"
  su_said :: "docker_error + string"
  su_answer :: "string + json"

record 'd check_state =
  cg_report :: report
  cg_resolved :: "(resolved \<times> submission_ref) option"
  cg_fetched :: "fetched option"
  cg_manifest :: "manifest option"
  cg_built :: "built_image option"
  cg_container :: "policy_container option"
  cg_cache :: cache
  cg_machine :: 'd

text \<open>A step ends with what it raised, if anything, and the state; a wait that never ends is \<open>None\<close>.\<close>

type_synonym 'd act = "'d check_state \<Rightarrow> (refusal option \<times> 'd check_state) option"

definition do_resolve :: "'d surroundings \<Rightarrow> 'd act" where
  "do_resolve su cg =
     (case resolve (su_api su) (rp_repo (cg_report cg)) (rp_revision (cg_report cg)) of
        Inl e \<Rightarrow> Some (Some e, cg)
      | Inr rs \<Rightarrow> (case ref_of rs of
            Inl _ \<Rightarrow> Some (Some (Escapes ''ValueError''), cg)
          | Inr r \<Rightarrow> Some (None, cg\<lparr>cg_resolved := Some (rs, r),
              cg_report := (cg_report cg)\<lparr>rp_sha := Some (revision r), rp_key := Some (key r)\<rparr>\<rparr>)))"

definition do_fetch :: "'d surroundings \<Rightarrow> 'd act" where
  "do_fetch su cg =
     (case cg_resolved cg of None \<Rightarrow> Some (Some (Escapes ''NameError''), cg)
      | Some (rs, r) \<Rightarrow>
        (case hub_fetch (su_cap su) (su_now su) (su_others su) rs (su_download su rs) (cg_cache cg) of
           (Inl e, c) \<Rightarrow> Some (Some e, cg\<lparr>cg_cache := c\<rparr>)
         | (Inr f, c) \<Rightarrow> Some (None, cg\<lparr>cg_cache := c, cg_fetched := Some f,
             cg_report := (cg_report cg)\<lparr>rp_bytes := Some (ft_bytes f), rp_files := Some (ft_files f)\<rparr>\<rparr>)))"

definition do_manifest :: "'d surroundings \<Rightarrow> 'd act" where
  "do_manifest su cg =
     (case cg_fetched cg of None \<Rightarrow> Some (Some (Escapes ''NameError''), cg)
      | Some f \<Rightarrow>
        (case check_repository (su_spec su) (su_resolution su (ft_checkout f)) (su_decodes su) (su_yload su) (ft_checkout f) of
           Inl e \<Rightarrow> Some (Some e, cg)
         | Inr m \<Rightarrow> Some (None, cg\<lparr>cg_manifest := Some m, cg_report := (cg_report cg)\<lparr>rp_policy := Some (m_policy m)\<rparr>\<rparr>)))"

definition do_build :: "'d surroundings \<Rightarrow> 'd act" where
  "do_build su cg =
     (case (cg_manifest cg, cg_resolved cg) of
        (Some m, Some (rs, r)) \<Rightarrow>
          (case base_image_of (su_spec su) (su_base su) of
             Inl e \<Rightarrow> Some (Some e, cg)
           | Inr base \<Rightarrow>
              (let cg1 = cg\<lparr>cg_report := (cg_report cg)\<lparr>rp_base := Some (b_digest base)\<rparr>\<rparr> in
               case build_submission_image (mc_engine (su_machine su)) (su_spec su) (su_checkout su) (m_requirements m) r base
                   (su_bare su) (su_probe su) (cg_machine cg) of
                 (Inl e, d) \<Rightarrow> Some (Some e, cg1\<lparr>cg_machine := d\<rparr>)
               | (Inr b, d) \<Rightarrow> Some (None, cg1\<lparr>cg_machine := d, cg_built := Some b,
                   cg_report := (cg_report cg1)\<lparr>rp_tag := Some (bi_tag b), rp_image := Some (bi_id b)\<rparr>\<rparr>)))
      | _ \<Rightarrow> Some (Some (Escapes ''NameError''), cg))"

definition do_start :: "'d surroundings \<Rightarrow> 'd act" where
  "do_start su cg =
     (case (cg_built cg, cg_resolved cg) of
        (Some b, Some (rs, r)) \<Rightarrow>
          (let pc = new_container (bi_tag b) (CONTAINER_PREFIX @ ''-'' @ key r @ ''-'' @ su_token su) (su_work su @ ''/policy'')
                 (su_gpus su) None (su_authkey su);
               (res, pc', d) = start_container (su_machine su) (su_spec su) (su_start su) pc (cg_machine cg)
           in Some (case res of Inl e \<Rightarrow> Some e | Inr _ \<Rightarrow> None, cg\<lparr>cg_container := Some pc', cg_machine := d\<rparr>))
      | _ \<Rightarrow> Some (Some (Escapes ''NameError''), cg))"

definition do_hello :: "'d surroundings \<Rightarrow> 'd act" where
  "do_hello su cg =
     (case (cg_container cg, budget_seconds (su_spec su) ''policy_start_seconds'') of
        (Some pc, Inr budget) \<Rightarrow>
          (case say_hello (su_machine su) (su_spec su) (su_start su) budget (su_looks su) (su_said su) (su_answer su) pc (cg_machine cg) of
             None \<Rightarrow> None
           | Some (Inl e, pc', d) \<Rightarrow> Some (Some e, cg\<lparr>cg_container := Some pc', cg_machine := d\<rparr>)
           | Some (Inr reply, pc', d) \<Rightarrow> Some (None, cg\<lparr>cg_container := Some pc', cg_machine := d,
               cg_report := (cg_report cg)\<lparr>rp_hello := Some reply, rp_listening := pc_listening pc'\<rparr>\<rparr>))
      | (Some pc, Inl e) \<Rightarrow> Some (Some e, cg)
      | _ \<Rightarrow> Some (Some (Escapes ''NameError''), cg))"

definition all_steps :: "'d surroundings \<Rightarrow> (string \<times> 'd act) list" where
  "all_steps su = [(''resolve'', do_resolve su), (''fetch'', do_fetch su), (''manifest'', do_manifest su),
     (''build'', do_build su), (''start'', do_start su), (''hello'', do_hello su)]"

definition on_steps :: "(check_step list \<Rightarrow> check_step list) \<Rightarrow> 'd check_state \<Rightarrow> 'd check_state" where
  "on_steps f cg = cg\<lparr>cg_report := (cg_report cg)\<lparr>rp_steps := f (rp_steps (cg_report cg))\<rparr>\<rparr>"

text \<open>The steps in order, to the first that raises: what it raised and which step was current.\<close>

fun run_steps :: "(string \<times> 'd act) list \<Rightarrow> 'd check_state \<Rightarrow> ((refusal \<times> string) option \<times> 'd check_state) option" where
  "run_steps [] cg = Some (None, cg)"
| "run_steps ((name, act) # rest) cg =
     (case act cg of None \<Rightarrow> None
      | Some (Some e, cg') \<Rightarrow> Some (Some (e, name), cg')
      | Some (None, cg') \<Rightarrow> run_steps rest (on_steps (mark name ''ok'' None) cg'))"

text \<open>Where a failure is put: a rejection at the step it names, which may not be the current one.\<close>

definition record_failure :: "refusal \<times> string \<Rightarrow> check_step list \<Rightarrow> check_step list" where
  "record_failure failure steps =
     (case failure of
        (Rejected s why, current) \<Rightarrow>
          (let place = (if s \<in> set STEPS then s else current); marked = mark place ''rejected'' (Some why) steps
           in if place \<noteq> current then mark current ''skipped'' None marked else marked)
      | (Harness why, current) \<Rightarrow> mark current ''error'' (Some why) steps
      | (Escapes x, current) \<Rightarrow> steps)"

definition skip_pending :: "check_step list \<Rightarrow> check_step list" where
  "skip_pending = map (\<lambda>s. if st_status s = ''pending'' then s\<lparr>st_status := ''skipped''\<rparr> else s)"

definition close_checked :: "'d surroundings \<Rightarrow> 'd check_state \<Rightarrow> (refusal + unit) \<times> 'd check_state" where
  "close_checked su cg = (case cg_container cg of None \<Rightarrow> (Inr (), cg)
     | Some pc \<Rightarrow> (case close_container (su_machine su) pc (cg_machine cg) of
         (Inl e, d) \<Rightarrow> (Inl e, cg\<lparr>cg_machine := d\<rparr>)
       | (Inr pc', d) \<Rightarrow> (Inr (), cg\<lparr>cg_machine := d, cg_container := Some pc'\<rparr>)))"

definition begin_check :: "string \<Rightarrow> string \<Rightarrow> cache \<Rightarrow> 'd \<Rightarrow> 'd check_state" where
  "begin_check rp rv c d = \<lparr>cg_report = new_report rp rv, cg_resolved = None, cg_fetched = None, cg_manifest = None,
     cg_built = None, cg_container = None, cg_cache = c, cg_machine = d\<rparr>"

text \<open>What is returned: the report, or an exception of neither class, which passes through.\<close>

definition finish_check :: "refusal + unit \<Rightarrow> (refusal \<times> string) option \<Rightarrow> 'd check_state \<Rightarrow> (refusal + report) \<times> 'd check_state" where
  "finish_check shut failure cg =
     (case (shut, failure) of
        (Inl e, _) \<Rightarrow> (Inl e, cg)
      | (_, Some (Escapes x, _)) \<Rightarrow> (Inl (Escapes x), cg)
      | _ \<Rightarrow> (let cg' = on_steps skip_pending cg in (Inr (cg_report cg'), cg')))"

definition check_submission :: "'d surroundings \<Rightarrow> string \<Rightarrow> string \<Rightarrow> cache \<Rightarrow> 'd \<Rightarrow> ((refusal + report) \<times> 'd check_state) option" where
  "check_submission su rp rv c d =
     (case run_steps (all_steps su) (begin_check rp rv c d) of
        None \<Rightarrow> None
      | Some (failure, cg) \<Rightarrow>
        (let cg1 = (case failure of None \<Rightarrow> cg | Some fl \<Rightarrow> on_steps (record_failure fl) cg);
             (shut, cg2) = close_checked su cg1
         in Some (finish_check shut failure cg2)))"

section \<open>Which step a rejection names\<close>

lemma resolve_rejects: "resolve api rp rv = Inl (Rejected s why) \<Longrightarrow> s = ''resolve''"
  by (auto simp: resolve_def check_ref_def bindE_Inl_iff asking_the_hub_def hub_refusal_def
      dest: pinned_not_held split: if_splits sum.splits hub_kind.splits)

lemma lookup_escapes: "lookup_cache c sha = Inl e \<Longrightarrow> \<exists>x. e = Escapes x"
  by (auto simp: lookup_cache_def whole_number_def bindE_Inl_iff split: option.splits if_splits)

lemma fetch_rejects:
  assumes "hub_fetch most now others rs got c = (Inl (Rejected s why), c')" and "\<And>s why. got \<noteq> Inl (Inl (Rejected s why))"
  shows "s = ''fetch''"
proof -
  have "s = ''fetch''" if "snapshot_of got = Inl (Rejected s why)" for s why
    using that assms(2) by (auto simp: snapshot_of_def split: sum.splits refusal.splits)
  then have "s = ''fetch''" if "fill_cache most now rs (snapshot_of got) c = (Inl (Rejected s why), c')" for c
    using that by (auto simp: fill_cache_def Let_def split: sum.splits if_splits)
  then have "s = ''fetch''" if "store_checkout most now rs (snapshot_of got) c = (Inl (Rejected s why), c')" for c
    using that by (auto simp: store_checkout_def dest: lookup_escapes split: sum.splits option.splits)
  with assms(1) show ?thesis
    by (auto simp: hub_fetch_def dest: lookup_escapes split: sum.splits option.splits if_splits)
qed

lemma base_image_of_rejects: "base_image_of sp digest \<noteq> Inl (Rejected s why)"
  by (auto simp: base_image_of_def submission_key_of_def bindE_Inl_iff Let_def split: option.splits if_splits json.splits)

lemma build_rejects:
  "build_submission_image en sp checkout req r base bare token d = (Inl (Rejected s why), d') \<Longrightarrow> s = ''build''"
  using build_judged [of en sp checkout req r base bare token d] by fastforce

lemma passing_over_Inl: "passing_over m d = (Inl e, d') \<Longrightarrow> m d = (Inl e, d') \<and> (\<forall>r. e \<noteq> Harness r)"
  by (auto simp: passing_over_def split: prod.splits sum.splits refusal.splits)

lemma mount_command_Inl: "mount_command mc argv d = (Inl e, d') \<Longrightarrow> e = Harness Not_Mounted"
  by (auto simp: mount_command_def split: prod.splits command_answer.splits if_splits)

lemma unmount_Inl: "unmount_shared_dir mc dir d = (Inl e, d') \<Longrightarrow> e = Harness Not_Mounted"
  by (auto simp: unmount_shared_dir_def dest: mount_command_Inl split: prod.splits sum.splits refusal.splits)

lemma sandbox_user_Inl: "sandbox_user sp = Inl e \<Longrightarrow> \<forall>s why. e \<noteq> Rejected s why"
  by (auto simp: sandbox_user_def sandbox_key_def submission_key_of_def int_or_raise_def bindE_Inl_iff Let_def
      split: option.splits prod.splits if_splits)

text \<open>What never blames the submission.\<close>

definition blameless :: "refusal + 'a \<Rightarrow> bool" where
  "blameless r \<longleftrightarrow> (\<forall>s why. r \<noteq> Inl (Rejected s why))"

lemma blameless_Inr [intro, simp]: "blameless (Inr x)" "blameless (Inl (Escapes t))" "blameless (Inl (Harness r))"
  by (simp_all add: blameless_def)

lemma blameless_bindE [intro]: "blameless m \<Longrightarrow> (\<And>x. blameless (f x)) \<Longrightarrow> blameless (bindE m f)"
  by (cases m) (auto simp: blameless_def)

lemma blameless_if [intro]: "blameless a \<Longrightarrow> blameless b \<Longrightarrow> blameless (if c then a else b)"
  by simp

lemma blameless_key [intro]: "blameless (submission_key_of sp k)" "blameless (sandbox_key sp k)" "blameless (whole_number v)"
    "blameless (each_text v)" "blameless (int_or_raise n)"
proof -
  show key: "blameless (submission_key_of sp k)" for k by (auto simp: submission_key_of_def split: option.split)
  show "blameless (sandbox_key sp k)" unfolding sandbox_key_def by (rule blameless_bindE [OF key]) (auto split: option.split)
qed (auto simp: whole_number_def each_text_def int_or_raise_def split: option.split)

lemma blameless_run_argv: "blameless (run_argv sp img name dir gpus own)"
proof -
  have "blameless (tmpfs_options sp)" unfolding tmpfs_options_def by (intro blameless_bindE blameless_key blameless_Inr)
  moreover have "blameless (scratch_dir sp)" unfolding scratch_dir_def
    by (intro blameless_bindE blameless_key) (auto split: json.split list.split)
  then have "blameless (policy_environment sp)" unfolding policy_environment_def Let_def by (intro blameless_bindE blameless_Inr)
  moreover have "blameless (serve_argv sp)" unfolding serve_argv_def by (intro blameless_bindE blameless_key blameless_Inr)
  then have "blameless (container_argv sp)" unfolding container_argv_def by (intro blameless_bindE blameless_Inr)
  moreover have "blameless (case gpus of Some g \<Rightarrow> Inr g | None \<Rightarrow> bindE (sandbox_key sp ''gpus'') whole_number)"
    by (cases gpus) (auto intro: blameless_bindE blameless_key)
  ultimately show ?thesis unfolding run_argv_def by (intro blameless_bindE blameless_key blameless_Inr)
qed

lemma release_Inl: "release_socket_dir mc dir d = (Inl e, d') \<Longrightarrow> e = Harness Not_Mounted"
  by (auto simp: release_socket_dir_def Let_def next_step_Inl dest: unmount_Inl)

lemma passing_release: "passing_over (release_socket_dir mc dir) d \<noteq> (Inl e, d')"
  by (auto dest!: passing_over_Inl release_Inl)

lemma reap_listed_Inr: "reap_listed mc me cs reaped d \<noteq> (Inl e, d')"
  by (induction mc me cs reaped d rule: reap_listed.induct)
    (auto simp: Let_def next_step_Inl passing_release split: option.splits if_splits)

lemma by_docker_blameless: "blameless (fst (by_docker m d))"
  by (auto simp: by_docker_def split: prod.splits sum.splits docker_error.splits)

lemma blameless_next:
  "blameless (fst (m d)) \<Longrightarrow> (\<And>x d'. blameless (fst (f x d'))) \<Longrightarrow> blameless (fst (next_step m f d))"
  by (cases "m d"; cases "fst (m d)") (auto simp: next_step_def blameless_def)

lemma reap_listed_blameless: "blameless (fst (reap_listed mc me cs reaped d))"
proof (cases "reap_listed mc me cs reaped d")
  case (Pair r d')
  with reap_listed_Inr [of mc me cs reaped d] show ?thesis by (cases r) auto
qed

lemma reap_orphans_blameless: "blameless (fst (reap_orphans mc d))"
proof (cases "mc_me mc")
  case (Some me)
  obtain r d' where call: "by_docker (policy_containers (mc_engine mc)) d = (r, d')" by (meson prod.exhaust)
  with by_docker_blameless [of "policy_containers (mc_engine mc)" d] have "blameless r" by simp
  show ?thesis
  proof (cases r)
    case (Inl e)
    with call Some \<open>blameless r\<close> show ?thesis by (cases e) (simp_all add: reap_orphans_def blameless_def)
  next
    case (Inr listed)
    with call Some reap_listed_blameless show ?thesis by (simp add: reap_orphans_def)
  qed
qed (simp add: reap_orphans_def)

lemma mount_blameless [simp]: "blameless (fst (mount_command mc argv d))"
  by (auto simp: mount_command_def split: prod.split command_answer.split)

lemma unmount_blameless [simp]: "blameless (fst (unmount_shared_dir mc dir d))"
proof (cases "unmount_shared_dir mc dir d")
  case (Pair r d')
  with unmount_Inl [of mc dir d] show ?thesis by (cases r) auto
qed

lemma sandbox_user_blameless [simp]: "blameless (sandbox_user sp)"
  using sandbox_user_Inl [of sp] by (auto simp: blameless_def)

lemma prepare_blameless: "blameless (fst (prepare_socket_dir mc sp dir bounded d))"
proof -
  have own: "blameless (fst (case mc_own mc dir u g d' of (owned, d'') \<Rightarrow> if owned then (Inr (), d'') else (Inl (Harness Not_Owned), d'')))" for u g d'
    by (auto split: prod.split)
  show ?thesis
    unfolding prepare_socket_dir_def Let_def
    by (auto intro!: blameless_next own simp: mount_shared_dir_def split: prod.split)
qed

lemma start_blameless: "blameless (fst (start_container mc sp now pc d))"
proof -
  obtain r1 d1 where r1: "reap_orphans mc d = (r1, d1)" "blameless r1" using reap_orphans_blameless [of mc d] by (metis prod.collapse)
  obtain r2 d2 where r2: "prepare_socket_dir mc sp (pc_dir pc) (pc_bounded pc) d1 = (r2, d2)" "blameless r2"
    using prepare_blameless [of mc sp "pc_dir pc" "pc_bounded pc" d1] by (metis prod.collapse)
  have r3: "blameless (fst (by_docker (docker_run (mc_engine mc) args env) d2))" for args env by (rule by_docker_blameless)
  show ?thesis
    using r1 r2 r3 blameless_run_argv [of sp "pc_image pc" "pc_name pc" "pc_dir pc" "pc_gpus pc" "mc_me mc"]
    by (auto simp: start_container_def Let_def blameless_def split: sum.splits prod.splits) (metis fst_conv)+
qed

lemma budget_blameless: "budget_seconds sp k = Inl e \<Longrightarrow> \<exists>x. e = Escapes x"
  by (auto simp: budget_seconds_def split: option.splits)

lemma wait_rejects:
  assumes "wait_listening a b said looks = Some (Inl (Rejected s why))" shows "s = ''start''"
proof -
  from poll_result [OF assms [unfolded wait_listening_def]]
  obtain k where "wait_decides a b said (looks k) = Some (Inl (Rejected s why))" by blast
  then show ?thesis
    by (cases "lk_state (looks k)"; cases said)
      (simp_all add: wait_decides_def Let_def docker_refusal_def split: if_split_asm docker_error.split_asm)
qed

lemma greet_rejects:
  assumes "greet sp started budget looks said answer pc = Some (Inl (Rejected s why), pc')"
  shows "s \<in> {''start'', ''hello''}"
proof (cases "wait_listening started (fadd started budget) said looks")
  case None
  with assms show ?thesis by (simp add: greet_def)
next
  case (Some r)
  then show ?thesis
  proof (cases r)
    case (Inl e)
    with assms Some have "e = Rejected s why" by (simp add: greet_def)
    with Some Inl wait_rejects show ?thesis by blast
  next
    case (Inr after)
    with assms Some budget_blameless [of sp "''act_timeout_s''"] show ?thesis
      by (cases answer; cases "budget_seconds sp ''act_timeout_s''") (auto simp: greet_def Let_def)
  qed
qed

lemma hello_rejects:
  assumes "say_hello mc sp now budget looks said answer pc d = Some (Inl (Rejected s why), pc', d')"
  shows "s \<in> {''start'', ''hello''}"
proof -
  obtain r pc1 d1 where first: "(if pc_started pc = None then start_container mc sp now pc d else (Inr (), pc, d)) = (r, pc1, d1)"
    using prod_cases3 by blast
  have "blameless r" using start_blameless [of mc sp now pc d] first by (auto split: if_splits)
  with assms first show ?thesis
    by (cases r) (auto simp: say_hello_def blameless_def dest: greet_rejects split: option.splits)
qed

section \<open>Every step keeps the report's steps\<close>

abbreviation steps_of :: "'d check_state \<Rightarrow> check_step list" where
  "steps_of cg \<equiv> rp_steps (cg_report cg)"

text \<open>What a step may do: leave the steps alone, and reject in its own name; \<open>hello\<close>, which waits for
  the server, also in that of the start.\<close>

definition well_behaved :: "string \<times> 'd act \<Rightarrow> bool" where
  "well_behaved step \<longleftrightarrow> (\<forall>cg out cg'. snd step cg = Some (out, cg') \<longrightarrow> steps_of cg' = steps_of cg
     \<and> (\<forall>s why. out = Some (Rejected s why) \<longrightarrow> s = fst step \<or> fst step = ''hello'' \<and> s = ''start''))"

lemma resolve_behaves: "well_behaved (''resolve'', do_resolve su)"
  by (auto simp: well_behaved_def do_resolve_def dest: resolve_rejects split: sum.splits)

lemma fetch_behaves:
  assumes "\<And>rs s why. su_download su rs \<noteq> Inl (Inl (Rejected s why))"
  shows "well_behaved (''fetch'', do_fetch su)"
  using fetch_rejects assms
  by (auto simp: well_behaved_def do_fetch_def split: option.splits prod.splits sum.splits)

lemma manifest_behaves: "well_behaved (''manifest'', do_manifest su)"
  by (auto simp: well_behaved_def do_manifest_def dest: checked_rejects simp: STEP_def split: option.splits sum.splits)

lemma build_behaves: "well_behaved (''build'', do_build su)"
  by (auto simp: well_behaved_def do_build_def Let_def base_image_of_rejects dest: build_rejects
      split: option.splits prod.splits sum.splits)

lemma start_behaves: "well_behaved (''start'', do_start su)"
proof -
  have no: "start_container mc sp now pc d = (Inl (Rejected s why), pc', d') \<Longrightarrow> False" for mc :: "'a machine" and sp now pc d pc' d' s why
    using start_blameless [of mc sp now pc d] by (auto simp: blameless_def)
  show ?thesis
    by (auto dest: no simp: well_behaved_def do_start_def Let_def split: option.splits prod.splits sum.splits)
qed

lemma hello_behaves: "well_behaved (''hello'', do_hello su)"
  using hello_rejects budget_blameless
  by (auto simp: well_behaved_def do_hello_def split: option.splits prod.splits sum.splits) fastforce+

section \<open>Where a submission stopped\<close>

definition ok_step :: "string \<Rightarrow> check_step" where
  "ok_step name = \<lparr>st_name = name, st_status = ''ok'', st_reason = None\<rparr>"

text \<open>The first \<open>k\<close> steps done.\<close>

definition oks :: "nat \<Rightarrow> check_step list" where
  "oks k = map ok_step (take k STEPS) @ map pending_step (drop k STEPS)"

lemma length_STEPS: "length STEPS = 6"
  by (simp add: STEPS_def)

lemma six_cases: "k < 6 \<Longrightarrow> k = 0 \<or> k = 1 \<or> k = 2 \<or> k = 3 \<or> k = 4 \<or> k = (5 :: nat)"
  by linarith

lemma mark_oks: "k < 6 \<Longrightarrow> mark (STEPS ! k) ''ok'' None (oks k) = oks (Suc k)"
  by (drule six_cases) (elim disjE; simp add: mark_def oks_def STEPS_def ok_step_def pending_step_def)

lemma steps_of_on_steps [simp]: "steps_of (on_steps f cg) = f (steps_of cg)"
  by (simp add: on_steps_def)

lemma steps_named: "k < 6 \<Longrightarrow> fst (all_steps su ! k) = STEPS ! k"
  by (drule six_cases) (elim disjE; simp add: all_steps_def STEPS_def)

lemma run_shape:
  assumes "\<And>k. k < 6 \<Longrightarrow> well_behaved (all_steps su ! k)"
  shows "k \<le> 6 \<Longrightarrow> steps_of cg = oks k \<Longrightarrow> run_steps (drop k (all_steps su)) cg = Some (failure, cg') \<Longrightarrow>
    (failure = None \<and> steps_of cg' = oks 6)
    \<or> (\<exists>j e. j < 6 \<and> failure = Some (e, STEPS ! j) \<and> steps_of cg' = oks j
        \<and> (\<forall>s why. e = Rejected s why \<longrightarrow> s = STEPS ! j \<or> j = 5 \<and> s = ''start''))"
proof (induction "6 - k" arbitrary: k cg)
  case 0
  then have "drop k (all_steps su) = []" by (simp add: all_steps_def)
  with 0 show ?case by simp
next
  case (Suc n)
  then have k: "k < 6" by simp
  obtain name act where step: "all_steps su ! k = (name, act)" by (meson prod.exhaust)
  have "drop k (all_steps su) = (name, act) # drop (Suc k) (all_steps su)"
    using Cons_nth_drop_Suc [of k "all_steps su"] k step by (simp add: all_steps_def)
  with Suc.prems obtain res where res: "act cg = Some res"
    and run: "(case res of (Some e, cg1) \<Rightarrow> Some (Some (e, name), cg1)
        | (None, cg1) \<Rightarrow> run_steps (drop (Suc k) (all_steps su)) (on_steps (mark name ''ok'' None) cg1)) = Some (failure, cg')"
    by (auto split: option.splits prod.splits)
  obtain out cg1 where out: "res = (out, cg1)" by (meson prod.exhaust)
  from assms [OF k] res out step have keeps: "steps_of cg1 = oks k"
    and blame: "\<And>s why. out = Some (Rejected s why) \<Longrightarrow> s = name \<or> name = ''hello'' \<and> s = ''start''"
    using Suc.prems by (auto simp: well_behaved_def)
  have name: "name = STEPS ! k" using steps_named [OF k, of su] step by simp
  show ?case
  proof (cases out)
    case (Some e)
    have hello: "name = ''hello'' \<Longrightarrow> k = 5" using six_cases [OF k] name by (auto simp: STEPS_def)
    from Some run out have "failure = Some (e, STEPS ! k)" "cg' = cg1" by (simp_all add: name)
    moreover have "s = STEPS ! k \<or> k = 5 \<and> s = ''start''" if "e = Rejected s why" for s why
      using blame Some that name hello by blast
    ultimately show ?thesis using k keeps by blast
  next
    case None
    have "steps_of (on_steps (mark name ''ok'' None) cg1) = oks (Suc k)" using keeps mark_oks [OF k] name by simp
    from Suc.hyps(1) [OF _ _ this] Suc.hyps(2) k None run out show ?thesis by simp
  qed
qed

definition failed_as :: "nat \<Rightarrow> string \<Rightarrow> reason \<Rightarrow> check_step list" where
  "failed_as j status why = map ok_step (take j STEPS)
     @ \<lparr>st_name = STEPS ! j, st_status = status, st_reason = Some why\<rparr>
     # map (\<lambda>name. \<lparr>st_name = name, st_status = ''skipped'', st_reason = None\<rparr>) (drop (Suc j) STEPS)"

lemma record_harness: "j < 6 \<Longrightarrow> skip_pending (record_failure (Harness why, STEPS ! j) (oks j)) = failed_as j ''error'' why"
  by (drule six_cases) (elim disjE;
    simp add: record_failure_def mark_def oks_def STEPS_def ok_step_def pending_step_def skip_pending_def failed_as_def)

lemma record_rejected: "j < 6 \<Longrightarrow> skip_pending (record_failure (Rejected (STEPS ! j) why, STEPS ! j) (oks j)) = failed_as j ''rejected'' why"
  by (drule six_cases) (elim disjE;
    simp add: record_failure_def mark_def oks_def STEPS_def ok_step_def pending_step_def skip_pending_def failed_as_def)

lemma record_start: "skip_pending (record_failure (Rejected ''start'' why, STEPS ! 5) (oks 5)) = failed_as 4 ''rejected'' why"
  by (simp add: record_failure_def mark_def oks_def STEPS_def ok_step_def pending_step_def skip_pending_def failed_as_def)

lemma skip_all_ok: "skip_pending (oks 6) = map ok_step STEPS"
  by (simp add: oks_def STEPS_def ok_step_def skip_pending_def)

lemma failed_as_found:
  assumes "j < 6" and "status \<in> {''rejected'', ''error''}" and "rp_steps r = failed_as j status why"
  shows "failed_step r = Some \<lparr>st_name = STEPS ! j, st_status = status, st_reason = Some why\<rparr> \<and> report_verdict r = status"
  using six_cases [OF assms(1)] assms(2,3)
  by (elim disjE) (auto simp: failed_step_def report_verdict_def failed_as_def STEPS_def ok_step_def)

lemma close_checked_steps: "close_checked su cg = (res, cg') \<Longrightarrow> steps_of cg' = steps_of cg"
  by (auto simp: close_checked_def split: option.splits prod.splits sum.splits)

lemma close_checked_closes:
  assumes "close_checked su cg = (Inr (), cg')"
  shows "case cg_container cg' of None \<Rightarrow> True | Some pc \<Rightarrow> pc_closed pc"
proof (cases "cg_container cg")
  case None
  with assms show ?thesis by (simp add: close_checked_def)
next
  case (Some pc)
  with assms obtain pc' d where "close_container (su_machine su) pc (cg_machine cg) = (Inr pc', d)" "cg_container cg' = Some pc'"
    by (auto simp: close_checked_def split: prod.splits sum.splits)
  then show ?thesis
    by (auto simp: close_container_def next_step_Inr Let_def split: if_splits)
qed

lemma finish_report:
  assumes "finish_check res failure cg = (Inr r, cg')"
  shows "res = Inr () \<and> (\<forall>x cur. failure \<noteq> Some (Escapes x, cur)) \<and> r = cg_report (on_steps skip_pending cg)
    \<and> cg' = on_steps skip_pending cg"
proof (cases res)
  case (Inr u)
  show ?thesis
  proof (cases failure)
    case (Some fl)
    obtain e cur where "fl = (e, cur)" by force
    with assms Inr Some show ?thesis by (cases e) (auto simp: finish_check_def Let_def)
  qed (use assms Inr in \<open>auto simp: finish_check_def Let_def\<close>)
qed (use assms in \<open>simp add: finish_check_def\<close>)

text \<open>A failure put where it belongs leaves one failed step, those before it ok, those after it skipped.\<close>

lemma failure_shown:
  assumes "j < 6" and "\<forall>s why. e = Rejected s why \<longrightarrow> s = STEPS ! j \<or> j = 5 \<and> s = ''start''" and "\<forall>x. e \<noteq> Escapes x"
  shows "\<exists>i status why. i < 6 \<and> status \<in> {''rejected'', ''error''}
    \<and> skip_pending (record_failure (e, STEPS ! j) (oks j)) = failed_as i status why"
proof (cases e)
  case (Harness why)
  with assms(1) show ?thesis
    by (intro exI [of _ j] exI [of _ "''error''"] exI [of _ why]) (simp only: record_harness, simp)
next
  case (Rejected s why)
  with assms(2) consider "s = STEPS ! j" | "j = 5" "s = ''start''" by blast
  then show ?thesis
  proof cases
    case 1
    with assms(1) Rejected show ?thesis
      by (intro exI [of _ j] exI [of _ "''rejected''"] exI [of _ why]) (simp only: record_rejected, simp)
  next
    case 2
    with Rejected show ?thesis
      by (intro exI [of _ 4] exI [of _ "''rejected''"] exI [of _ why]) (simp only: record_start, simp)
  qed
qed (use assms(3) in simp)

lemma all_steps_behave:
  assumes "\<And>rs s why. su_download su rs \<noteq> Inl (Inl (Rejected s why))" and "k < 6"
  shows "well_behaved (all_steps su ! k)"
  using six_cases [OF assms(2)] resolve_behaves fetch_behaves [OF assms(1)] manifest_behaves build_behaves start_behaves hello_behaves
  by (elim disjE) (simp_all add: all_steps_def)

text \<open>C25. A report says where a submission stopped, and blames it only for its own: either every step
  is ok and the submission is accepted, or there is one step that was rejected or errored, with
  its reason, every step before it is ok and every step after it is skipped; that step is the one
  reported and its status is the verdict. When a report is given, the container is closed.\<close>

theorem report_tells_where_it_stopped:
  assumes "\<And>rs s why. su_download su rs \<noteq> Inl (Inl (Rejected s why))"
    and "check_submission su rp rv c d = Some (Inr r, cg)"
  shows "(rp_steps r = map ok_step STEPS \<and> report_verdict r = ''accepted'' \<and> failed_step r = None
      \<or> (\<exists>j status why. j < 6 \<and> status \<in> {''rejected'', ''error''} \<and> rp_steps r = failed_as j status why
           \<and> failed_step r = Some \<lparr>st_name = STEPS ! j, st_status = status, st_reason = Some why\<rparr> \<and> report_verdict r = status))
    \<and> (case cg_container cg of None \<Rightarrow> True | Some pc \<Rightarrow> pc_closed pc)"
proof -
  from assms(2) obtain failure cg0 where run: "run_steps (all_steps su) (begin_check rp rv c d) = Some (failure, cg0)"
    by (auto simp: check_submission_def split: option.splits)
  define cg1 where "cg1 = (case failure of None \<Rightarrow> cg0 | Some fl \<Rightarrow> on_steps (record_failure fl) cg0)"
  obtain res cg2 where closed: "close_checked su cg1 = (res, cg2)" by (meson prod.exhaust)
  have start: "steps_of (begin_check rp rv c d) = oks 0" by (simp add: begin_check_def new_report_def oks_def)
  from run_shape [OF all_steps_behave [OF assms(1)] _ start, of failure cg0] run
  have shape: "(failure = None \<and> steps_of cg0 = oks 6)
    \<or> (\<exists>j e. j < 6 \<and> failure = Some (e, STEPS ! j) \<and> steps_of cg0 = oks j
        \<and> (\<forall>s why. e = Rejected s why \<longrightarrow> s = STEPS ! j \<or> j = 5 \<and> s = ''start''))"
    by simp
  have "finish_check res failure cg2 = (Inr r, cg)"
    using assms(2) run closed by (simp add: check_submission_def cg1_def)
  note fin = finish_report [OF this]
  then have res: "res = Inr ()" and not_escaped: "\<And>x cur. failure \<noteq> Some (Escapes x, cur)"
    and r: "r = cg_report (on_steps skip_pending cg2)" and cg: "cg = on_steps skip_pending cg2" by simp_all
  have steps: "rp_steps r = skip_pending (steps_of cg1)" using close_checked_steps [OF closed] by (simp add: r)
  have container: "case cg_container cg of None \<Rightarrow> True | Some pc \<Rightarrow> pc_closed pc"
    using close_checked_closes [OF closed [unfolded res]] by (simp add: cg on_steps_def)
  from shape show ?thesis
  proof (elim disjE exE conjE)
    assume "failure = None" "steps_of cg0 = oks 6"
    then have "rp_steps r = map ok_step STEPS" by (simp add: steps cg1_def skip_all_ok)
    then show ?thesis
      using container by (auto simp: failed_step_def report_verdict_def report_ok_def STEPS_def ok_step_def)
  next
    fix j e
    assume j: "j < 6" and fl: "failure = Some (e, STEPS ! j)" and oks: "steps_of cg0 = oks j"
      and own: "\<forall>s why. e = Rejected s why \<longrightarrow> s = STEPS ! j \<or> j = 5 \<and> s = ''start''"
    have shown: "rp_steps r = skip_pending (record_failure (e, STEPS ! j) (oks j))"
      using fl oks by (simp add: steps cg1_def)
    from fl not_escaped have "\<forall>x. e \<noteq> Escapes x" by blast
    from failure_shown [OF j own this] shown obtain i status why
      where at_i: "i < 6" "status \<in> {''rejected'', ''error''}" "rp_steps r = failed_as i status why"
      by (elim exE conjE) (simp only:)
    note found = failed_as_found [OF at_i]
    show ?thesis
      by (rule conjI [OF disjI2 container], intro exI [of _ i] exI [of _ status] exI [of _ why])
        (use found at_i in \<open>simp del: failed_as_def\<close>)
  qed
qed

text \<open>A host without Docker: the submission is resolved, fetched and its manifest accepted, and the
  build is the harness's error.\<close>

definition sample_engine :: "unit engine" where
  "sample_engine = \<lparr>en_binary = ''docker'', en_cli = (\<lambda>_ _ _ d. (Missing, d)), en_environ = [], en_iid_path = ''/t/iid'',
     en_iid_text = (\<lambda>_. None)\<rparr>"

definition sample_machine :: "unit machine" where
  "sample_machine = \<lparr>mc_engine = sample_engine, mc_can_bound = False, mc_me = None, mc_proc = (\<lambda>_ _. No_Process),
     mc_shared = (\<lambda>_ _. False), mc_command = (\<lambda>_ d. (Cannot_Run, d)), mc_make_dir = (\<lambda>_ d. d), mc_own = (\<lambda>_ _ _ d. (True, d)),
     mc_unlink = (\<lambda>_ d. d), mc_plain_file = (\<lambda>_ _ _. None), mc_write = (\<lambda>_ _ d. d)\<rparr>"

definition sample_api :: hub_api where
  "sample_api = \<lparr>api_info = (\<lambda>_ _. Inr \<lparr>i_sha = JStr (replicate 40 CHR ''a''), i_siblings = Some []\<rparr>),
     api_refs = (\<lambda>_. Inr ([], [])), api_commits = (\<lambda>_ _. [])\<rparr>"

definition sample_digest :: string where
  "sample_digest = ''sha256:'' @ replicate 64 CHR ''b''"

definition sample_surroundings :: "unit surroundings" where
  "sample_surroundings = \<lparr>su_spec = sample_spec, su_api = sample_api, su_cap = 100, su_now = ''now'', su_others = (\<lambda>c. c),
     su_download = (\<lambda>_. Inr sample_checkout), su_resolution = (\<lambda>_. sample_resolution), su_decodes = (\<lambda>_. True),
     su_yload = (\<lambda>_. Inr sample_data), su_machine = sample_machine, su_base = Some sample_digest,
     su_gpus = None, su_checkout = ''/c'', su_bare = ''/e'', su_probe = ''p'', su_token = ''t'', su_authkey = ''k'', su_work = ''/w'',
     su_start = 0, su_looks = sample_looks, su_said = Inr [], su_answer = Inr JNull\<rparr>"

definition sample_pinned :: resolved where
  "sample_pinned = \<lparr>rs_repo = ''o/n'', rs_revision = ''main'', rs_sha = replicate 40 CHR ''a'', rs_files = []\<rparr>"

lemma sample_resolves: "resolve sample_api ''o/n'' ''main'' = Inr sample_pinned"
  "ref_of sample_pinned = Inr (make_ref ''o/n'' (replicate 40 CHR ''a''))"
proof -
  have ok: "is_repo ''o/n''" "is_commit_sha (replicate 40 CHR ''a'')" "\<not> is_commit_sha ''main''" by code_simp+
  then show "resolve sample_api ''o/n'' ''main'' = Inr sample_pinned"
    by (simp add: resolve_def check_ref_def sample_api_def asking_the_hub_def pinned_def listed_files_def sample_pinned_def map_filter_simps)
  from ok show "ref_of sample_pinned = Inr (make_ref ''o/n'' (replicate 40 CHR ''a''))"
    by (simp add: ref_of_def sample_pinned_def resolved_ref_def)
qed

lemma sample_fetches:
  "\<exists>f c. hub_fetch 100 ''now'' (\<lambda>c. c) sample_pinned (Inr sample_checkout) [] = (Inr f, c) \<and> ft_checkout f = sample_checkout"
  by (simp add: hub_fetch_def lookup_cache_def entry_at_def unsized_files_def sample_pinned_def declared_bytes_def map_filter_simps
      store_checkout_def snapshot_of_def sample_checkout_def sample_requirements_def HUB_CACHE_DIR_def fill_cache_def Let_def)

lemma sample_builds:
  "\<exists>base why. base_image_of sample_spec (Some sample_digest) = Inr base
     \<and> build_submission_image sample_engine sample_spec ''/c'' req r base ''/e'' ''p'' () = (Inl (Harness why), ())"
proof -
  have digest: "rx_match_dollar IMAGE_DIGEST_RE sample_digest" "sample_digest \<noteq> []" by code_simp+
  have "base_image_of sample_spec (Some sample_digest) = Inr \<lparr>b_name = ''b'', b_digest = sample_digest\<rparr>"
    using digest
    by (simp add: base_image_of_def submission_key_of_def spec_section_def sample_spec_def sample_contract_def jget_JObj key_of_def)
  moreover have "build_submission_image sample_engine sample_spec ''/c'' req r base ''/e'' ''p'' ()
      = (Inl (Harness (Docker_Says (Docker_Error ''docker is not installed or not on PATH''))), ())" for base
    by (simp add: build_submission_image_def ensure_base_def next_step_def by_docker_def image_id_def try_docker_def docker_cli_def
        and_call_def sample_engine_def)
  ultimately show ?thesis by blast
qed

theorem report_tells_where_it_stopped_witness:
  "\<exists>r cg why. check_submission sample_surroundings ''o/n'' ''main'' [] () = Some (Inr r, cg)
     \<and> rp_steps r = failed_as 3 ''error'' why \<and> report_verdict r \<in> {''accepted'', ''rejected'', ''error''}"
proof -
  obtain f c where fetch: "hub_fetch 100 ''now'' (\<lambda>c. c) sample_pinned (Inr sample_checkout) [] = (Inr f, c)" "ft_checkout f = sample_checkout"
    using sample_fetches by blast
  obtain m where m: "check_repository sample_spec sample_resolution (\<lambda>_. True) (\<lambda>_. Inr sample_data) sample_checkout = Inr m"
    using sample_checkout_accepted by blast
  obtain base why where built: "base_image_of sample_spec (Some sample_digest) = Inr base"
    "build_submission_image sample_engine sample_spec ''/c'' (m_requirements m) (make_ref ''o/n'' (replicate 40 CHR ''a'')) base ''/e'' ''p'' ()
       = (Inl (Harness why), ())"
    using sample_builds by blast
  obtain cg0 where run: "run_steps (all_steps sample_surroundings) (begin_check ''o/n'' ''main'' [] ()) = Some (Some (Harness why, ''build''), cg0)"
      and none: "cg_container cg0 = None" and steps: "steps_of cg0 = oks 3"
    by (simp add: mark_def oks_def STEPS_def ok_step_def pending_step_def all_steps_def do_resolve_def do_fetch_def do_manifest_def do_build_def begin_check_def new_report_def on_steps_def
        sample_surroundings_def sample_machine_def sample_resolves fetch m built)
  define fin where "fin = on_steps skip_pending (on_steps (record_failure (Harness why, ''build'')) cg0)"
  have check: "check_submission sample_surroundings ''o/n'' ''main'' [] () = Some (Inr (cg_report fin), fin)"
    using run none by (simp add: check_submission_def close_checked_def finish_check_def fin_def on_steps_def)
  have "su_download sample_surroundings rs \<noteq> Inl (Inl (Rejected s why))" for rs s why
    by (simp add: sample_surroundings_def)
  from report_tells_where_it_stopped [OF this check]
  have "report_verdict (cg_report fin) \<in> {''accepted'', ''rejected'', ''error''}" by auto
  moreover have "rp_steps (cg_report fin) = failed_as 3 ''error'' why"
    using record_harness [of 3 why] steps by (simp add: fin_def STEPS_def)
  ultimately show ?thesis using check by blast
qed

end
