(* ===== verification/Spec2Isabelle.thy ===== *)
theory Spec2Isabelle
  imports Score Queue Contract Records Store_Log Verify Units Side Live Duel_Void Daemon_Served Mirror Check
begin

text \<open>
  The orchestrator of a robot-policy competition, verified component by component. Challengers are
  queued, a daemon duels each with its track's king, and every duel ends as a signed record of an
  append-only store that anyone can verify and a mirror publishes. Paths below are relative to
  \<open>src/src/icil_orchestrator/\<close>; each definition has the name of what it models, with a suffix where
  HOL has that name already.

  \<^bold>\<open>The parts and how they meet.\<close> The contract (\<open>spec.json\<close>, read by \<open>spec.py\<close>) says what is
  competed in: tracks, skills, sizes, budgets and the sandbox. A submission is resolved to a commit
  and queued (\<open>queue.py\<close>). The daemon (\<open>daemon.py\<close>) takes a track's next entry and asks for a duel
  (\<open>duel/orchestrate.py\<close>): its units are derived from the duel's id (\<open>benchmarks/units.py\<close>), each
  unit's prompt is made and verified once (\<open>duel/materialize.py\<close>), both sides play every unit
  (\<open>duel/side.py\<close>, through \<open>benchmarks/subprocess_runner.py\<close>), the rows are scored
  (\<open>duel/score.py\<close>) and a record is appended to the track's index (\<open>store/writer.py\<close>), which
  decides who holds the crown. Live frames (\<open>live.py\<close>) and the mirror (\<open>store/mirror.py\<close>) only read.
  Every piece of state is a file, so a killed process is resumed from what is on disk.

  \<^bold>\<open>The base.\<close>
  \<^item> \<open>Prelude\<close>: results as sums, Python's text operations, sorted and association lists. A text is a
    list of characters below 256; a document read as bytes is that list as well.
  \<^item> \<open>Regex\<close>, \<open>Float64\<close>, \<open>Sha256\<close>, \<open>Py\<close>: Python's \<open>re\<close> (matching by derivatives, shown equal to the
    inductive relation \<open>rx_matches\<close>), floats as rationals rounded after each operation,
    \<open>hashlib.sha256\<close> on 32-bit words, and the built-in operations on unchecked documents.
  \<^item> \<open>Json\<close>, \<open>Json_Pretty\<close>, \<open>Json_Roundtrip\<close> (\<open>canon.py\<close>): \<open>json.dumps\<close> and \<open>json.loads\<close>; the locale
    \<open>json_codec\<close> states what a form of printing owes its reader and is interpreted for the two the
    program signs and appends.
  \<^item> \<open>Jsonl\<close>: line files with a key per line (the locale \<open>keyed_log\<close>, interpreted for results and
    prompts). \<open>File_Lock\<close>: processes sharing a locked file as a step relation, its reachable states
    and the locale \<open>locked_file\<close>, interpreted for the queue. \<open>Poll\<close>: a wait that may not end, as a
    partial function, and the locale \<open>deadlined\<close>, interpreted for the wait for a container.

  \<^bold>\<open>The contract and the queue.\<close>
  \<^item> \<open>Contract\<close> (\<open>spec.py\<close>): \<open>validate_spec\<close> returns the list of problems, \<open>None\<close> where the code raises;
    a contract is a document with its accessors. Lemmas: an accepted contract's skills are each in one
    track, every accessor answers, the sandbox is the one asked for.
  \<^item> \<open>Ids\<close> (\<open>ids.py\<close>): keys, duel, event and unit ids; different inputs hash different texts.
  \<^item> \<open>Queue\<close> (\<open>queue.py\<close>): the state is the file's text; every operation loads it, changes it and
    writes it back under the lock. Lemmas: the file always loads, whatever operations interleave, no
    entry is there twice, order is first in first out, \<open>put_back\<close> undoes \<open>take\<close>.

  \<^bold>\<open>The store.\<close>
  \<^item> \<open>Records\<close> (\<open>store/records.py\<close>), \<open>Store\<close> (\<open>store/writer.py\<close>): the root directory as a list of files.
    \<open>Store_Log\<close> is its specification, one track's index as a list of records: appending to the files
    appends to the list, the head is a function of it, and rebuilding after any torn write returns
    to it.
  \<^item> \<open>Verify\<close> (\<open>store/verify.py\<close>): the third party's check. What it accepts is a signed gapless
    prefix, and what the writer wrote it accepts.
  \<^item> \<open>Mirror\<close> (\<open>store/mirror.py\<close>): which files are published, a push and a rebuild; \<open>mirrors\<close> is what
    the Hub promises of a listing and a commit.

  \<^bold>\<open>A duel.\<close>
  \<^item> \<open>Units\<close>, \<open>Materialize\<close>, \<open>Outcome\<close>, \<open>Side\<close>, \<open>Score\<close>, \<open>Live\<close>: the steps above, each with the files it
    leaves. A benchmark's answers, a subprocess's exit and a policy's end are the world of a unit.
    Lemmas: a success needs the benchmark's word, a failure is put to the side whose policy caused
    it, a resumed run ends as an unbroken one, void rows never count.
  \<^item> \<open>Duel_Run\<close>, \<open>Duel\<close> (\<open>duel/orchestrate.py\<close>, \<open>move_aside\<close> of \<open>duel/orphans.py\<close>): \<open>run_duel\<close> is
    \<open>Orchestrator.run\<close>, over the record \<open>duel\<close> (the duel's rows, media and directories) and the
    record \<open>host\<close> (contract, signer, runtime, benchmarks, clock). \<open>Duel_Steady\<close>: what a run leaves
    alone; \<open>Duel_Facts\<close>: at most one record a duel; \<open>Duel_Done\<close>: what a finished run leaves, and a
    sample duel run to its end; \<open>Duel_Void\<close>: void units stay void.
  \<^item> \<open>Daemon\<close> (\<open>daemon.py\<close>): one step of the loop and the loop. \<open>Daemon_Facts\<close>: where a queue's keys
    go; \<open>Daemon_Served\<close>: no entry is lost, and fit queues drain.

  \<^bold>\<open>A submission.\<close> (\<open>submissions/\<close>)
  \<^item> \<open>Refusal\<close> (\<open>errors.py\<close>): a rejection, a harness error, or an exception of neither class, and
    steps that end in one. \<open>Resolve\<close> (\<open>resolve.py\<close>): a name pinned to a commit a branch or a tag holds.
    \<open>Fetch\<close> (\<open>fetch.py\<close>): the cache addressed by the commit, within its cap. \<open>Checkout\<close> (\<open>checks.py\<close> and
    \<open>packages/icil-policy/src/icil_policy/manifest.py\<close>): the manifest, and that nothing accepted
    leaves the checkout.
  \<^item> \<open>Docker\<close> (\<open>docker.py\<close>), \<open>Image\<close> (\<open>image.py\<close>), \<open>Container\<close> and \<open>Policy_Container\<close> (\<open>container.py\<close>): the
    command line, the images, the command that starts a policy and the container's life. The engine
    behind the command line is a function on a state of its own. \<open>Container\<close> also reads the command
    as docker does, so that what is proved is of the options in force.
  \<^item> \<open>Check\<close> (\<open>check.py\<close>): the six steps in order and the report.

  \<^bold>\<open>State and errors.\<close> Classes and dataclasses are records, a method is a function that returns the
  changed record; a raise is an \<open>Inl\<close>, or \<open>None\<close> where the code has one exception only; a dict is an
  association list in insertion order; a set whose order is never seen is a list without duplicates.
  Python's integers are unbounded and so are these; SHA-256 is on \<open>32 word\<close>.

  \<^bold>\<open>Bounds.\<close> Recursion is structural but for four places. \<open>loads\<close> has the text's length as fuel:
  whatever fuel reads a text, that fuel reads it (\<open>loads_complete\<close>). \<open>parts_from\<close> has the number of
  files, and a directory has no more index parts. \<open>free_name\<close> has the number of directories, and one
  of that many names and one is free (\<open>free_name_free\<close>). The rounds of \<open>serve\<close> are given with its
  settings, one at a time. \<open>py_eq\<close> ends by the sizes of its arguments. \<open>poll\<close> is partial, and
  \<open>wait_returns\<close> shows that it ends.

  \<^bold>\<open>What stands outside.\<close> Ed25519 is a pair of parameters, \<open>sign\<close> and \<open>verify\<close>, with correctness as a
  hypothesis where it is used; the JSON schema validator, PyYAML, the Hub, the docker engine, the
  mirror's repository, benchmarks, policies and the clock are arguments. A log message, the seconds
  a step took and the words of a reason are not kept. Not modelled: the HTTP intake (\<open>admin.py\<close>) and
  the command line (\<open>cli.py\<close>), which call what is modelled; the two policy runtimes of a duel and
  the process ledger, which are processes and signals; finding and importing benchmark plugins;
  the policy protocol of \<open>icil_policy\<close>, numpy arrays on a socket; \<open>LocalFetcher\<close>; \<open>rng.py\<close>, which
  nothing uses.
\<close>

end
